(* ===== verification/C_Prelude.thy ===== *)
theory C_Prelude
  imports Main "HOL-Library.Word"
begin

unbundle bit_operations_syntax

text \<open>
  What the components share: the faults a C program can run into, the fault monad, memory
  objects (lists of cells read and written by offset), C strings inside memory objects, and the
  few functions of the C library that the sources call on them.

  A computation of type \<open>'a c\<close> either runs into undefined behaviour, a trap or an exit (\<open>Inl\<close> of
  the fault) or returns (\<open>Inr\<close>).  Where a loop of the source may run for ever the model has the type
  \<open>'a c option\<close>, with \<open>None\<close> for a run that does not return.
\<close>

named_theorems c_text "strings at the start of an object, and texts stored in an object with room"

section \<open>Faults and the fault monad\<close>

datatype fault =
    Read_oob          \<comment> \<open>read outside the object\<close>
  | Write_oob         \<comment> \<open>write outside the object\<close>
  | Null_deref        \<comment> \<open>access through a null pointer\<close>
  | Uninit            \<comment> \<open>use of an indeterminate value\<close>
  | Bad_free          \<comment> \<open>access through or free of a pointer to no live object\<close>
  | Signed_overflow   \<comment> \<open>a signed result outside the range of int\<close>
  | Div_zero          \<comment> \<open>integer division or remainder by zero\<close>
  | Abort             \<comment> \<open>a failed assert\<close>
  | Exit int          \<comment> \<open>the process calls exit with this status\<close>

type_synonym 'a c = "fault + 'a"

fun cbind :: "'a c \<Rightarrow> ('a \<Rightarrow> 'b c) \<Rightarrow> 'b c" where
  "cbind (Inl e) f = Inl e"
| "cbind (Inr x) f = f x"

lemma cbind_cong [fundef_cong]:
  "x = y \<Longrightarrow> (\<And>z. y = Inr z \<Longrightarrow> f z = g z) \<Longrightarrow> cbind x f = cbind y g"
  by (cases y) auto

lemma cbind_Inr_iff: "cbind x f = Inr y \<longleftrightarrow> (\<exists>z. x = Inr z \<and> f z = Inr y)"
  by (cases x) auto

lemma cbind_Inl_iff: "cbind x f = Inl e \<longleftrightarrow> x = Inl e \<or> (\<exists>z. x = Inr z \<and> f z = Inl e)"
  by (cases x) auto

lemma cbindE: "cbind x f = Inr y \<Longrightarrow> (\<And>z. x = Inr z \<Longrightarrow> f z = Inr y \<Longrightarrow> P) \<Longrightarrow> P"
  by (cases x) auto

lemma cbind_assoc: "cbind (cbind x f) g = cbind x (\<lambda>y. cbind (f y) g)"
  by (cases x) auto

text \<open>The same for computations that may run for ever.\<close>

definition obind :: "'a c option \<Rightarrow> ('a \<Rightarrow> 'b c option) \<Rightarrow> 'b c option" where
  "obind x f = (case x of None \<Rightarrow> None | Some (Inl e) \<Rightarrow> Some (Inl e) | Some (Inr y) \<Rightarrow> f y)"

lemma obind_simps [simp]:
  "obind None f = None" "obind (Some (Inl e)) f = Some (Inl e)" "obind (Some (Inr y)) f = f y"
  by (simp_all add: obind_def)

text \<open>\<open>for (i = a; i < a + n; i++)\<close> with the variables the body changes as state.\<close>

fun for_n :: "nat \<Rightarrow> nat \<Rightarrow> (nat \<Rightarrow> 's \<Rightarrow> 's c) \<Rightarrow> 's \<Rightarrow> 's c" where
  "for_n 0 i f s = Inr s"
| "for_n (Suc n) i f s = cbind (f i s) (for_n n (Suc i) f)"

lemma for_n_inv:
  "(\<And>j t. a \<le> j \<Longrightarrow> j < a + n \<Longrightarrow> P t \<Longrightarrow> f j t = Inr (g j t) \<and> P (g j t)) \<Longrightarrow> P s \<Longrightarrow>
     for_n n a f s = Inr (fold g [a..<a + n] s)"
proof (induction n arbitrary: a s)
  case (Suc n)
  have "[a..<a + Suc n] = a # [Suc a..<Suc a + n]" by (simp add: upt_conv_Cons)
  with Suc show ?case by simp
qed simp

lemma for_n_total:
  "(\<And>j t. a \<le> j \<Longrightarrow> j < a + n \<Longrightarrow> f j t = Inr (g j t)) \<Longrightarrow> for_n n a f s = Inr (fold g [a..<a + n] s)"
  using for_n_inv[where P = "\<lambda>_. True"] by metis

text \<open>Writing the cells one after the other.\<close>

lemma fold_update: "n \<le> length d \<Longrightarrow> fold (\<lambda>k d. d[k := v k]) [0..<n] d = map v [0..<n] @ drop n d"
proof (induction n)
  case (Suc n)
  then have "drop n d = d ! n # drop (Suc n) d" by (simp add: Cons_nth_drop_Suc)
  with Suc show ?case by (simp add: list_update_append)
qed simp

section \<open>Memory objects\<close>

type_synonym byte = "8 word"
type_synonym mem = "byte list"

definition rd :: "'a list \<Rightarrow> nat \<Rightarrow> 'a c" where
  "rd m i = (if i < length m then Inr (m ! i) else Inl Read_oob)"

definition wr :: "'a list \<Rightarrow> nat \<Rightarrow> 'a \<Rightarrow> 'a list c" where
  "wr m i v = (if i < length m then Inr (m[i := v]) else Inl Write_oob)"

text \<open>An index of type int may be negative.\<close>

definition rdi :: "'a list \<Rightarrow> int \<Rightarrow> 'a c" where
  "rdi m i = (if i < 0 then Inl Read_oob else rd m (nat i))"

definition wri :: "'a list \<Rightarrow> int \<Rightarrow> 'a \<Rightarrow> 'a list c" where
  "wri m i v = (if i < 0 then Inl Write_oob else wr m (nat i) v)"

lemma rdi_int [simp]: "rdi m (int i) = rd m i"
  by (simp add: rdi_def)

lemma wri_int [simp]: "wri m (int i) v = wr m i v"
  by (simp add: wri_def)

text \<open>Writing several cells from an offset on, as memcpy does.\<close>

fun wrs :: "'a list \<Rightarrow> nat \<Rightarrow> 'a list \<Rightarrow> 'a list c" where
  "wrs m p [] = Inr m"
| "wrs m p (x # xs) = cbind (wr m p x) (\<lambda>m'. wrs m' (Suc p) xs)"

lemma rd_in [simp]: "i < length m \<Longrightarrow> rd m i = Inr (m ! i)"
  by (simp add: rd_def)

lemma rd_out [simp]: "length m \<le> i \<Longrightarrow> rd m i = Inl Read_oob"
  by (simp add: rd_def)

lemma wr_in [simp]: "i < length m \<Longrightarrow> wr m i v = Inr (m[i := v])"
  by (simp add: wr_def)

lemma wr_out [simp]: "length m \<le> i \<Longrightarrow> wr m i v = Inl Write_oob"
  by (simp add: wr_def)

lemma rd_append [simp]: "rd (xs @ x # ys) (length xs) = Inr x"
  by (simp add: rd_def)

lemma wrs_in [c_text]:
  "p + length xs \<le> length m \<Longrightarrow>
     wrs m p xs = Inr (take p m @ xs @ drop (p + length xs) m)"
proof (induction xs arbitrary: m p)
  case Nil
  then show ?case by simp
next
  case (Cons x xs)
  then have "wrs m p (x # xs) =
      Inr (take (Suc p) (m[p := x]) @ xs @ drop (Suc p + length xs) (m[p := x]))"
    by simp
  also have "take (Suc p) (m[p := x]) = take p m @ [x]"
    using Cons.prems by (simp add: take_Suc_conv_app_nth)
  finally show ?case by simp
qed

lemma wrs_append_left:
  "length xs \<le> length rest \<Longrightarrow> wrs (done @ rest) (length done) xs = Inr (done @ xs @ drop (length xs) rest)"
  by (simp add: wrs_in)

lemma length_wrs: "wrs m p xs = Inr m' \<Longrightarrow> length m' = length m"
  by (induction xs arbitrary: m p) (auto simp: cbind_Inr_iff wr_def split: if_splits)

lemma wrs_out: "xs \<noteq> [] \<Longrightarrow> length m < p + length xs \<Longrightarrow> wrs m p xs = Inl Write_oob"
proof (induction xs arbitrary: m p)
  case Nil
  then show ?case by simp
next
  case (Cons x xs)
  then show ?case by (cases "xs = []") (auto simp: wr_def)
qed

section \<open>C strings\<close>

text \<open>
  \<open>c_str m p s\<close>: the bytes of the object \<open>m\<close> from offset \<open>p\<close> on are the characters \<open>s\<close>
  followed by the terminating null byte.
\<close>

definition c_str :: "mem \<Rightarrow> nat \<Rightarrow> byte list \<Rightarrow> bool" where
  "c_str m p s \<longleftrightarrow> 0 \<notin> set s \<and> (\<exists>a z. m = a @ s @ 0 # z \<and> length a = p)"

definition strlen :: "mem \<Rightarrow> nat \<Rightarrow> nat c" where
  "strlen m p = (if 0 \<in> set (drop p m) then Inr (length (takeWhile (\<lambda>b. b \<noteq> 0) (drop p m)))
     else Inl Read_oob)"

text \<open>The characters of the C string at an offset.\<close>

definition str_at :: "mem \<Rightarrow> nat \<Rightarrow> byte list" where
  "str_at m p = takeWhile (\<lambda>b. b \<noteq> 0) (drop p m)"

fun sub_index :: "'a list \<Rightarrow> 'a list \<Rightarrow> nat option" where
  "sub_index [] needle = (if needle = [] then Some 0 else None)"
| "sub_index (x # xs) needle =
     (if take (length needle) (x # xs) = needle then Some 0
      else map_option Suc (sub_index xs needle))"

definition strstr :: "mem \<Rightarrow> nat \<Rightarrow> byte list \<Rightarrow> nat option c" where
  "strstr m p needle = cbind (strlen m p) (\<lambda>_. Inr (map_option (\<lambda>k. p + k) (sub_index (str_at m p) needle)))"

text \<open>The bytes strncpy stores: the source up to its null byte, then null bytes.\<close>

definition strncpy_bytes :: "byte list \<Rightarrow> nat \<Rightarrow> byte list" where
  "strncpy_bytes s n = (let t = takeWhile (\<lambda>b. b \<noteq> 0) (take n s) in t @ replicate (n - length t) 0)"

definition ascii :: "string \<Rightarrow> byte list" where
  "ascii s = map (\<lambda>ch. of_nat (of_char ch)) s"

lemma takeWhile_no_zero: "0 \<notin> set s \<Longrightarrow> takeWhile (\<lambda>b. b \<noteq> 0) (s @ 0 # z) = (s :: byte list)"
  by (induction s) auto

lemma c_str_strlen: "c_str m p s \<Longrightarrow> strlen m p = Inr (length s)"
  by (auto simp: c_str_def strlen_def takeWhile_no_zero)

lemma c_str_str_at: "c_str m p s \<Longrightarrow> str_at m p = s"
  by (auto simp: c_str_def str_at_def takeWhile_no_zero)

lemma c_str_nil: "c_str m p [] \<Longrightarrow> rd m p = Inr 0"
  by (auto simp: c_str_def)

lemma c_str_Cons: "c_str m p (b # s) \<Longrightarrow> rd m p = Inr b \<and> b \<noteq> 0 \<and> c_str m (Suc p) s"
proof -
  assume "c_str m p (b # s)"
  then obtain a z where m: "m = a @ (b # s) @ 0 # z" "length a = p" and nz: "b \<noteq> 0" "0 \<notin> set s"
    by (auto simp: c_str_def)
  then have "m = (a @ [b]) @ s @ 0 # z" "length (a @ [b]) = Suc p"
    by simp_all
  with nz have "c_str m (Suc p) s"
    unfolding c_str_def by blast
  with m nz show ?thesis by auto
qed

lemma c_str_append: "c_str m p (u @ s) \<Longrightarrow> c_str m (p + length u) s"
proof (induction u arbitrary: p)
  case Nil
  then show ?case by simp
next
  case (Cons a u)
  from Cons.prems have "c_str m (Suc p) (u @ s)" by (simp add: c_str_Cons)
  from Cons.IH[OF this] show ?case by simp
qed

lemma c_str_nth: "c_str m p s \<Longrightarrow> i < length s \<Longrightarrow> rd m (p + i) = Inr (s ! i)"
  by (auto simp: c_str_def rd_def nth_append)

lemma c_str_end: "c_str m p s \<Longrightarrow> rd m (p + length s) = Inr 0"
  using c_str_append[of m p s "[]"] by (simp add: c_str_nil)

lemma c_strI: "0 \<notin> set s \<Longrightarrow> c_str (s @ 0 # z) 0 s"
  by (auto simp: c_str_def)

lemma strlen_text [c_text]: "0 \<notin> set s \<Longrightarrow> strlen (s @ 0 # z) 0 = Inr (length s)"
  by (rule c_str_strlen[OF c_strI])

lemma str_at_text [c_text]: "0 \<notin> set s \<Longrightarrow> str_at (s @ 0 # z) 0 = s"
  by (rule c_str_str_at[OF c_strI])

lemma c_str_no_zero: "c_str m p s \<Longrightarrow> 0 \<notin> set s"
  by (simp add: c_str_def)

lemma c_str_strstr: "c_str m p s \<Longrightarrow> strstr m p needle = Inr (map_option (\<lambda>k. p + k) (sub_index s needle))"
  by (simp add: strstr_def c_str_strlen c_str_str_at)

lemma takeWhile_id: "0 \<notin> set s \<Longrightarrow> takeWhile (\<lambda>b. b \<noteq> 0) s = (s :: byte list)"
  by (auto simp: takeWhile_eq_all_conv)

lemma strncpy_bytes_no_zero: "0 \<notin> set s \<Longrightarrow> strncpy_bytes s (length s) = s"
  by (simp add: strncpy_bytes_def takeWhile_id)

section \<open>Decimal numbers\<close>

text \<open>What the conversions \<open>%d\<close> and \<open>%llu\<close> of printf write.\<close>

fun dec_digits :: "nat \<Rightarrow> byte list" where
  "dec_digits n = (if n < 10 then [48 + of_nat n] else dec_digits (n div 10) @ [48 + of_nat (n mod 10)])"

declare dec_digits.simps [simp del]

definition printf_d :: "int \<Rightarrow> byte list" where
  "printf_d i = (if i < 0 then 45 # dec_digits (nat (- i)) else dec_digits (nat i))"

definition is_digit :: "byte \<Rightarrow> bool" where
  "is_digit b \<longleftrightarrow> 48 \<le> b \<and> b \<le> 57"

definition dec_of :: "byte list \<Rightarrow> int" where
  "dec_of ds = foldl (\<lambda>a d. 10 * a + (uint d - 48)) 0 ds"

text \<open>\<open>atoi\<close>; of a string without digits it is 0.\<close>

definition atoi :: "byte list \<Rightarrow> int" where
  "atoi s = (let t = dropWhile (\<lambda>b. b = 32 \<or> 9 \<le> b \<and> b \<le> 13) s in
     case t of [] \<Rightarrow> 0
     | b # u \<Rightarrow> if b = 45 then - dec_of (takeWhile is_digit u)
         else if b = 43 then dec_of (takeWhile is_digit u) else dec_of (takeWhile is_digit t))"

lemma dec_of_Nil [simp]: "dec_of [] = 0"
  by (simp add: dec_of_def)

lemma dec_of_snoc [simp]: "dec_of (ds @ [d]) = 10 * dec_of ds + (uint d - 48)"
  by (simp add: dec_of_def)

lemma digit_byte: "n < 10 \<Longrightarrow> uint (48 + of_nat n :: byte) = 48 + int n"
  by (simp add: uint_word_ariths unsigned_of_nat take_bit_eq_mod)

lemma is_digit_byte: "n < 10 \<Longrightarrow> is_digit (48 + of_nat n)"
  by (simp add: is_digit_def word_le_def digit_byte)

lemma dec_of_dec_digits: "dec_of (dec_digits n) = int n"
proof (induction n rule: dec_digits.induct)
  case (1 n)
  show ?case
  proof (cases "n < 10")
    case True
    have "dec_of [48 + of_nat n] = uint (48 + of_nat n :: byte) - 48"
      using dec_of_snoc[of "[]"] by simp
    with True show ?thesis by (simp add: dec_digits.simps[of n] digit_byte)
  next
    case False
    have "10 * int (n div 10) + int (n mod 10) = int n"
      by (metis mult_div_mod_eq of_nat_add of_nat_mult of_nat_numeral)
    with 1 False show ?thesis by (simp add: dec_digits.simps[of n] digit_byte)
  qed
qed

lemma dec_digits_digits: "list_all is_digit (dec_digits n)"
  by (induction n rule: dec_digits.induct) (subst dec_digits.simps, auto simp: is_digit_byte)

lemma dec_digits_length: "n < 10 ^ k \<Longrightarrow> 0 < k \<Longrightarrow> length (dec_digits n) \<le> k"
proof (induction n arbitrary: k rule: dec_digits.induct)
  case (1 n)
  show ?case
  proof (cases "n < 10")
    case True
    with 1 show ?thesis by (subst dec_digits.simps) simp
  next
    case False
    then have "1 < k" using 1 by (cases k; cases "k - 1") auto
    then obtain j where j: "k = Suc j" "0 < j" by (cases k) auto
    have "n div 10 < 10 ^ j" using 1(2) j by (simp add: less_mult_imp_div_less mult.commute)
    with 1(1)[OF False _ j(2)] False j show ?thesis by (subst dec_digits.simps) simp
  qed
qed

lemma dec_digits_length_ge: "10 ^ k \<le> n \<Longrightarrow> k < length (dec_digits n)"
proof (induction n arbitrary: k rule: dec_digits.induct)
  case (1 n)
  show ?case
  proof (cases k)
    case 0
    then show ?thesis by (subst dec_digits.simps) simp
  next
    case (Suc j)
    have "1 \<le> (10 :: nat) ^ j" by simp
    moreover have "10 * 10 ^ j \<le> n" using 1(2) Suc by simp
    ultimately have "10 \<le> n" by linarith
    then have big: "\<not> n < 10" and "10 ^ j \<le> n div 10"
      using 1(2) Suc by (auto simp: less_eq_div_iff_mult_less_eq mult.commute)
    with 1(1)[of j] Suc show ?thesis by (subst dec_digits.simps) simp
  qed
qed

section \<open>The range of int\<close>

definition int_max :: int where
  "int_max = 2147483647"

definition int_min :: int where
  "int_min = - 2147483648"

text \<open>A signed result that does not fit is a fault.\<close>

definition chk :: "int \<Rightarrow> int c" where
  "chk x = (if int_min \<le> x \<and> x \<le> int_max then Inr x else Inl Signed_overflow)"

definition in_int :: "int \<Rightarrow> bool" where
  "in_int x \<longleftrightarrow> int_min \<le> x \<and> x \<le> int_max"

lemma chk_in [simp]: "in_int x \<Longrightarrow> chk x = Inr x"
  by (simp add: chk_def in_int_def)

lemma chk_out [simp]: "\<not> in_int x \<Longrightarrow> chk x = Inl Signed_overflow"
  by (auto simp: chk_def in_int_def)

text \<open>
  An int that is never negative (a length, an index, a count) is a natural number; a sum that
  leaves the range of int is the same fault.
\<close>

definition chkn :: "nat \<Rightarrow> nat c" where
  "chkn n = (if int n \<le> int_max then Inr n else Inl Signed_overflow)"

lemma chkn_in [simp]: "int n \<le> int_max \<Longrightarrow> chkn n = Inr n"
  by (simp add: chkn_def)

lemma chkn_out [simp]: "int_max < int n \<Longrightarrow> chkn n = Inl Signed_overflow"
  by (simp add: chkn_def)

lemma chkn_Inr_iff [simp]: "chkn n = Inr k \<longleftrightarrow> k = n \<and> int n \<le> int_max"
  by (auto simp: chkn_def)

text \<open>
  A number of 64 bits (a \<open>long\<close> or a \<open>size_t\<close>) stored in an int keeps its low 32 bits, read as a
  signed number, as gcc documents for the conversions that the language leaves to it.
\<close>

definition int_of_long :: "int \<Rightarrow> int" where
  "int_of_long x = sint (word_of_int x :: 32 word)"

definition int_of_size :: "nat \<Rightarrow> int" where
  "int_of_size k = int_of_long (int k)"

lemma int_of_long_in: "in_int x \<Longrightarrow> int_of_long x = x"
  by (simp add: int_of_long_def in_int_def int_max_def int_min_def signed_of_int signed_take_bit_int_eq_self)

lemma int_of_size_in: "int k \<le> int_max \<Longrightarrow> int_of_size k = int k"
  by (simp add: int_of_size_def int_of_long_in in_int_def int_min_def)

lemma nat_int_of_size [simp]: "int k \<le> int_max \<Longrightarrow> nat (int_of_size k) = k"
  by (simp add: int_of_size_in)

lemma int_of_size_range: "in_int (int_of_size k)"
  using sint_greater_eq[of "word_of_int (int k) :: 32 word"] sint_less[of "word_of_int (int k) :: 32 word"]
  by (simp add: int_of_size_def int_of_long_def in_int_def int_max_def int_min_def)

text \<open>Division of C rounds towards zero and traps on zero.\<close>

definition cdiv :: "int \<Rightarrow> int \<Rightarrow> int c" where
  "cdiv a b = (if b = 0 then Inl Div_zero else chk (sgn a * sgn b * (\<bar>a\<bar> div \<bar>b\<bar>)))"

end
