(* ===== verification/Utf8_Char.thy ===== *)
theory Utf8_Char
  imports C_Prelude
begin

text \<open>
  The character scanners of utf8ToUnicodeToNCR/utf8ToUnicodeToNCR.c: the length a head byte
  announces, the check of the continuation bytes, and the validity tests of whole C strings for
  UTF-8 and for GBK.  A string argument is an object and an offset into it; the out-parameter
  \<open>next\<close> is a result.  The two string tests are loops that need not end, so they are partial.
\<close>

section \<open>One character\<close>

definition utf8_head :: "byte \<Rightarrow> int" where
  "utf8_head ch =
     (if ch \<ge> 0x80 then
        (if ch \<ge> 0xFC \<and> ch \<le> 0xFD then 6
         else if ch \<ge> 0xF8 then 5
         else if ch \<ge> 0xF0 then 4
         else if ch \<ge> 0xE0 then 3
         else if ch \<ge> 0xC0 then 2
         else 0)
      else 1)"

definition analize_utf8_character_head :: "mem \<Rightarrow> nat \<Rightarrow> int c" where
  "analize_utf8_character_head m str = cbind (rd m str) (\<lambda>ch. Inr (utf8_head ch))"

definition is_cont :: "byte \<Rightarrow> bool" where
  "is_cont b \<longleftrightarrow> b AND 0xC0 = 0x80"

function utf8_body_loop :: "mem \<Rightarrow> nat \<Rightarrow> nat \<Rightarrow> nat \<Rightarrow> int c" where
  "utf8_body_loop m utf8Word i nBytes =
     (if i < nBytes then
        cbind (rd m (utf8Word + i)) (\<lambda>b.
          if \<not> is_cont b then Inr (int i) else utf8_body_loop m utf8Word (Suc i) nBytes)
      else Inr (int nBytes))"
  by pat_completeness auto
termination
  by (relation "measure (\<lambda>(m, p, i, n). n - i)") auto

declare utf8_body_loop.simps [simp del]

definition analize_utf8_character_body :: "mem \<Rightarrow> nat \<Rightarrow> int \<Rightarrow> int c" where
  "analize_utf8_character_body m utf8Word nBytes =
     (if nBytes \<le> 0 then Inr 0
      else if nBytes > 1 then utf8_body_loop m utf8Word 1 (nat nBytes)
      else Inr nBytes)"

definition is_utf8_character :: "mem \<Rightarrow> nat \<Rightarrow> (bool \<times> nat option) c" where
  "is_utf8_character m str =
     cbind (analize_utf8_character_head m str) (\<lambda>nBytes.
     cbind (analize_utf8_character_body m str nBytes) (\<lambda>k.
       if nBytes = k then Inr (True, Some (str + nat nBytes)) else Inr (False, None)))"

section \<open>UTF-8 strings\<close>

text \<open>The loop variables are \<open>isUtf8\<close>, \<open>chrStr\<close> and \<open>next\<close>.\<close>

partial_function (option) is_utf8_loop :: "mem \<Rightarrow> bool \<Rightarrow> nat \<Rightarrow> nat \<Rightarrow> bool c option" where
  "is_utf8_loop m isUtf8 chrStr next =
     (if \<not> isUtf8 then Some (Inr isUtf8)
      else case rd m chrStr of
        Inl e \<Rightarrow> Some (Inl e)
      | Inr ch \<Rightarrow>
          if ch = 0 then Some (Inr isUtf8)
          else (case is_utf8_character m chrStr of
              Inl e \<Rightarrow> Some (Inl e)
            | Inr (ok, written) \<Rightarrow>
                (let next' = (case written of None \<Rightarrow> next | Some q \<Rightarrow> q)
                 in is_utf8_loop m ok next' next')))"

text \<open>A null pointer is \<open>None\<close>.\<close>

definition is_utf8_str :: "mem option \<Rightarrow> bool c option" where
  "is_utf8_str str = (case str of None \<Rightarrow> Some (Inr False) | Some m \<Rightarrow> is_utf8_loop m True 0 0)"

section \<open>GBK strings\<close>

definition is_ascii :: "mem \<Rightarrow> nat \<Rightarrow> bool c" where
  "is_ascii m str = cbind (rd m str) (\<lambda>b. Inr (b < 0x80))"

text \<open>The bytes are compared as values of the signed type char.\<close>

definition analize_gbk_character_head :: "mem \<Rightarrow> nat \<Rightarrow> int c" where
  "analize_gbk_character_head m str =
     cbind (is_ascii m str) (\<lambda>a.
       if a then Inr 1
       else cbind (rd m str) (\<lambda>b.
         if sint b \<ge> sint (0x80 :: byte)
         then (if sint b \<ge> sint (0x81 :: byte) \<and> sint b \<le> sint (0xFE :: byte) then Inr 2 else Inr 0)
         else Inr 0))"

definition is_gbk_character :: "mem \<Rightarrow> nat \<Rightarrow> (bool \<times> nat option) c" where
  "is_gbk_character m str =
     cbind (analize_gbk_character_head m str) (\<lambda>nBytes.
       if nBytes = 1 then Inr (True, Some (str + nat nBytes))
       else if nBytes = 2 then
         cbind (rd m (Suc str)) (\<lambda>b.
           if b \<ge> 0x40 \<and> b \<le> 0xFE then Inr (True, Some (str + nat nBytes)) else Inr (False, None))
       else Inr (False, None))"

partial_function (option) is_gbk_loop :: "mem \<Rightarrow> bool \<Rightarrow> nat \<Rightarrow> nat \<Rightarrow> bool c option" where
  "is_gbk_loop m isGbk chrStr next =
     (if \<not> isGbk then Some (Inr isGbk)
      else case rd m chrStr of
        Inl e \<Rightarrow> Some (Inl e)
      | Inr ch \<Rightarrow>
          if ch = 0 then Some (Inr isGbk)
          else (case is_gbk_character m chrStr of
              Inl e \<Rightarrow> Some (Inl e)
            | Inr (ok, written) \<Rightarrow>
                (let next' = (case written of None \<Rightarrow> next | Some q \<Rightarrow> q)
                 in is_gbk_loop m ok next' next')))"

definition is_gbk_str :: "mem option \<Rightarrow> bool c option" where
  "is_gbk_str str = (case str of None \<Rightarrow> Some (Inr False) | Some m \<Rightarrow> is_gbk_loop m True 0 0)"

section \<open>What the scanners compute\<close>

text \<open>The number of bytes of a character that are continuation bytes where they should be.\<close>

definition conts :: "byte list \<Rightarrow> nat" where
  "conts t = length (takeWhile is_cont t)"

lemma conts_le: "conts t \<le> length t"
  by (simp add: conts_def length_takeWhile_le)

lemma not_cont_0 [simp]: "\<not> is_cont 0"
  by (simp add: is_cont_def)

lemma c_str_after_conts:
  assumes "c_str m p (b # t)" and "k = conts t"
  shows "\<exists>x. rd m (p + Suc k) = Inr x \<and> \<not> is_cont x"
proof (cases "k < length t")
  case True
  with c_str_nth[OF assms(1), of "Suc k"] have "rd m (p + Suc k) = Inr (t ! k)"
    by simp
  moreover have "\<not> is_cont (t ! k)"
    using True assms(2) by (simp add: conts_def nth_length_takeWhile)
  ultimately show ?thesis by blast
next
  case False
  then have "k = length t" using assms(2) conts_le[of t] by simp
  with c_str_end[OF assms(1)] show ?thesis by simp
qed

lemma c_str_in_conts:
  assumes "c_str m p (b # t)" and "j < conts t"
  shows "rd m (p + Suc j) = Inr (t ! j) \<and> is_cont (t ! j)"
proof -
  have "j < length t" using assms(2) conts_le[of t] by simp
  with c_str_nth[OF assms(1), of "Suc j"] have "rd m (p + Suc j) = Inr (t ! j)"
    by simp
  moreover have "t ! j \<in> set (takeWhile is_cont t)"
    using assms(2) unfolding conts_def by (metis nth_mem takeWhile_nth)
  then have "is_cont (t ! j)" by (auto dest: set_takeWhileD)
  ultimately show ?thesis by simp
qed

lemma utf8_body_loop_eq:
  assumes "c_str m p (b # t)"
  shows "Suc j \<le> n \<Longrightarrow> j \<le> conts t \<Longrightarrow>
    utf8_body_loop m p (Suc j) n = Inr (int (min n (Suc (conts t))))"
proof (induction "n - j" arbitrary: j)
  case 0
  then show ?case by simp
next
  case (Suc d)
  show ?case
  proof (cases "Suc j < n")
    case False
    with Suc.prems show ?thesis by (subst utf8_body_loop.simps) auto
  next
    case lt: True
    show ?thesis
    proof (cases "j < conts t")
      case True
      with c_str_in_conts[OF assms True] lt Suc
      show ?thesis by (simp add: utf8_body_loop.simps[of m p "Suc j"])
    next
      case False
      with Suc.prems have "j = conts t" by simp
      with c_str_after_conts[OF assms this] lt
      show ?thesis by (subst utf8_body_loop.simps) auto
    qed
  qed
qed

lemma body_eq:
  assumes "c_str m p (b # t)" and "1 \<le> n"
  shows "analize_utf8_character_body m p n = Inr (min n (int (Suc (conts t))))"
proof (cases "n > 1")
  case True
  then have "utf8_body_loop m p 1 (nat n) = Inr (int (min (nat n) (Suc (conts t))))"
    using utf8_body_loop_eq[OF assms(1), of 0 "nat n"] by simp
  with True show ?thesis
    by (simp add: analize_utf8_character_body_def min_def) linarith
next
  case False
  with assms(2) show ?thesis by (simp add: analize_utf8_character_body_def)
qed

lemma head_eq: "c_str m p (b # t) \<Longrightarrow> analize_utf8_character_head m p = Inr (utf8_head b)"
  by (simp add: analize_utf8_character_head_def c_str_Cons)

lemma utf8_head_range: "utf8_head b \<in> {0, 1, 2, 3, 4, 5, 6}"
  by (simp add: utf8_head_def)


section \<open>The language is_utf8_str decides, and where it does not return\<close>

datatype verdict = Accept | Reject | Hang

text \<open>
  The reference scanner works on the characters alone.  A byte 0x80 to 0xBF at the start of a
  character announces zero bytes, and the check of zero bytes succeeds without moving on.
\<close>

function utf8_scan :: "byte list \<Rightarrow> verdict" where
  "utf8_scan [] = Accept"
| "utf8_scan (b # t) =
     (if utf8_head b = 0 then Hang
      else if nat (utf8_head b) - 1 \<le> conts t then utf8_scan (drop (nat (utf8_head b) - 1) t)
      else Reject)"
  by pat_completeness auto
termination
  by (relation "measure length") auto

declare utf8_scan.simps(2) [simp del]

lemma head_zero_iff: "utf8_head b = 0 \<longleftrightarrow> 0x80 \<le> b \<and> b \<le> 0xBF"
  by (simp add: utf8_head_def word_le_nat_alt word_less_nat_alt)

lemma is_utf8_character_eq:
  assumes "c_str m p (b # t)"
  shows "is_utf8_character m p =
    (if nat (utf8_head b) - 1 \<le> conts t then Inr (True, Some (p + nat (utf8_head b)))
     else Inr (False, None))"
proof (cases "utf8_head b = 0")
  case True
  with head_eq[OF assms] show ?thesis
    by (simp add: is_utf8_character_def analize_utf8_character_body_def)
next
  case False
  then have "1 \<le> utf8_head b" using utf8_head_range[of b] by auto
  with head_eq[OF assms] body_eq[OF assms this] show ?thesis
    by (auto simp: is_utf8_character_def)
qed

lemma c_str_drop: "c_str m p (b # t) \<Longrightarrow> n \<le> length t \<Longrightarrow> c_str m (p + Suc n) (drop n t)"
  using c_str_append[of m p "b # take n t" "drop n t"] by simp

lemma is_utf8_loop_stop: "is_utf8_loop m False p q = Some (Inr False)"
  by (simp add: is_utf8_loop.simps)

lemma is_utf8_loop_hang:
  assumes "c_str m p (b # t)" and "utf8_head b = 0"
  shows "is_utf8_loop m True p q = None"
proof (rule ccontr)
  have char: "is_utf8_character m p = Inr (True, Some p)"
    using assms by (simp add: is_utf8_character_eq)
  assume "is_utf8_loop m True p q \<noteq> None"
  then obtain r where "is_utf8_loop m True p q = Some r" by auto
  then have "\<not> (m = m \<and> True \<and> p = p)"
  proof (rule is_utf8_loop.raw_induct [where P = "\<lambda>m' ok p' q r. \<not> (m' = m \<and> ok \<and> p' = p)", rotated])
    fix f m' ok p' q r
    assume IH: "\<And>m' ok p' q r. f m' ok p' q = Some r \<Longrightarrow> \<not> (m' = m \<and> ok \<and> p' = p)"
      and body: "(if \<not> ok then Some (Inr ok)
        else case rd m' p' of Inl e \<Rightarrow> Some (Inl e)
          | Inr ch \<Rightarrow> if ch = 0 then Some (Inr ok)
              else (case is_utf8_character m' p' of Inl e \<Rightarrow> Some (Inl e)
                | Inr (ok, written) \<Rightarrow> let next' = (case written of None \<Rightarrow> q | Some q \<Rightarrow> q)
                    in f m' ok next' next')) = Some r"
    show "\<not> (m' = m \<and> ok \<and> p' = p)"
    proof
      assume "m' = m \<and> ok \<and> p' = p"
      with body char assms(1) have "f m True p p = Some r"
        by (simp add: c_str_Cons)
      with IH show False by blast
    qed
  qed
  then show False by simp
qed

lemma is_utf8_loop_eq:
  "c_str m p s \<Longrightarrow> is_utf8_loop m True p q =
    (case utf8_scan s of Accept \<Rightarrow> Some (Inr True) | Reject \<Rightarrow> Some (Inr False) | Hang \<Rightarrow> None)"
proof (induction s arbitrary: p q rule: utf8_scan.induct)
  case 1
  then show ?case by (simp add: is_utf8_loop.simps c_str_nil)
next
  case (2 b t)
  show ?case
  proof (cases "utf8_head b = 0")
    case True
    with is_utf8_loop_hang[OF 2(2)] show ?thesis by (simp add: utf8_scan.simps)
  next
    case nz: False
    then have pos: "1 \<le> utf8_head b" using utf8_head_range[of b] by auto
    let ?k = "nat (utf8_head b) - 1"
    show ?thesis
    proof (cases "?k \<le> conts t")
      case True
      then have "c_str m (p + Suc ?k) (drop ?k t)"
        using c_str_drop[OF 2(2)] conts_le[of t] by simp
      moreover have "p + Suc ?k = p + nat (utf8_head b)" using pos by simp
      ultimately have str: "c_str m (p + nat (utf8_head b)) (drop ?k t)" by simp
      from True nz 2(1)[OF nz True str] show ?thesis
        by (subst is_utf8_loop.simps)
          (simp add: c_str_Cons[OF 2(2)] is_utf8_character_eq[OF 2(2)] utf8_scan.simps)
    next
      case False
      with nz show ?thesis
        by (subst is_utf8_loop.simps)
          (simp add: c_str_Cons[OF 2(2)] is_utf8_character_eq[OF 2(2)] utf8_scan.simps
            is_utf8_loop_stop)
    qed
  qed
qed

text \<open>
  C28.  On every null-terminated string is_utf8_str stays inside the object and decides the
  language of the reference scanner where it returns; it runs for ever exactly on the strings in
  which, after a well-formed part, a character starts with a continuation byte.
\<close>

theorem is_utf8_str_decides:
  assumes "c_str m 0 s"
  shows "is_utf8_str (Some m) =
    (case utf8_scan s of Accept \<Rightarrow> Some (Inr True) | Reject \<Rightarrow> Some (Inr False) | Hang \<Rightarrow> None)"
  using is_utf8_loop_eq[OF assms] by (simp add: is_utf8_str_def)

theorem is_utf8_str_decides_witness:
  "is_utf8_str (Some [0xE5, 0xBC, 0x80, 0x41, 0]) = Some (Inr True) \<and>
   is_utf8_str (Some [0xE5, 0xBC, 0x41, 0]) = Some (Inr False) \<and>
   is_utf8_str (Some [0x41, 0x80, 0]) = None"
  using is_utf8_str_decides[of "[0xE5, 0xBC, 0x80, 0x41, 0]" "[0xE5, 0xBC, 0x80, 0x41]"]
    is_utf8_str_decides[of "[0xE5, 0xBC, 0x41, 0]" "[0xE5, 0xBC, 0x41]"]
    is_utf8_str_decides[of "[0x41, 0x80, 0]" "[0x41, 0x80]"]
  by (simp add: c_str_def utf8_scan.simps utf8_head_def conts_def is_cont_def)

section \<open>The language is_gbk_str decides\<close>

fun gbk_scan :: "byte list \<Rightarrow> bool" where
  "gbk_scan [] = True"
| "gbk_scan (b # t) =
     (if b < 0x80 then gbk_scan t
      else if 0x81 \<le> b \<and> b \<le> 0xFE then
        (case t of [] \<Rightarrow> False | c # u \<Rightarrow> 0x40 \<le> c \<and> c \<le> 0xFE \<and> gbk_scan u)
      else False)"

lemma sint_byte: "sint (b :: byte) = (if uint b < 128 then uint b else uint b - 256)"
proof -
  have lt: "uint b < 256" using uint_lt2p[of b] by simp
  have mod: "(uint b + 128) mod 256 = uint b - 128" if "128 \<le> uint b"
    using that lt minus_mod_self2[of "uint b + 128" 256] by simp
  show ?thesis
    using lt mod by (cases "uint b < 128")
      (simp_all add: sint_uint signed_take_bit_eq_take_bit_shift take_bit_eq_mod)
qed

lemma gbk_head_eq:
  "c_str m p (b # t) \<Longrightarrow> analize_gbk_character_head m p =
     Inr (if b < 0x80 then 1 else if 0x81 \<le> b \<and> b \<le> 0xFE then 2 else 0)"
  by (auto simp: analize_gbk_character_head_def is_ascii_def c_str_Cons sint_byte
      word_less_def word_le_def)

lemma is_gbk_loop_stop: "is_gbk_loop m False p q = Some (Inr False)"
  by (simp add: is_gbk_loop.simps)

lemma is_gbk_loop_eq:
  "c_str m p s \<Longrightarrow> is_gbk_loop m True p q = Some (Inr (gbk_scan s))"
proof (induction s arbitrary: p q rule: gbk_scan.induct)
  case 1
  then show ?case by (simp add: is_gbk_loop.simps c_str_nil)
next
  case (2 b t)
  note str = 2(3) and head = gbk_head_eq[OF 2(3)]
  have tl: "c_str m (Suc p) t" using c_str_Cons[OF str] by simp
  consider (ascii) "b < 0x80" | (lead) "\<not> b < 0x80" "0x81 \<le> b \<and> b \<le> 0xFE"
    | (bad) "\<not> b < 0x80" "\<not> (0x81 \<le> b \<and> b \<le> 0xFE)" by blast
  then show ?case
  proof cases
    case ascii
    with 2(1)[OF ascii tl] head show ?thesis
      by (subst is_gbk_loop.simps) (simp add: c_str_Cons[OF str] is_gbk_character_def)
  next
    case bad
    with head show ?thesis
      by (subst is_gbk_loop.simps)
        (auto simp: c_str_Cons[OF str] is_gbk_character_def is_gbk_loop_stop)
  next
    case lead
    show ?thesis
    proof (cases t)
      case Nil
      with tl have "rd m (Suc p) = Inr 0" by (simp add: c_str_nil)
      with lead head Nil show ?thesis
        by (subst is_gbk_loop.simps)
          (auto simp: c_str_Cons[OF str] is_gbk_character_def is_gbk_loop_stop)
    next
      case (Cons c u)
      then have c: "rd m (Suc p) = Inr c" "c_str m (Suc (Suc p)) u"
        using c_str_Cons[of m "Suc p" c u] tl by auto
      with 2(2)[OF lead Cons c(2)] lead head Cons show ?thesis
        by (subst is_gbk_loop.simps)
          (auto simp: c_str_Cons[OF str] is_gbk_character_def is_gbk_loop_stop)
    qed
  qed
qed

text \<open>
  On every null-terminated string is_gbk_str returns, reads only inside the object (a lead
  byte just before the terminator included) and decides the two-byte GBK language.
\<close>

theorem is_gbk_str_decides:
  assumes "c_str m 0 s"
  shows "is_gbk_str (Some m) = Some (Inr (gbk_scan s))"
  using is_gbk_loop_eq[OF assms] by (simp add: is_gbk_str_def)

theorem is_gbk_str_decides_witness:
  "is_gbk_str (Some [0xBF, 0xAA, 0x41, 0]) = Some (Inr True) \<and>
   is_gbk_str (Some [0x41, 0xBF, 0]) = Some (Inr False)"
  using is_gbk_str_decides[of "[0xBF, 0xAA, 0x41, 0]" "[0xBF, 0xAA, 0x41]"]
    is_gbk_str_decides[of "[0x41, 0xBF, 0]" "[0x41, 0xBF]"]
  by (simp add: c_str_def)

lemma gbk_scan_ascii: "(\<And>b. b \<in> set s \<Longrightarrow> b < 0x80) \<Longrightarrow> gbk_scan s"
  by (induction s rule: gbk_scan.induct) auto

end
