(* ===== verification/Unicode_Codec.thy ===== *)
theory Unicode_Codec
  imports Utf8_Char
begin

unbundle bit_operations_syntax

text \<open>
  The conversion between one UTF-8 character and a 32-bit code value (\<open>_utf8_to_unicode\<close> and
  \<open>_unicode_to_utf8\<close> of utf8ToUnicodeToNCR.c) and between whole UTF-8 strings and strings of
  16-bit little-endian units (\<open>utf8_to_unicode\<close>, \<open>unicode_to_utf8\<close>).
\<close>

section \<open>One character\<close>

type_synonym uint32 = "32 word"

text \<open>The statements \<open>*unicode |= (*utf8Word++ & mask) << shift\<close>, one pair per statement.\<close>

fun gather :: "mem \<Rightarrow> nat \<Rightarrow> (byte \<times> nat) list \<Rightarrow> uint32 \<Rightarrow> uint32 c" where
  "gather m p [] acc = Inr acc"
| "gather m p ((msk, sh) # ps) acc =
     cbind (rd m p) (\<lambda>b. gather m (Suc p) ps (acc OR push_bit sh (ucast (b AND msk))))"

definition utf8_fields :: "int \<Rightarrow> (byte \<times> nat) list" where
  "utf8_fields nBytes =
     (if nBytes = 1 then [(0x7F, 0)]
      else if nBytes = 2 then [(0x1F, 6), (0x3F, 0)]
      else if nBytes = 3 then [(0x0F, 12), (0x3F, 6), (0x3F, 0)]
      else if nBytes = 4 then [(0x07, 18), (0x3F, 12), (0x3F, 6), (0x3F, 0)]
      else if nBytes = 5 then [(0x03, 24), (0x3F, 18), (0x3F, 12), (0x3F, 6), (0x3F, 0)]
      else if nBytes = 6 then [(0x01, 30), (0x3F, 24), (0x3F, 18), (0x3F, 12), (0x3F, 6), (0x3F, 0)]
      else [])"

text \<open>
  The condition of the source is an assignment: \<open>nBytes\<close> becomes what the check of the
  continuation bytes returns, which for a truncated character is the number of bytes before the
  offending one.  The second result is the value stored through the out-parameter, if any.
\<close>

definition utf8_word_to_unicode :: "mem \<Rightarrow> nat \<Rightarrow> (int \<times> uint32 option) c" where
  "utf8_word_to_unicode m utf8Word =
     cbind (analize_utf8_character_head m utf8Word) (\<lambda>n0.
     cbind (analize_utf8_character_body m utf8Word n0) (\<lambda>nBytes.
       if nBytes \<noteq> 0
       then cbind (gather m utf8Word (utf8_fields nBytes) 0) (\<lambda>u. Inr (nBytes, Some u))
       else Inr (nBytes, None)))"

text \<open>
  The bytes stored at \<open>utf8Buff[0]\<close>, \<open>utf8Buff[1]\<close>, \<dots>.  The comparisons with constants above
  32 bits are made in a wider type, so they are comparisons of integers here.
\<close>

definition unicode_bytes :: "uint32 \<Rightarrow> byte list" where
  "unicode_bytes u =
     (if uint u \<le> 0x7F then [ucast (u AND 0x7F)]
      else if uint u > 0x7F \<and> uint u \<le> 0x7FF then
        [ucast (drop_bit 6 u AND 0x1F OR 0xC0), ucast (u AND 0x3F OR 0x80)]
      else if uint u > 0x7FF \<and> uint u \<le> 0xFFFF then
        [ucast (drop_bit 12 u AND 0x0F OR 0xE0), ucast (drop_bit 6 u AND 0x3F OR 0x80),
         ucast (u AND 0x3F OR 0x80)]
      else if uint u > 0xFFFF \<and> uint u \<le> 0x7FFFFFF then
        [ucast (drop_bit 18 u AND 0x07 OR 0xF0), ucast (drop_bit 12 u AND 0x3F OR 0x80),
         ucast (drop_bit 6 u AND 0x3F OR 0x80), ucast (u AND 0x3F OR 0x80)]
      else if uint u > 0x7FFFFFF \<and> uint u \<le> 0x3FFFFFFFF then
        [ucast (drop_bit 24 u AND 0x03 OR 0xF8), ucast (drop_bit 18 u AND 0x3F OR 0x80),
         ucast (drop_bit 12 u AND 0x3F OR 0x80), ucast (drop_bit 6 u AND 0x3F OR 0x80),
         ucast (u AND 0x3F OR 0x80)]
      else if uint u > 0x3FFFFFFFF \<and> uint u \<le> 0x1FFFFFFFFFF then
        [ucast (drop_bit 30 u AND 0x01 OR 0xFC), ucast (drop_bit 24 u AND 0x3F OR 0x80),
         ucast (drop_bit 18 u AND 0x3F OR 0x80), ucast (drop_bit 12 u AND 0x3F OR 0x80),
         ucast (drop_bit 6 u AND 0x3F OR 0x80), ucast (u AND 0x3F OR 0x80)]
      else [])"

text \<open>\<open>len\<close> is a parameter of the source that no statement reads.\<close>

definition unicode_word_to_utf8 :: "uint32 \<Rightarrow> mem \<Rightarrow> nat \<Rightarrow> (int \<times> mem) c" where
  "unicode_word_to_utf8 unicodeVal utf8Buff len =
     cbind (wrs utf8Buff 0 (unicode_bytes unicodeVal)) (\<lambda>b.
       Inr (int (length (unicode_bytes unicodeVal)), b))"

section \<open>Strings of 16-bit units\<close>

definition le16 :: "uint32 \<Rightarrow> byte list" where
  "le16 u = [ucast u, ucast (drop_bit 8 u)]"

text \<open>
  \<open>currLen\<close> is an int and \<open>len\<close> an unsigned int, whose value the loop compares it with.  The
  addition \<open>currLen + nBytes\<close> overflows past \<open>int_max\<close>; \<open>currLen += sizeof(char) * 2\<close> is an
  addition of unsigned long numbers, and its conversion back, which the language leaves to the
  implementation past \<open>int_max\<close>, is a fault of the same kind here.
\<close>

function utf8_to_unicode_loop ::
    "mem \<Rightarrow> nat \<Rightarrow> mem \<Rightarrow> nat \<Rightarrow> nat \<Rightarrow> uint32 \<Rightarrow> (int \<times> mem) c" where
  "utf8_to_unicode_loop m cursor buf len currLen unicode =
     cbind (rd m cursor) (\<lambda>ch.
       if ch = 0 then Inr (int currLen, buf)
       else cbind (utf8_word_to_unicode m cursor) (\<lambda>(nBytes, written).
         let unicode' = (case written of None \<Rightarrow> unicode | Some u \<Rightarrow> u) in
         if nBytes > 0 then
           cbind (chkn (currLen + nat nBytes)) (\<lambda>n.
             if n \<le> len then
               (if n > len then Inr (-3, buf)
                else cbind (wrs buf currLen (le16 unicode')) (\<lambda>buf'.
                  cbind (chkn (currLen + 2)) (\<lambda>currLen'.
                    utf8_to_unicode_loop m (cursor + nat nBytes) buf' len currLen' unicode')))
             else Inr (-2, buf))
         else Inr (-2, buf)))"
  by pat_completeness auto
termination
  by (relation "measure (\<lambda>(m, cursor, _). length m - cursor)") (auto simp: rd_def split: if_splits)

declare utf8_to_unicode_loop.simps [simp del]

definition utf8_to_unicode :: "mem option \<Rightarrow> mem option \<Rightarrow> uint32 \<Rightarrow> (int \<times> mem option) c" where
  "utf8_to_unicode utf8Str unicodeBuff len =
     (case utf8Str of None \<Rightarrow> Inr (-1, unicodeBuff)
      | Some m \<Rightarrow> (case unicodeBuff of None \<Rightarrow> Inr (-1, None)
      | Some buf \<Rightarrow>
          cbind (wrs buf 0 (replicate (unat len) 0)) (\<lambda>buf.
          cbind (utf8_to_unicode_loop m 0 buf (unat len) 0 0) (\<lambda>(r, buf). Inr (r, Some buf)))))"

text \<open>
  \<open>unicodeLen\<close> is unsigned, so taking two from an odd length wraps at one.  The units are read in
  the byte order of the machine, which is little-endian here.
\<close>

function unicode_to_utf8_loop ::
    "mem \<Rightarrow> nat \<Rightarrow> uint32 \<Rightarrow> mem \<Rightarrow> nat \<Rightarrow> nat \<Rightarrow> (int \<times> mem) c" where
  "unicode_to_utf8_loop m cursor unicodeLen buf len currLen =
     (if unicodeLen > 0 then
        cbind (rd m cursor) (\<lambda>c0.
        cbind (rd m (Suc cursor)) (\<lambda>c1.
          let unicode = ucast c0 OR push_bit 8 (ucast c1) in
          cbind (unicode_word_to_utf8 unicode (replicate 8 0) 8) (\<lambda>(nBytes, utf8Str).
            if nBytes > 0 then
              cbind (chkn (currLen + nat nBytes)) (\<lambda>n.
                if n > len then Inr (-3, buf)
                else cbind (wrs buf currLen (strncpy_bytes utf8Str (nat nBytes))) (\<lambda>buf'.
                  unicode_to_utf8_loop m (cursor + 2) (unicodeLen - 2) buf' len n))
            else Inr (-2, buf))))
      else Inr (int currLen, buf))"
  by pat_completeness auto
termination
  by (relation "measure (\<lambda>(m, cursor, _). length m - cursor)") (auto simp: rd_def split: if_splits)

declare unicode_to_utf8_loop.simps [simp del]

definition unicode_to_utf8 ::
    "mem option \<Rightarrow> uint32 \<Rightarrow> mem option \<Rightarrow> uint32 \<Rightarrow> (int \<times> mem option) c" where
  "unicode_to_utf8 unicodeStr unicodeLen utf8Buff len =
     (case unicodeStr of None \<Rightarrow> Inr (-1, utf8Buff)
      | Some m \<Rightarrow> (case utf8Buff of None \<Rightarrow> Inr (-1, None)
      | Some buf \<Rightarrow>
          cbind (unicode_to_utf8_loop m 0 unicodeLen buf (unat len) 0) (\<lambda>(r, buf). Inr (r, Some buf))))"

section \<open>Bits of a character\<close>

lemma mask_lits:
  "(0x3F :: 'a::len word) = mask 6" "(0x1F :: 'a word) = mask 5" "(0x0F :: 'a word) = mask 4"
  "(0x07 :: 'a word) = mask 3" "(0x7F :: 'a word) = mask 7"
  by (simp_all add: mask_eq_exp_minus_1)

text \<open>What one byte carries survives the tag bits and the masks.\<close>

lemma tag_mask:
  fixes x :: uint32
  assumes "k \<le> 8"
  shows "(ucast ((ucast (x AND mask k OR push_bit k t) :: byte) AND mask k) :: uint32) = x AND mask k"
  using assms by (intro bit_word_eqI) (auto simp: bit_simps)

lemma join_bits:
  fixes v :: uint32
  shows "push_bit s (drop_bit s v AND mask k) OR v AND mask s = v AND mask (s + k)"
  by (rule bit_word_eqI) (auto simp: bit_simps)

text \<open>The tag of a lead byte is added, since the masked bits are below it.\<close>

lemma or_tag:
  fixes y t :: byte
  assumes "k AND t = 0"
  shows "(y AND k) OR t = (y AND k) + t"
proof -
  have "(y AND k) AND t = 0"
    using assms by (simp add: and.assoc)
  then show ?thesis
    using word_plus_and_or[of "y AND k" t] by simp
qed

lemma ucast_byte_ops:
  "(ucast (a AND b) :: byte) = ucast a AND ucast b" "(ucast (a OR b) :: byte) = ucast a OR ucast b"
  for a b :: uint32
  by (simp_all add: unsigned_and_eq unsigned_or_eq)

lemma and_le: "(y AND k :: byte) \<le> k"
  by (rule word_and_le1)

lemma head_lead:
  "utf8_head ((y AND 0x1F) + 0xC0) = 2" "utf8_head ((y AND 0x0F) + 0xE0) = 3"
  "utf8_head ((y AND 0x07) + 0xF0) = 4" "utf8_head ((y AND 0x03) + 0xF8) = 5"
  using and_le[of y "0x1F"] and_le[of y "0x0F"] and_le[of y "0x07"] and_le[of y "0x03"]
  by (simp_all add: utf8_head_def word_le_nat_alt word_less_nat_alt unat_word_ariths)

lemma head_ascii: "utf8_head (y AND 0x7F) = 1"
  using and_le[of y "0x7F"] by (simp add: utf8_head_def word_le_nat_alt word_less_nat_alt)

lemma cont_byte [simp]: "is_cont (ucast (x AND 0x3F OR 0x80 :: uint32))"
proof -
  have "((y AND 0x3F) OR 0x80) AND 0xC0 = (0x80 :: byte)" for y
    by (simp add: bit.conj_disj_distrib2 and.assoc)
  then show ?thesis by (simp add: is_cont_def ucast_byte_ops)
qed

lemma head_lead_ucast:
  fixes x :: uint32
  shows "utf8_head (ucast (x AND 0x1F OR 0xC0)) = 2" "utf8_head (ucast (x AND 0x0F OR 0xE0)) = 3"
    "utf8_head (ucast (x AND 0x07 OR 0xF0)) = 4" "utf8_head (ucast (x AND 0x03 OR 0xF8)) = 5"
    "utf8_head (ucast (x AND 0x7F)) = 1"
  by (simp_all add: ucast_byte_ops or_tag head_lead head_ascii)

lemma tag_mask_lits:
  fixes x :: uint32
  shows "(ucast ((ucast (x AND 0x3F OR 0x80) :: byte) AND 0x3F) :: uint32) = x AND mask 6"
    "(ucast ((ucast (x AND 0x1F OR 0xC0) :: byte) AND 0x1F) :: uint32) = x AND mask 5"
    "(ucast ((ucast (x AND 0x0F OR 0xE0) :: byte) AND 0x0F) :: uint32) = x AND mask 4"
    "(ucast ((ucast (x AND 0x07 OR 0xF0) :: byte) AND 0x07) :: uint32) = x AND mask 3"
    "(ucast ((ucast (x AND 0x03 OR 0xF8) :: byte) AND 0x03) :: uint32) = x AND mask 2"
    "(ucast ((ucast (x AND 0x7F) :: byte) AND 0x7F) :: uint32) = x AND mask 7"
  using tag_mask[of 6 x 2] tag_mask[of 5 x 6] tag_mask[of 4 x 14] tag_mask[of 3 x 30]
    tag_mask[of 2 x 62] tag_mask[of 7 x 0]
  by (simp_all add: mask_eq_exp_minus_1)

section \<open>Encoding and decoding one character\<close>

fun gather_val :: "byte list \<Rightarrow> (byte \<times> nat) list \<Rightarrow> uint32 \<Rightarrow> uint32" where
  "gather_val (b # bs) ((msk, sh) # ps) acc = gather_val bs ps (acc OR push_bit sh (ucast (b AND msk)))"
| "gather_val bs ps acc = acc"

lemma gather_eq:
  "length ps \<le> length bs \<Longrightarrow> gather (pre @ bs @ rest) (length pre) ps acc = Inr (gather_val bs ps acc)"
proof (induction bs ps acc arbitrary: pre rule: gather_val.induct)
  case (1 b bs msk sh ps acc)
  then show ?case using 1(1)[of "pre @ [b]"] by simp
qed auto

lemma utf8_body_loop_full:
  "(\<And>j. i \<le> j \<Longrightarrow> j < n \<Longrightarrow> \<exists>b. rd m (p + j) = Inr b \<and> is_cont b) \<Longrightarrow> i \<le> n \<Longrightarrow>
     utf8_body_loop m p i n = Inr (int n)"
proof (induction "n - i" arbitrary: i)
  case 0
  then show ?case by (subst utf8_body_loop.simps) simp
next
  case (Suc d)
  then have "i < n" by simp
  with Suc.prems(1)[of i] obtain b where b: "rd m (p + i) = Inr b" "is_cont b" by auto
  have "utf8_body_loop m p (Suc i) n = Inr (int n)"
    using Suc.hyps Suc.prems \<open>i < n\<close> by (intro Suc.hyps(1)) auto
  with b \<open>i < n\<close> show ?case by (subst utf8_body_loop.simps) simp
qed

lemma body_full:
  assumes "list_all is_cont t"
  shows "analize_utf8_character_body (pre @ (b # t) @ rest) (length pre) (int (Suc (length t)))
    = Inr (int (Suc (length t)))"
proof (cases t)
  case Nil
  then show ?thesis by (simp add: analize_utf8_character_body_def)
next
  case (Cons c u)
  have "\<exists>x. rd (pre @ (b # t) @ rest) (length pre + j) = Inr x \<and> is_cont x"
    if "1 \<le> j" "j < Suc (length t)" for j
    using that assms by (cases j) (auto simp: rd_def nth_append list_all_length)
  then have "utf8_body_loop (pre @ (b # t) @ rest) (length pre) 1 (Suc (length t)) = Inr (int (Suc (length t)))"
    by (intro utf8_body_loop_full) auto
  with Cons show ?thesis
    by (simp add: analize_utf8_character_body_def nat_add_distrib)
qed

lemma word_to_unicode_at:
  assumes "utf8_head b = int (Suc (length t))" and "list_all is_cont t"
    and "length (utf8_fields (utf8_head b)) = Suc (length t)"
  shows "utf8_word_to_unicode (pre @ (b # t) @ rest) (length pre) =
    Inr (utf8_head b, Some (gather_val (b # t) (utf8_fields (utf8_head b)) 0))"
proof -
  have "analize_utf8_character_head (pre @ (b # t) @ rest) (length pre) = Inr (utf8_head b)"
    by (simp add: analize_utf8_character_head_def)
  moreover have "gather (pre @ (b # t) @ rest) (length pre) (utf8_fields (utf8_head b)) 0
      = Inr (gather_val (b # t) (utf8_fields (utf8_head b)) 0)"
    using assms(3) by (intro gather_eq) simp
  ultimately show ?thesis
    using body_full[OF assms(2), of pre b rest] assms(1) by (simp add: utf8_word_to_unicode_def)
qed

text \<open>How many bits of a value the encoding keeps.\<close>

definition payload :: "uint32 \<Rightarrow> nat" where
  "payload u = (if uint u \<le> 0x7F then 7 else if uint u \<le> 0x7FF then 11
     else if uint u \<le> 0xFFFF then 16 else if uint u \<le> 0x7FFFFFF then 21 else 26)"

lemma uint32_small: "uint (u :: uint32) \<le> 0x3FFFFFFFF"
  using uint_lt2p[of u] by simp

lemma unicode_bytes_classes:
  "uint u \<le> 0x7F \<Longrightarrow> unicode_bytes u = [ucast (u AND 0x7F)]"
  "0x7F < uint u \<Longrightarrow> uint u \<le> 0x7FF \<Longrightarrow> unicode_bytes u =
     [ucast (drop_bit 6 u AND 0x1F OR 0xC0), ucast (u AND 0x3F OR 0x80)]"
  "0x7FF < uint u \<Longrightarrow> uint u \<le> 0xFFFF \<Longrightarrow> unicode_bytes u =
     [ucast (drop_bit 12 u AND 0x0F OR 0xE0), ucast (drop_bit 6 u AND 0x3F OR 0x80),
      ucast (u AND 0x3F OR 0x80)]"
  "0xFFFF < uint u \<Longrightarrow> uint u \<le> 0x7FFFFFF \<Longrightarrow> unicode_bytes u =
     [ucast (drop_bit 18 u AND 0x07 OR 0xF0), ucast (drop_bit 12 u AND 0x3F OR 0x80),
      ucast (drop_bit 6 u AND 0x3F OR 0x80), ucast (u AND 0x3F OR 0x80)]"
  "0x7FFFFFF < uint u \<Longrightarrow> unicode_bytes u =
     [ucast (drop_bit 24 u AND 0x03 OR 0xF8), ucast (drop_bit 18 u AND 0x3F OR 0x80),
      ucast (drop_bit 12 u AND 0x3F OR 0x80), ucast (drop_bit 6 u AND 0x3F OR 0x80),
      ucast (u AND 0x3F OR 0x80)]"
  using uint32_small[of u] by (simp_all add: unicode_bytes_def)

lemma uint_class_cases:
  obtains "uint u \<le> 0x7F" | "0x7F < uint u" "uint u \<le> 0x7FF" | "0x7FF < uint u" "uint u \<le> 0xFFFF"
    | "0xFFFF < uint u" "uint u \<le> 0x7FFFFFF" | "0x7FFFFFF < uint (u :: uint32)"
  by linarith

lemma decode_bytes:
  "utf8_word_to_unicode (pre @ unicode_bytes u @ rest) (length pre) =
     Inr (int (length (unicode_bytes u)), Some (u AND mask (payload u)))"
proof (cases rule: uint_class_cases[of u])
  case 1
  then show ?thesis
    using word_to_unicode_at[of "ucast (u AND 0x7F)" "[]" pre rest]
    by (simp add: unicode_bytes_classes head_lead_ucast utf8_fields_def tag_mask_lits payload_def)
next
  case 2
  then show ?thesis
    using word_to_unicode_at[of "ucast (drop_bit 6 u AND 0x1F OR 0xC0)" "[ucast (u AND 0x3F OR 0x80)]" pre rest]
    by (simp add: unicode_bytes_classes head_lead_ucast utf8_fields_def tag_mask_lits payload_def
        join_bits del: push_bit_and)
next
  case 3
  then show ?thesis
    using word_to_unicode_at[of "ucast (drop_bit 12 u AND 0x0F OR 0xE0)"
        "[ucast (drop_bit 6 u AND 0x3F OR 0x80), ucast (u AND 0x3F OR 0x80)]" pre rest]
    by (simp add: unicode_bytes_classes head_lead_ucast utf8_fields_def tag_mask_lits payload_def
        or.assoc join_bits del: push_bit_and)
next
  case 4
  then show ?thesis
    using word_to_unicode_at[of "ucast (drop_bit 18 u AND 0x07 OR 0xF0)"
        "[ucast (drop_bit 12 u AND 0x3F OR 0x80), ucast (drop_bit 6 u AND 0x3F OR 0x80),
          ucast (u AND 0x3F OR 0x80)]" pre rest]
    by (simp add: unicode_bytes_classes head_lead_ucast utf8_fields_def tag_mask_lits payload_def
        or.assoc join_bits del: push_bit_and)
next
  case 5
  then show ?thesis
    using word_to_unicode_at[of "ucast (drop_bit 24 u AND 0x03 OR 0xF8)"
        "[ucast (drop_bit 18 u AND 0x3F OR 0x80), ucast (drop_bit 12 u AND 0x3F OR 0x80),
          ucast (drop_bit 6 u AND 0x3F OR 0x80), ucast (u AND 0x3F OR 0x80)]" pre rest]
    by (simp add: unicode_bytes_classes head_lead_ucast utf8_fields_def tag_mask_lits payload_def
        or.assoc join_bits del: push_bit_and)
qed

lemma and_mask_id: "u AND mask k = u \<longleftrightarrow> uint (u :: uint32) < 2 ^ k"
proof -
  have "uint (u AND mask k) = uint u mod 2 ^ k"
    by (metis take_bit_eq_mask take_bit_eq_mod unsigned_take_bit_eq)
  then have "u AND mask k = u \<longleftrightarrow> uint u mod 2 ^ k = uint u"
    by (metis word_uint_eq_iff)
  also have "\<dots> \<longleftrightarrow> uint u < 2 ^ k"
    using uint_ge_0[of u] by (metis mod_pos_pos_trivial pos_mod_bound zero_less_numeral zero_less_power)
  finally show ?thesis .
qed

lemma decode_small:
  assumes "uint u < 0x200000"
  shows "utf8_word_to_unicode (pre @ unicode_bytes u @ rest) (length pre) =
    Inr (int (length (unicode_bytes u)), Some u)"
proof -
  have "u AND mask (payload u) = u"
    using assms by (simp add: and_mask_id payload_def)
  then show ?thesis by (simp add: decode_bytes)
qed

text \<open>
  C32.  Decoding the bytes that _unicode_to_utf8 produces, wherever they stand in an object, gives
  the value back exactly for the values below 0x200000.
\<close>

theorem utf8_word_roundtrip:
  "utf8_word_to_unicode (pre @ unicode_bytes u @ rest) (length pre) =
     Inr (int (length (unicode_bytes u)), Some u) \<longleftrightarrow> uint u < 0x200000"
proof -
  have "u AND mask (payload u) = u \<longleftrightarrow> uint u < 0x200000"
    by (simp add: and_mask_id payload_def)
  then show ?thesis by (simp add: decode_bytes)
qed

section \<open>Encoded strings\<close>

definition encode_str :: "uint32 list \<Rightarrow> byte list" where
  "encode_str us = concat (map unicode_bytes us)"

lemma encode_str_simps [simp]:
  "encode_str [] = []" "encode_str (u # us) = unicode_bytes u @ encode_str us"
  by (simp_all add: encode_str_def)

lemma unicode_bytes_shape:
  "\<exists>b t. unicode_bytes u = b # t \<and> utf8_head b = int (Suc (length t)) \<and> list_all is_cont t"
  by (cases rule: uint_class_cases[of u]) (simp_all add: unicode_bytes_classes head_lead_ucast)

lemma unicode_bytes_length: "1 \<le> length (unicode_bytes u) \<and> length (unicode_bytes u) \<le> 5"
  by (cases rule: uint_class_cases[of u]) (simp_all add: unicode_bytes_classes)

lemma unicode_bytes_length_small: "uint u < 0x200000 \<Longrightarrow> length (unicode_bytes u) \<le> 4"
  by (cases rule: uint_class_cases[of u]) (simp_all add: unicode_bytes_classes)

lemma or_nonzero: "(y OR t :: byte) = 0 \<longleftrightarrow> y = 0 \<and> t = 0"
  by (simp add: or_eq_0_iff)

lemma ascii_nonzero: "uint u \<le> 0x7F \<Longrightarrow> (ucast (u AND 0x7F) :: byte) = 0 \<longleftrightarrow> u = (0 :: uint32)"
proof -
  assume "uint u \<le> 0x7F"
  then have "u AND mask 7 = u" by (simp add: and_mask_id)
  then have u: "u AND 0x7F = u" by (simp add: mask_eq_exp_minus_1)
  have "uint (ucast u :: byte) = uint u"
    using \<open>uint u \<le> 0x7F\<close> uint_ge_0[of u] by (simp add: unsigned_ucast_eq take_bit_eq_mod)
  then have "(ucast u :: byte) = 0 \<longleftrightarrow> u = 0"
    by (metis uint_0_iff)
  with u show ?thesis by simp
qed

lemma unicode_bytes_zero: "0 \<in> set (unicode_bytes u) \<longleftrightarrow> u = 0"
proof (cases rule: uint_class_cases[of u])
  case 1
  then show ?thesis by (auto simp: unicode_bytes_classes ascii_nonzero)
qed (auto simp: unicode_bytes_classes ucast_byte_ops or_nonzero)

lemma encode_str_zero: "0 \<in> set (encode_str us) \<longleftrightarrow> 0 \<in> set us"
  by (induction us) (auto simp: unicode_bytes_zero)

lemma conts_append: "list_all is_cont t \<Longrightarrow> length t \<le> conts (t @ w)"
  by (simp add: conts_def list_all_iff)

lemma utf8_scan_encode: "utf8_scan (encode_str us) = Accept"
proof (induction us)
  case (Cons u us)
  obtain b t where "unicode_bytes u = b # t" "utf8_head b = int (Suc (length t))" "list_all is_cont t"
    using unicode_bytes_shape[of u] by blast
  with Cons conts_append[of t "encode_str us"] show ?case
    by (simp add: utf8_scan.simps(2))
qed simp

text \<open>
  C39.  Every string that _unicode_to_utf8 writes for non-zero values is accepted by is_utf8_str.
\<close>

theorem is_utf8_str_accepts_encoded:
  assumes "0 \<notin> set us"
  shows "is_utf8_str (Some (encode_str us @ 0 # z)) = Some (Inr True)"
proof -
  have "c_str (encode_str us @ 0 # z) 0 (encode_str us)"
    using assms by (intro c_strI) (simp add: encode_str_zero)
  then have "is_utf8_loop (encode_str us @ 0 # z) True 0 0 = Some (Inr True)"
    by (simp add: is_utf8_loop_eq utf8_scan_encode)
  then show ?thesis by (simp add: is_utf8_str_def)
qed

theorem is_utf8_str_accepts_encoded_witness:
  "is_utf8_str (Some [0xE5, 0xBC, 0x80, 0x41, 0, 7]) = Some (Inr True)"
  using is_utf8_str_accepts_encoded[of "[24320, 65]" "[7]"] by (simp add: unicode_bytes_def)

lemma encode_first:
  assumes "u \<noteq> 0"
  shows "\<exists>b. rd (pre @ unicode_bytes u @ rest) (length pre) = Inr b \<and> b \<noteq> 0"
proof -
  obtain b t where bt: "unicode_bytes u = b # t" using unicode_bytes_shape[of u] by blast
  moreover have "b \<noteq> 0" using unicode_bytes_zero[of u] bt assms by auto
  ultimately show ?thesis by auto
qed

lemma utf8_to_unicode_loop_step:
  assumes "u \<noteq> 0" and "uint u < 0x200000" and "cur + length (unicode_bytes u) \<le> len"
    and "int (cur + length (unicode_bytes u)) \<le> int_max" and "int (cur + 2) \<le> int_max"
  shows "utf8_to_unicode_loop (pre @ unicode_bytes u @ rest) (length pre) buf len cur uc =
    cbind (wrs buf cur (le16 u)) (\<lambda>buf'. utf8_to_unicode_loop (pre @ unicode_bytes u @ rest)
      (length (pre @ unicode_bytes u)) buf' len (cur + 2) u)"
proof -
  obtain b where b: "rd (pre @ unicode_bytes u @ rest) (length pre) = Inr b" "b \<noteq> 0"
    using encode_first[OF assms(1)] by blast
  have "utf8_word_to_unicode (pre @ unicode_bytes u @ rest) (length pre) =
      Inr (int (length (unicode_bytes u)), Some u)"
    using assms(2) by (rule decode_small)
  with b assms(3-5) unicode_bytes_length[of u] show ?thesis
    by (subst utf8_to_unicode_loop.simps) auto
qed

lemma utf8_to_unicode_loop_encoded:
  "0 \<notin> set us \<Longrightarrow> (\<And>u. u \<in> set us \<Longrightarrow> uint u < 0x200000) \<Longrightarrow>
   us = [] \<or> length done + 2 * length us + 2 \<le> len \<and> int (length done + 2 * length us + 2) \<le> int_max \<Longrightarrow>
   len \<le> length (done @ rest) \<Longrightarrow>
   utf8_to_unicode_loop (pre @ encode_str us @ 0 # z) (length pre) (done @ rest) len (length done) uc =
     Inr (int (length done + 2 * length us), done @ concat (map le16 us) @ drop (2 * length us) rest)"
proof (induction us arbitrary: pre "done" rest uc)
  case Nil
  then show ?case by (subst utf8_to_unicode_loop.simps) simp
next
  case (Cons u us)
  have len: "length done + length (unicode_bytes u) \<le> len"
    and int1: "int (length done + length (unicode_bytes u)) \<le> int_max"
    and int2: "int (length done + 2) \<le> int_max"
    using unicode_bytes_length_small[of u] Cons.prems by simp_all
  have le: "length (le16 u) = 2" by (simp add: le16_def)
  have "utf8_to_unicode_loop (pre @ encode_str (u # us) @ 0 # z) (length pre) (done @ rest) len (length done) uc
    = utf8_to_unicode_loop ((pre @ unicode_bytes u) @ encode_str us @ 0 # z) (length (pre @ unicode_bytes u))
       ((done @ le16 u) @ drop 2 rest) len (length (done @ le16 u)) u"
    using utf8_to_unicode_loop_step[OF _ _ len int1 int2, of pre "encode_str us @ 0 # z" "done @ rest" uc] Cons.prems
    by (simp add: wrs_append_left le)
  also have "\<dots> = Inr (int (length (done @ le16 u) + 2 * length us),
      (done @ le16 u) @ concat (map le16 us) @ drop (2 * length us) (drop 2 rest))"
    using Cons.prems le by (intro Cons.IH) auto
  finally show ?case by (simp add: le add.commute)
qed

lemma units_join: "uint u < 0x10000 \<Longrightarrow> (ucast (ucast u :: byte) OR push_bit 8 (ucast (ucast (drop_bit 8 u) :: byte))) = (u :: uint32)"
proof -
  assume "uint u < 0x10000"
  then have u: "u AND mask 16 = u" by (simp add: and_mask_id)
  have "(ucast (ucast u :: byte) OR push_bit 8 (ucast (ucast (drop_bit 8 u) :: byte))) = u AND mask 16"
    by (intro bit_word_eqI) (auto simp: bit_simps)
  with u show ?thesis by simp
qed

lemma strncpy_unicode: "strncpy_bytes (unicode_bytes u @ r) (length (unicode_bytes u)) = unicode_bytes u"
proof (cases "u = 0")
  case True
  then show ?thesis by (simp add: unicode_bytes_def strncpy_bytes_def)
next
  case False
  then have "0 \<notin> set (unicode_bytes u)" by (simp add: unicode_bytes_zero)
  then show ?thesis by (simp add: strncpy_bytes_def takeWhile_id)
qed

lemma unicode_word_to_utf8_8:
  "unicode_word_to_utf8 u (replicate 8 0) 8 = Inr (int (length (unicode_bytes u)),
     unicode_bytes u @ replicate (8 - length (unicode_bytes u)) 0)"
  using unicode_bytes_length[of u] by (simp add: unicode_word_to_utf8_def wrs_in)

lemma unicode_to_utf8_loop_step:
  assumes "uint u < 0x10000" and "n > 0" and "cur + length (unicode_bytes u) \<le> len"
    and "int (cur + length (unicode_bytes u)) \<le> int_max"
  shows "unicode_to_utf8_loop (pre @ le16 u @ rest) (length pre) n buf len cur =
    cbind (wrs buf cur (unicode_bytes u)) (\<lambda>buf'. unicode_to_utf8_loop (pre @ le16 u @ rest)
      (length (pre @ le16 u)) (n - 2) buf' len (cur + length (unicode_bytes u)))"
proof -
  have "rd (pre @ le16 u @ rest) (length pre) = Inr (ucast u)"
    "rd (pre @ le16 u @ rest) (Suc (length pre)) = Inr (ucast (drop_bit 8 u))"
    by (simp_all add: le16_def rd_def nth_append)
  with assms unicode_bytes_length[of u] show ?thesis
    by (subst unicode_to_utf8_loop.simps)
      (auto simp: units_join unicode_word_to_utf8_8 strncpy_unicode le16_def)
qed

lemma unicode_to_utf8_loop_units:
  "(\<And>u. u \<in> set us \<Longrightarrow> uint u < 0x10000) \<Longrightarrow> 2 * length us < 2 ^ 32 \<Longrightarrow>
   length done + length (encode_str us) \<le> len \<Longrightarrow> int (length done + length (encode_str us)) \<le> int_max \<Longrightarrow>
   len \<le> length (done @ rest) \<Longrightarrow>
   unicode_to_utf8_loop (pre @ concat (map le16 us) @ z) (length pre) (of_nat (2 * length us))
      (done @ rest) len (length done) =
     Inr (int (length done + length (encode_str us)),
       done @ encode_str us @ drop (length (encode_str us)) rest)"
proof (induction us arbitrary: pre "done" rest)
  case Nil
  then show ?case by (subst unicode_to_utf8_loop.simps) simp
next
  case (Cons u us)
  have small: "2 * length (u # us) < 2 ^ LENGTH(32)" using Cons.prems by simp
  have "unat (of_nat (2 * length (u # us)) :: uint32) = 2 * length (u # us)"
    using small by (simp add: unsigned_of_nat take_bit_nat_eq_self del: of_nat_mult of_nat_Suc)
  then have pos: "(of_nat (2 * length (u # us)) :: uint32) > 0"
    by (simp add: word_less_nat_alt)
  have minus: "(of_nat (2 * length (u # us)) :: uint32) - 2 = of_nat (2 * length us)"
    by simp
  have le: "length (le16 u) = 2" by (simp add: le16_def)
  have "unicode_to_utf8_loop (pre @ concat (map le16 (u # us)) @ z) (length pre)
      (of_nat (2 * length (u # us))) (done @ rest) len (length done)
    = unicode_to_utf8_loop ((pre @ le16 u) @ concat (map le16 us) @ z) (length (pre @ le16 u))
       (of_nat (2 * length us)) ((done @ unicode_bytes u) @ drop (length (unicode_bytes u)) rest) len
       (length (done @ unicode_bytes u))"
    using unicode_to_utf8_loop_step[OF _ pos, of u "length done" len pre "concat (map le16 us) @ z" "done @ rest"]
      Cons.prems unfolding minus by (simp add: wrs_append_left le del: of_nat_mult of_nat_Suc)
  also have "\<dots> = Inr (int (length (done @ unicode_bytes u) + length (encode_str us)),
      (done @ unicode_bytes u) @ encode_str us @
        drop (length (encode_str us)) (drop (length (unicode_bytes u)) rest))"
    using Cons.prems by (intro Cons.IH) auto
  finally show ?case by (simp add: add.commute add.left_commute)
qed

lemma utf8_to_unicode_encoded:
  assumes "0 \<notin> set us" and "\<And>u. u \<in> set us \<Longrightarrow> uint u < 0x200000"
    and "2 * length us + 2 \<le> unat len" and "unat len \<le> length buf" and "int (2 * length us + 2) \<le> int_max"
  shows "utf8_to_unicode (Some (encode_str us @ 0 # z)) (Some buf) len = Inr (int (2 * length us),
    Some (concat (map le16 us) @ replicate (unat len - 2 * length us) 0 @ drop (unat len) buf))"
  using utf8_to_unicode_loop_encoded[of us "[]" "unat len" "replicate (unat len) 0 @ drop (unat len) buf" "[]" z 0] assms
  by (simp add: utf8_to_unicode_def wrs_in)

text \<open>
  C34.  A UTF-8 string of characters of the basic plane survives the way through the 16-bit units:
  utf8_to_unicode returns twice the number of characters, and unicode_to_utf8 on its output writes
  the original bytes and returns their number, when both buffers have room and the lengths fit
  an int.
\<close>

theorem utf8_unicode_string_roundtrip:
  assumes "0 \<notin> set us" and "\<forall>u\<in>set us. uint u < 0x10000"
    and "2 * length us + 2 \<le> unat ulen" and "unat ulen \<le> length ubuf"
    and "int (2 * length us + 2) \<le> int_max" and "int (length (encode_str us)) \<le> int_max"
    and "length (encode_str us) \<le> unat len" and "unat len \<le> length buf"
  shows "\<exists>units. utf8_to_unicode (Some (encode_str us @ 0 # z)) (Some ubuf) ulen =
      Inr (int (2 * length us), Some units) \<and>
    unicode_to_utf8 (Some units) (of_nat (2 * length us)) (Some buf) len =
      Inr (int (length (encode_str us)), Some (encode_str us @ drop (length (encode_str us)) buf))"
proof -
  have "\<And>u. u \<in> set us \<Longrightarrow> uint u < 0x200000" using assms(2) by fastforce
  note enc = utf8_to_unicode_encoded[OF assms(1) this assms(3,4,5)]
  have "unicode_to_utf8 (Some (concat (map le16 us) @ w)) (of_nat (2 * length us)) (Some buf) len =
      Inr (int (length (encode_str us)), Some (encode_str us @ drop (length (encode_str us)) buf))" for w
    using unicode_to_utf8_loop_units[of us "[]" "unat len" buf "[]" w] assms
    by (simp add: unicode_to_utf8_def int_max_def)
  with enc show ?thesis by blast
qed

theorem utf8_unicode_string_roundtrip_witness:
  "\<exists>units. utf8_to_unicode (Some [0xE5, 0xBC, 0x80, 0x41, 0]) (Some [7, 7, 7, 7, 7, 7]) 6 =
      Inr (4, Some units) \<and>
    unicode_to_utf8 (Some units) 4 (Some [9, 9, 9, 9, 9, 9]) 6 =
      Inr (4, Some [0xE5, 0xBC, 0x80, 0x41, 9, 9])"
  using utf8_unicode_string_roundtrip[of "[24320, 65]" 6 "[7, 7, 7, 7, 7, 7]" 6 "[9, 9, 9, 9, 9, 9]" "[]"]
  by (simp add: unicode_bytes_def int_max_def)

section \<open>The length checks of utf8_to_unicode\<close>

lemma utf8_to_unicode_loop_not_3: "utf8_to_unicode_loop m p buf len cur uc \<noteq> Inr (-3, b)"
proof (induction "length m - p" arbitrary: p buf cur uc rule: less_induct)
  case less
  then show ?case
    by (subst utf8_to_unicode_loop.simps)
      (auto simp: cbind_Inr_iff Let_def rd_def split: if_splits)
qed

lemma utf8_to_unicode_loop_odd:
  "\<exists>k. length done + 2 * k + 1 = len \<and> k < length us \<Longrightarrow> len = length (done @ rest) \<Longrightarrow> int len < int_max \<Longrightarrow>
   (\<And>u. u \<in> set us \<Longrightarrow> u \<noteq> 0 \<and> uint u \<le> 0x7F) \<Longrightarrow>
   utf8_to_unicode_loop (pre @ encode_str us @ 0 # z) (length pre) (done @ rest) len (length done) uc =
     Inl Write_oob"
proof (induction us arbitrary: pre "done" rest uc)
  case (Cons u us)
  have le: "length (le16 u) = 2" by (simp add: le16_def)
  have u: "u \<noteq> 0" "uint u < 0x200000" "length (unicode_bytes u) = 1"
    using Cons.prems(4)[of u] by (auto simp: unicode_bytes_classes)
  have room: "length done + length (unicode_bytes u) \<le> len" using Cons.prems(1) u(3) by auto
  have ints: "int (length done + length (unicode_bytes u)) \<le> int_max" "int (length done + 2) \<le> int_max"
    using room u(3) Cons.prems(1,3) by auto
  note step = utf8_to_unicode_loop_step[OF u(1,2) room ints, of pre "encode_str us @ 0 # z" "done @ rest" uc]
  obtain k where k: "length done + 2 * k + 1 = len" "k < length (u # us)" using Cons.prems(1) by blast
  show ?case
  proof (cases k)
    case 0
    then have "wrs (done @ rest) (length done) (le16 u) = Inl Write_oob"
      using k Cons.prems(2) by (intro wrs_out) (auto simp: le16_def)
    with step show ?thesis by simp
  next
    case (Suc j)
    have "utf8_to_unicode_loop (pre @ encode_str (u # us) @ 0 # z) (length pre) (done @ rest) len (length done) uc
      = utf8_to_unicode_loop ((pre @ unicode_bytes u) @ encode_str us @ 0 # z) (length (pre @ unicode_bytes u))
         ((done @ le16 u) @ drop 2 rest) len (length (done @ le16 u)) u"
      using step k Suc Cons.prems(2) by (simp add: wrs_append_left le)
    also have "\<dots> = Inl Write_oob"
      using k Suc Cons.prems le by (intro Cons.IH) (auto intro!: exI[of _ j])
    finally show ?thesis .
  qed
qed simp

text \<open>
  The check of the room in utf8_to_unicode compares the UTF-8 length of the character, not
  the two bytes it stores: with a buffer of odd length exactly as announced, a long enough ASCII
  string makes it write one byte past the end.
\<close>

theorem utf8_to_unicode_odd_overflow:
  assumes "odd (unat len)" and "unat len = length buf" and "unat len < 2 * length us"
    and "int (unat len) < int_max"
    and "\<forall>u\<in>set us. u \<noteq> 0 \<and> uint u \<le> 0x7F"
  shows "utf8_to_unicode (Some (encode_str us @ 0 # z)) (Some buf) len = Inl Write_oob"
proof -
  obtain k where k: "unat len = 2 * k + 1" using assms(1) by (rule oddE)
  then have "\<exists>k. length ([] :: mem) + 2 * k + 1 = unat len \<and> k < length us" using assms(3) by auto
  then show ?thesis
    using utf8_to_unicode_loop_odd[of "[]" "unat len" us "replicate (unat len) 0" "[]" z 0] assms
    by (simp add: utf8_to_unicode_def wrs_in)
qed

theorem utf8_to_unicode_odd_overflow_witness:
  "utf8_to_unicode (Some [0x41, 0x42, 0]) (Some [0, 0, 0]) 3 = Inl Write_oob"
  using utf8_to_unicode_odd_overflow[of 3 "[0, 0, 0]" "[65, 66]" "[]"] by (simp add: unicode_bytes_def int_max_def)

text \<open>
  The result -3, documented as the result for a small buffer, is never returned: the
  condition before it repeats, negated, the guard of the branch it stands in.
\<close>

theorem utf8_to_unicode_never_3: "utf8_to_unicode s b len \<noteq> Inr (-3, b')"
  by (auto simp: utf8_to_unicode_def cbind_Inr_iff utf8_to_unicode_loop_not_3 split: option.splits prod.splits)

end
