(* ===== verification/Ncr.thy ===== *)
theory Ncr
  imports Unicode_Codec
begin

unbundle bit_operations_syntax

text \<open>
  Numeric character references (\<open>&#20320;\<close>) of utf8ToUnicodeToNCR.c: the parser of one reference,
  the test of a whole string, the conversions from and to UTF-8, and the classification of a
  string by \<open>get_str_code_type\<close>.
\<close>

section \<open>Parsing one reference\<close>

definition ncr_open :: "byte list" where
  "ncr_open = [38, 35]"

text \<open>
  The loop over the digits; \<open>None\<close> is the early return of -1.  The bound \<open>INT_MAX\<close> is the local
  variable of the source and equals \<open>int_max\<close>.
\<close>

function ncr_digits_loop :: "mem \<Rightarrow> nat \<Rightarrow> nat \<Rightarrow> nat \<Rightarrow> int \<Rightarrow> int option c" where
  "ncr_digits_loop m start i n ret =
     (if i < n then
        cbind (rd m (start + i)) (\<lambda>b.
          if sint b < 48 \<or> sint b > 57 then Inr None
          else if ret > int_max div 10 \<or> ret = int_max div 10 \<and> sint b \<ge> 56 then Inr None
          else cbind (chk (ret * 10)) (\<lambda>r.
               cbind (chk (r + (sint b - 48))) (\<lambda>ret'.
               cbind (chkn (i + 1)) (\<lambda>i'. ncr_digits_loop m start i' n ret'))))
      else Inr (Some ret))"
  by pat_completeness auto
termination
  by (relation "measure (\<lambda>(m, s, i, n, r). n - i)") auto

declare ncr_digits_loop.simps [simp del]

definition analize_ncr_character :: "mem \<Rightarrow> nat \<Rightarrow> (int \<times> nat option) c" where
  "analize_ncr_character m str =
     cbind (strstr m str ncr_open) (\<lambda>start.
     cbind (strstr m str [59]) (\<lambda>end.
       case start of None \<Rightarrow> Inr (-1, None)
       | Some s \<Rightarrow> (case end of None \<Rightarrow> Inr (-1, None)
         | Some e \<Rightarrow>
           if s \<noteq> str then Inr (-1, None)
           else cbind (ncr_digits_loop m s 2 (e - s) 0) (\<lambda>r.
             case r of None \<Rightarrow> Inr (-1, None) | Some v \<Rightarrow> Inr (v, Some (Suc e))))))"

lemma strstr_ge: "strstr m p needle = Inr (Some q) \<Longrightarrow> p \<le> q"
  by (auto simp: strstr_def cbind_Inr_iff)

lemma analize_ncr_next: "analize_ncr_character m p = Inr (v, Some q) \<Longrightarrow> p < q"
  unfolding analize_ncr_character_def
  by (auto simp: less_Suc_eq_le dest!: strstr_ge elim!: cbindE split: option.splits if_splits)

function is_ncr_loop :: "mem \<Rightarrow> nat \<Rightarrow> nat \<Rightarrow> bool c" where
  "is_ncr_loop m ncrStr next =
     cbind (rd m ncrStr) (\<lambda>ch.
       if ch = 0 then Inr True
       else cbind (analize_ncr_character m ncrStr) (\<lambda>(unicodeVal, written).
         if unicodeVal < 0 then Inr False
         else (case written of None \<Rightarrow> Inl Uninit
               | Some next' \<Rightarrow> is_ncr_loop m next' next')))"
  by pat_completeness auto
termination
  by (relation "measure (\<lambda>(m, p, _). length m - p)")
    (auto simp: rd_def split: if_splits dest: analize_ncr_next)

declare is_ncr_loop.simps [simp del]

definition is_ncr_str :: "mem option \<Rightarrow> bool c" where
  "is_ncr_str str = (case str of None \<Rightarrow> Inr False | Some m \<Rightarrow> is_ncr_loop m 0 0)"

section \<open>Between references and UTF-8\<close>

text \<open>The second result is the buffer \<open>utf8Buff\<close>.\<close>

definition ncr_to_utf8 :: "mem \<Rightarrow> nat \<Rightarrow> mem \<Rightarrow> (int \<times> mem) c" where
  "ncr_to_utf8 m ncrStr utf8Buff =
     cbind (analize_ncr_character m ncrStr) (\<lambda>(unicode, _).
       if unicode = -1 then Inr (0, utf8Buff)
       else unicode_word_to_utf8 (word_of_int unicode) utf8Buff 6)"

text \<open>\<open>sprintf (ncrStr, "&#%d;", unicode)\<close> reads the unsigned value as an int.\<close>

definition ncr_of :: "uint32 \<Rightarrow> byte list" where
  "ncr_of u = ncr_open @ printf_d (sint u) @ [59]"

definition utf8_to_ncr :: "mem \<Rightarrow> nat \<Rightarrow> mem \<Rightarrow> nat \<Rightarrow> (int \<times> mem) c" where
  "utf8_to_ncr m utf8Word ncrBuff len =
     cbind (utf8_word_to_unicode m utf8Word) (\<lambda>(nBytes, unicode).
       if nBytes \<ge> 1 then
         (case unicode of None \<Rightarrow> Inl Uninit
          | Some u \<Rightarrow>
            cbind (wrs (replicate 20 0) 0 (ncr_of u @ [0])) (\<lambda>ncrStr.
            cbind (strlen ncrStr 0) (\<lambda>n.
              if n \<le> len then cbind (wrs ncrBuff 0 (str_at ncrStr 0 @ [0])) (\<lambda>b. Inr (nBytes, b))
              else Inr (-1, ncrBuff))))
       else Inr (nBytes, ncrBuff))"

text \<open>
  \<open>utf8Str\<close> may be null here, because the source returns -1 only when both arguments are null.
  \<open>currLen\<close> is an int, and its additions overflow past \<open>int_max\<close>; \<open>len\<close> is an unsigned int.
\<close>

definition wrs_opt :: "mem option \<Rightarrow> nat \<Rightarrow> byte list \<Rightarrow> mem option c" where
  "wrs_opt b p xs = (case b of None \<Rightarrow> if xs = [] then Inr None else Inl Null_deref
     | Some m \<Rightarrow> cbind (wrs m p xs) (\<lambda>m. Inr (Some m)))"

function url_ncr_to_utf8_loop :: "mem \<Rightarrow> nat \<Rightarrow> mem option \<Rightarrow> nat \<Rightarrow> nat \<Rightarrow> (int \<times> mem option) c" where
  "url_ncr_to_utf8_loop m next utf8Str len currLen =
     cbind (rd m next) (\<lambda>ch.
       if ch = 0 then Inr (int currLen, utf8Str)
       else cbind (ncr_to_utf8 m next (replicate 6 0)) (\<lambda>(nBytes, utf8Buff).
         if nBytes > 0 then
           cbind (chkn (currLen + nat nBytes)) (\<lambda>n.
             if n > len then Inr (-3, utf8Str)
             else cbind (wrs_opt utf8Str currLen (strncpy_bytes utf8Buff (nat nBytes))) (\<lambda>utf8Str'.
               cbind (strstr m next [59]) (\<lambda>semi.
                 case semi of None \<Rightarrow> Inr (int n, utf8Str')
                 | Some q \<Rightarrow> url_ncr_to_utf8_loop m (Suc q) utf8Str' len n)))
         else Inr (-2, utf8Str)))"
  by pat_completeness auto
termination
  by (relation "measure (\<lambda>(m, p, _). length m - p)")
    (auto simp: rd_def split: if_splits dest: strstr_ge)

declare url_ncr_to_utf8_loop.simps [simp del]

definition url_ncr_to_utf8 :: "mem option \<Rightarrow> mem option \<Rightarrow> uint32 \<Rightarrow> (int \<times> mem option) c" where
  "url_ncr_to_utf8 ncrStr utf8Str len =
     (if ncrStr = None \<and> utf8Str = None then Inr (-1, utf8Str)
      else case ncrStr of None \<Rightarrow> Inr (0, utf8Str)
        | Some m \<Rightarrow> url_ncr_to_utf8_loop m 0 utf8Str (unat len) 0)"

function url_utf8_to_ncr_loop :: "mem \<Rightarrow> nat \<Rightarrow> mem \<Rightarrow> nat \<Rightarrow> nat \<Rightarrow> (int \<times> mem) c" where
  "url_utf8_to_ncr_loop m next ncrBuff len currLen =
     cbind (rd m next) (\<lambda>ch.
       if ch = 0 then Inr (int currLen, ncrBuff)
       else cbind (utf8_to_ncr m next (replicate 20 0) 20) (\<lambda>(nBytes, ncrStr).
         if nBytes > 0 then
           cbind (strlen ncrStr 0) (\<lambda>ncrLen.
           cbind (chkn (currLen + ncrLen)) (\<lambda>n.
             if n \<ge> len then Inr (-3, ncrBuff)
             else cbind (wrs ncrBuff currLen (strncpy_bytes ncrStr ncrLen)) (\<lambda>ncrBuff'.
               url_utf8_to_ncr_loop m (next + nat nBytes) ncrBuff' len n)))
         else Inr (-2, ncrBuff)))"
  by pat_completeness auto
termination
  by (relation "measure (\<lambda>(m, p, _). length m - p)") (auto simp: rd_def split: if_splits)

declare url_utf8_to_ncr_loop.simps [simp del]

definition url_utf8_to_ncr :: "mem option \<Rightarrow> mem option \<Rightarrow> uint32 \<Rightarrow> (int \<times> mem option) c" where
  "url_utf8_to_ncr utf8Word ncrBuff len =
     (case utf8Word of None \<Rightarrow> Inr (-1, ncrBuff)
      | Some m \<Rightarrow> (case ncrBuff of None \<Rightarrow> Inr (-1, None)
      | Some b \<Rightarrow> cbind (url_utf8_to_ncr_loop m 0 b (unat len) 0) (\<lambda>(r, b). Inr (r, Some b))))"

section \<open>Classifying a string\<close>

datatype code_type = CODE_UNKWON | CODE_UTF8 | CODE_GBK | CODE_UNICODE | CODE_NCR

definition get_str_code_type :: "mem option \<Rightarrow> code_type c option" where
  "get_str_code_type str =
     (case is_gbk_str str of None \<Rightarrow> None
      | Some (Inl e) \<Rightarrow> Some (Inl e)
      | Some (Inr True) \<Rightarrow> Some (Inr CODE_GBK)
      | Some (Inr False) \<Rightarrow>
          (case is_ncr_str str of Inl e \<Rightarrow> Some (Inl e)
           | Inr True \<Rightarrow> Some (Inr CODE_NCR)
           | Inr False \<Rightarrow>
               (case is_utf8_str str of None \<Rightarrow> None
                | Some (Inl e) \<Rightarrow> Some (Inl e)
                | Some (Inr True) \<Rightarrow> Some (Inr CODE_UTF8)
                | Some (Inr False) \<Rightarrow> Some (Inr CODE_UNKWON))))"

section \<open>The value of a reference\<close>

text \<open>
  The reference parser: \<open>&#\<close>, decimal digits and a semicolon, with a value that fits an int.
  The second component is the number of characters of the reference.
\<close>

definition ncr_split :: "byte list \<Rightarrow> (int \<times> nat) option" where
  "ncr_split s =
     (let ds = takeWhile (\<lambda>b. b \<noteq> 59) (drop 2 s) in
      if take 2 s = ncr_open \<and> 59 \<in> set s \<and> list_all is_digit ds \<and> dec_of ds \<le> int_max
      then Some (dec_of ds, length ds + 3) else None)"

definition dec_from :: "int \<Rightarrow> byte list \<Rightarrow> int" where
  "dec_from a ds = foldl (\<lambda>a d. 10 * a + (uint d - 48)) a ds"

lemma dec_from_simps [simp]:
  "dec_from a [] = a" "dec_from a (d # ds) = dec_from (10 * a + (uint d - 48)) ds"
  by (simp_all add: dec_from_def)

lemma dec_of_dec_from: "dec_of ds = dec_from 0 ds"
  by (simp add: dec_of_def dec_from_def)

lemma is_digit_uint: "is_digit b \<longleftrightarrow> 48 \<le> uint b \<and> uint b \<le> 57"
  by (simp add: is_digit_def word_le_def)

lemma is_digit_sint: "(sint b < 48 \<or> sint b > 57) \<longleftrightarrow> \<not> is_digit b"
  using uint_lt2p[of b] by (auto simp: sint_byte is_digit_uint)

lemma digit_sint: "is_digit b \<Longrightarrow> sint b = uint b"
  by (simp add: sint_byte is_digit_uint)

lemma dec_from_ge: "list_all is_digit ds \<Longrightarrow> 0 \<le> a \<Longrightarrow> a \<le> dec_from a ds"
proof (induction ds arbitrary: a)
  case (Cons d ds)
  then have "0 \<le> uint d - 48" by (simp add: is_digit_uint)
  moreover have "10 * a + (uint d - 48) \<le> dec_from (10 * a + (uint d - 48)) ds"
    using Cons by (intro Cons.IH) (auto simp: is_digit_uint)
  ultimately show ?case using Cons.prems(2) by simp
qed simp

lemma ncr_digits_loop_eq:
  "c_str m (p + i) (ds @ r) \<Longrightarrow> 0 \<le> a \<Longrightarrow> a \<le> int_max \<Longrightarrow> int (i + length ds) \<le> int_max \<Longrightarrow>
   ncr_digits_loop m p i (i + length ds) a =
     Inr (if list_all is_digit ds \<and> dec_from a ds \<le> int_max then Some (dec_from a ds) else None)"
proof (induction ds arbitrary: i a)
  case Nil
  then show ?case by (subst ncr_digits_loop.simps) simp
next
  case (Cons d ds)
  have d: "rd m (p + i) = Inr d" and str: "c_str m (p + Suc i) (ds @ r)"
    using c_str_Cons[of m "p + i" d "ds @ r"] Cons.prems(1) by simp_all
  let ?a = "10 * a + (uint d - 48)"
  show ?case
  proof (cases "is_digit d")
    case False
    then show ?thesis using d is_digit_sint[of d] by (subst ncr_digits_loop.simps) simp
  next
    case dig: True
    then have range: "0 \<le> uint d - 48" "uint d - 48 \<le> 9" by (simp_all add: is_digit_uint)
    have guard: "(a > int_max div 10 \<or> a = int_max div 10 \<and> sint d \<ge> 56) \<longleftrightarrow> int_max < ?a"
      using range Cons.prems(2) by (auto simp: digit_sint[OF dig] int_max_def)
    show ?thesis
    proof (cases "int_max < ?a")
      case True
      have "\<not> (list_all is_digit ds \<and> dec_from ?a ds \<le> int_max)"
        using dec_from_ge[of ds ?a] True range Cons.prems(2) by auto
      with True show ?thesis
        using d dig guard is_digit_sint[of d] by (subst ncr_digits_loop.simps) auto
    next
      case False
      have "chk (a * 10) = Inr (a * 10)" "chk (a * 10 + (sint d - 48)) = Inr ?a"
        using False range Cons.prems(2,3) by (auto simp: chk_def int_max_def int_min_def digit_sint[OF dig])
      moreover have "ncr_digits_loop m p (Suc i) (Suc i + length ds) ?a =
          Inr (if list_all is_digit ds \<and> dec_from ?a ds \<le> int_max then Some (dec_from ?a ds) else None)"
        using False range Cons.prems str by (intro Cons.IH) auto
      moreover have "chkn (Suc i) = Inr (Suc i)" using Cons.prems(4) by simp
      ultimately show ?thesis
        using d dig guard False is_digit_sint[of d] by (subst ncr_digits_loop.simps) auto
    qed
  qed
qed

lemma sub_index_one: "sub_index s [x] = (if x \<in> set s then Some (length (takeWhile (\<lambda>b. b \<noteq> x) s)) else None)"
  by (induction s) auto

lemma sub_index_zero: "sub_index s t = Some 0 \<longleftrightarrow> take (length t) s = t"
  by (cases s) auto

lemma length_ncr_open: "length ncr_open = 2"
  by (simp add: ncr_open_def)

lemma analize_ncr_eq:
  assumes "c_str m p s" and "int (length (takeWhile (\<lambda>b. b \<noteq> 59) s)) \<le> int_max"
  shows "analize_ncr_character m p =
    Inr (case ncr_split s of None \<Rightarrow> (-1, None) | Some (v, n) \<Rightarrow> (v, Some (p + n)))"
proof (cases "take 2 s = ncr_open \<and> 59 \<in> set s")
  case False
  then have "sub_index s ncr_open \<noteq> Some 0 \<or> sub_index s [59] = None"
    by (auto simp: sub_index_zero length_ncr_open sub_index_one)
  then show ?thesis using False
    by (auto simp: analize_ncr_character_def c_str_strstr[OF assms(1)] ncr_split_def Let_def
        split: option.split)
next
  case True
  define w where "w = drop 2 s"
  have s: "s = [38, 35] @ w"
    using True append_take_drop_id[of 2 s] by (simp add: ncr_open_def w_def)
  let ?ds = "takeWhile (\<lambda>b. b \<noteq> 59) w"
  have semi: "59 \<in> set w" using True s by auto
  have str: "c_str m (p + 2) (?ds @ dropWhile (\<lambda>b. b \<noteq> 59) w)"
    using c_str_append[of m p "[38, 35]" w] assms(1) s by simp
  have idx: "sub_index s ncr_open = Some 0" "sub_index s [59] = Some (2 + length ?ds)"
    using True s semi by (simp_all add: ncr_open_def sub_index_one)
  have "ncr_digits_loop m p 2 (2 + length ?ds) 0 =
      Inr (if list_all is_digit ?ds \<and> dec_of ?ds \<le> int_max then Some (dec_of ?ds) else None)"
    using ncr_digits_loop_eq[OF str] assms(2) s by (simp add: dec_of_dec_from int_max_def)
  with True idx show ?thesis
    by (auto simp: analize_ncr_character_def c_str_strstr[OF assms(1)] ncr_split_def Let_def
        w_def[symmetric])
qed

text \<open>
  On every null-terminated string _analize_ncr_character returns the decimal value of the
  reference the string starts with and the place after its semicolon, and -1 when there is no
  reference or its value does not fit; the accumulation of the digits never overflows.  The number of
  characters before the first semicolon must fit the index, an int.
\<close>

theorem analize_ncr_value:
  assumes "c_str m p s" and "int (length (takeWhile (\<lambda>b. b \<noteq> 59) s)) \<le> int_max"
  shows "analize_ncr_character m p =
    Inr (case ncr_split s of None \<Rightarrow> (-1, None) | Some (v, n) \<Rightarrow> (v, Some (p + n)))"
  using assms by (rule analize_ncr_eq)

theorem analize_ncr_value_witness:
  "analize_ncr_character [38, 35, 50, 48, 59, 65, 0] 0 = Inr (20, Some 5) \<and>
   analize_ncr_character [38, 35, 50, 65, 59, 0] 0 = Inr (-1, None)"
  using analize_ncr_value[of "[38, 35, 50, 48, 59, 65, 0]" 0 "[38, 35, 50, 48, 59, 65]"]
    analize_ncr_value[of "[38, 35, 50, 65, 59, 0]" 0 "[38, 35, 50, 65, 59]"]
  by (simp add: c_str_def ncr_split_def ncr_open_def is_digit_def dec_of_dec_from int_max_def)

section \<open>Strings of references, and the classification\<close>

lemma ncr_split_shape:
  assumes "ncr_split s = Some (v, n)"
  obtains ds r where "s = (ncr_open @ ds @ [59]) @ r" and "n = length (ncr_open @ ds @ [59])"
    and "list_all is_digit ds" and "v = dec_of ds" and "v \<le> int_max"
proof -
  let ?ds = "takeWhile (\<lambda>b. b \<noteq> 59) (drop 2 s)" and ?r = "dropWhile (\<lambda>b. b \<noteq> 59) (drop 2 s)"
  have v: "take 2 s = ncr_open" "59 \<in> set s" "list_all is_digit ?ds" "v = dec_of ?ds" "v \<le> int_max"
    "n = length ?ds + 3"
    using assms by (auto simp: ncr_split_def Let_def split: if_splits)
  then have s: "s = ncr_open @ drop 2 s" by (metis append_take_drop_id)
  have "59 \<in> set (ncr_open @ drop 2 s)" using v(2) unfolding s[symmetric] .
  then have "59 \<in> set (drop 2 s)" by (simp add: ncr_open_def)
  then have "?r = 59 # tl ?r"
    by (metis (mono_tags, lifting) dropWhile_eq_Nil_conv hd_dropWhile list.collapse)
  then have "s = (ncr_open @ ?ds @ [59]) @ tl ?r"
    using s by (metis append.assoc append_Cons append_Nil takeWhile_dropWhile_id)
  moreover have "n = length (ncr_open @ ?ds @ [59])" using v(6) by (simp add: ncr_open_def)
  ultimately show thesis using that v(3-5) by blast
qed

lemma ncr_split_open:
  assumes "list_all is_digit ds"
  shows "ncr_split (ncr_open @ ds @ 59 # r) =
    (if dec_of ds \<le> int_max then Some (dec_of ds, length ds + 3) else None)"
proof -
  have "\<forall>b\<in>set ds. b \<noteq> 59" using assms by (auto simp: list_all_iff is_digit_def)
  then have "takeWhile (\<lambda>b. b \<noteq> 59) (ds @ 59 # r) = ds" by simp
  with assms show ?thesis by (simp add: ncr_split_def ncr_open_def)
qed

function ncr_scan :: "byte list \<Rightarrow> bool" where
  "ncr_scan s = (if s = [] then True
     else case ncr_split s of None \<Rightarrow> False | Some (v, n) \<Rightarrow> ncr_scan (drop n s))"
  by pat_completeness auto
termination
  by (relation "measure length") (auto elim!: ncr_split_shape)

declare ncr_scan.simps [simp del]

lemma before_semi_fits: "int (length s) \<le> int_max \<Longrightarrow> int (length (takeWhile P s)) \<le> int_max"
  by (rule order.trans[OF _ _]) (simp_all add: length_takeWhile_le)

lemma is_ncr_loop_eq: "c_str m p s \<Longrightarrow> int (length s) \<le> int_max \<Longrightarrow> is_ncr_loop m p q = Inr (ncr_scan s)"
proof (induction s arbitrary: p q rule: ncr_scan.induct)
  case (1 s)
  show ?case
  proof (cases s)
    case Nil
    with 1 show ?thesis by (subst is_ncr_loop.simps) (simp add: c_str_nil ncr_scan.simps)
  next
    case (Cons b t)
    have rd: "rd m p = Inr b" "b \<noteq> 0" using c_str_Cons[of m p b t] 1(2) Cons by simp_all
    note an = analize_ncr_eq[OF 1(2) before_semi_fits[OF 1(3)]]
    show ?thesis
    proof (cases "ncr_split s")
      case None
      with rd 1(2) Cons show ?thesis
        by (subst is_ncr_loop.simps) (simp add: an ncr_scan.simps[of "b # t"])
    next
      case (Some vn)
      obtain v n where vn: "vn = (v, n)" by fastforce
      from Some vn obtain ds r where split: "s = (ncr_open @ ds @ [59]) @ r"
        "n = length (ncr_open @ ds @ [59])" "list_all is_digit ds" "v = dec_of ds"
        by (auto elim: ncr_split_shape)
      then have "0 \<le> v" using dec_from_ge[of ds 0] by (simp add: dec_of_dec_from)
      moreover have "c_str m (p + n) (drop n s)"
        using c_str_append[of m p "ncr_open @ ds @ [59]" r] 1(2) split by simp
      moreover have "int (length (drop n s)) \<le> int_max" using 1(3) by simp
      ultimately show ?thesis
        using rd 1(1)[OF _ _ vn[symmetric], of "p + n" "p + n"] 1(2) Some vn Cons
        by (subst is_ncr_loop.simps) (simp add: an ncr_scan.simps[of "b # t"])
    qed
  qed
qed

lemma gbk_scan_ascii_append: "\<forall>b\<in>set u. b < 0x80 \<Longrightarrow> gbk_scan (u @ s) = gbk_scan s"
  by (induction u) auto

lemma ncr_is_gbk: "ncr_scan s \<Longrightarrow> gbk_scan s"
proof (induction s rule: ncr_scan.induct)
  case (1 s)
  show ?case
  proof (cases "s = []")
    case False
    then obtain v n where vn: "ncr_split s = Some (v, n)" "ncr_scan (drop n s)"
      using 1(2) by (subst (asm) ncr_scan.simps) (auto split: option.splits)
    then obtain ds r where split: "s = (ncr_open @ ds @ [59]) @ r"
        "n = length (ncr_open @ ds @ [59])" "list_all is_digit ds"
      by (auto elim: ncr_split_shape)
    have "\<forall>b\<in>set (ncr_open @ ds @ [59]). b < 0x80"
      using split(3) by (auto simp: ncr_open_def list_all_iff is_digit_def word_le_nat_alt word_less_nat_alt)
    then have "gbk_scan s = gbk_scan r" using split(1) gbk_scan_ascii_append by blast
    with 1(1)[OF False vn(1) refl vn(2)] split show ?thesis by simp
  qed simp
qed

text \<open>
  is_ncr_str decides, for every null-terminated string whose length fits an int, whether it is a
  sequence of decimal references with values that fit an int.
\<close>

theorem is_ncr_str_decides:
  assumes "c_str m 0 s" and "int (length s) \<le> int_max"
  shows "is_ncr_str (Some m) = Inr (ncr_scan s)"
  using is_ncr_loop_eq[OF assms] by (simp add: is_ncr_str_def)

theorem is_ncr_str_decides_witness:
  "is_ncr_str (Some [38, 35, 50, 48, 59, 0]) = Inr True \<and> is_ncr_str (Some [38, 35, 65, 59, 0]) = Inr False"
  using is_ncr_str_decides[of "[38, 35, 50, 48, 59, 0]" "[38, 35, 50, 48, 59]"]
    is_ncr_str_decides[of "[38, 35, 65, 59, 0]" "[38, 35, 65, 59]"]
  by (simp add: c_str_def ncr_scan.simps ncr_split_def ncr_open_def is_digit_def dec_of_dec_from
      int_max_def)

text \<open>
  get_str_code_type asks for GBK first, and every string of references is ASCII and so also
  valid GBK: the answer CODE_NCR never comes out, although the function has a branch for it, and a
  string is classified by the two scanners alone.
\<close>

theorem get_str_code_type_never_ncr:
  assumes "c_str m 0 s" and "int (length s) \<le> int_max"
  shows "get_str_code_type (Some m) =
    (if gbk_scan s then Some (Inr CODE_GBK)
     else case utf8_scan s of Accept \<Rightarrow> Some (Inr CODE_UTF8)
       | Reject \<Rightarrow> Some (Inr CODE_UNKWON) | Hang \<Rightarrow> None)"
proof -
  have gbk: "is_gbk_str (Some m) = Some (Inr (gbk_scan s))"
    using is_gbk_loop_eq[OF assms(1)] by (simp add: is_gbk_str_def)
  have ncr: "is_ncr_str (Some m) = Inr (ncr_scan s)"
    using is_ncr_loop_eq[OF assms] by (simp add: is_ncr_str_def)
  have utf8: "is_utf8_str (Some m) =
    (case utf8_scan s of Accept \<Rightarrow> Some (Inr True) | Reject \<Rightarrow> Some (Inr False) | Hang \<Rightarrow> None)"
    using is_utf8_loop_eq[OF assms(1)] by (simp add: is_utf8_str_def)
  show ?thesis using ncr_is_gbk[of s]
    by (cases "gbk_scan s"; cases "ncr_scan s"; cases "utf8_scan s")
      (simp_all add: get_str_code_type_def gbk ncr utf8)
qed

theorem get_str_code_type_never_ncr_witness:
  "get_str_code_type (Some [38, 35, 50, 48, 59, 0]) = Some (Inr CODE_GBK) \<and>
   get_str_code_type (Some [0xE5, 0xBC, 0x80, 0]) = Some (Inr CODE_UTF8)"
  using get_str_code_type_never_ncr[of "[38, 35, 50, 48, 59, 0]" "[38, 35, 50, 48, 59]"]
    get_str_code_type_never_ncr[of "[0xE5, 0xBC, 0x80, 0]" "[0xE5, 0xBC, 0x80]"]
  by (simp add: int_max_def c_str_def utf8_scan.simps utf8_head_def conts_def is_cont_def)

section \<open>Round trip\<close>

lemma ncr_of_small:
  assumes "uint u < 0x200000"
  shows "ncr_of u = ncr_open @ dec_digits (unat u) @ [59]" and "length (ncr_of u) \<le> 10"
    and "0 \<notin> set (ncr_of u)"
proof -
  have "sint u = uint u"
    using assms uint_ge_0[of u] by (simp add: sint_uint signed_take_bit_eq_take_bit_shift take_bit_eq_mod)
  moreover have "nat (uint u) = unat u" by simp
  ultimately show eq: "ncr_of u = ncr_open @ dec_digits (unat u) @ [59]"
    by (simp add: ncr_of_def printf_d_def)
  have "uint u < 10 ^ 7" using assms by simp
  then have "unat u < 10 ^ 7" unfolding uint_nat of_nat_less_iff[where 'a = int, symmetric] by simp
  then have "length (dec_digits (unat u)) \<le> 7" by (rule dec_digits_length) simp
  with eq show "length (ncr_of u) \<le> 10" by (simp add: ncr_open_def)
  show "0 \<notin> set (ncr_of u)"
    using dec_digits_digits[of "unat u"] eq by (auto simp: ncr_open_def list_all_iff is_digit_def)
qed

lemma ncr_split_ncr_of:
  assumes "uint u < 0x200000"
  shows "ncr_split (ncr_of u @ r) = Some (uint u, length (ncr_of u))"
proof -
  have "dec_of (dec_digits (unat u)) = uint u" by (simp only: dec_of_dec_digits uint_nat)
  then show ?thesis
    using ncr_split_open[OF dec_digits_digits, of "unat u" r] assms
    by (simp add: ncr_of_small(1) int_max_def) (simp add: ncr_open_def)
qed

lemma utf8_to_ncr_small:
  assumes "utf8_word_to_unicode m p = Inr (n, Some u)" and "1 \<le> n" and "uint u < 0x200000"
  shows "utf8_to_ncr m p (replicate 20 0) 20 = Inr (n, ncr_of u @ replicate (20 - length (ncr_of u)) 0)"
proof -
  note small = ncr_of_small[OF assms(3)]
  let ?b = "ncr_of u @ 0 # replicate (20 - Suc (length (ncr_of u))) 0"
  have w: "wrs (replicate 20 0) 0 (ncr_of u @ [0]) = Inr ?b"
    using small(2) by (simp add: wrs_in)
  have c: "c_str ?b 0 (ncr_of u)" using small(3) by (rule c_strI)
  have "?b = ncr_of u @ replicate (20 - length (ncr_of u)) 0"
    using small(2) by (simp add: Suc_diff_le flip: replicate_Suc)
  with assms w c_str_strlen[OF c] c_str_str_at[OF c] small(2) show ?thesis
    by (simp add: utf8_to_ncr_def)
qed

lemma strncpy_bytes_prefix: "0 \<notin> set s \<Longrightarrow> strncpy_bytes (s @ r) (length s) = s"
  by (simp add: strncpy_bytes_def takeWhile_id)

lemma url_utf8_to_ncr_loop_encoded:
  "0 \<notin> set us \<Longrightarrow> (\<And>u. u \<in> set us \<Longrightarrow> uint u < 0x200000) \<Longrightarrow>
   us = [] \<or> length done + length (concat (map ncr_of us)) < len \<Longrightarrow> len \<le> length (done @ rest) \<Longrightarrow>
   int (length done + length (concat (map ncr_of us))) \<le> int_max \<Longrightarrow>
   url_utf8_to_ncr_loop (pre @ encode_str us @ 0 # z) (length pre) (done @ rest) len (length done) =
     Inr (int (length done + length (concat (map ncr_of us))),
       done @ concat (map ncr_of us) @ drop (length (concat (map ncr_of us))) rest)"
proof (induction us arbitrary: pre "done" rest)
  case Nil
  then show ?case by (subst url_utf8_to_ncr_loop.simps) simp
next
  case (Cons u us)
  have u: "u \<noteq> 0" "uint u < 0x200000" using Cons.prems by auto
  note small = ncr_of_small[OF u(2)]
  let ?m = "pre @ encode_str (u # us) @ 0 # z"
  obtain b where b: "rd ?m (length pre) = Inr b" "b \<noteq> 0"
    using encode_first[OF u(1), of pre "encode_str us @ 0 # z"] by auto
  have dec: "utf8_word_to_unicode ?m (length pre) = Inr (int (length (unicode_bytes u)), Some u)"
    using decode_small[OF u(2), of pre "encode_str us @ 0 # z"] by simp
  have pos: "0 < length (unicode_bytes u)" using unicode_bytes_length[of u] by linarith
  have one: "utf8_to_ncr ?m (length pre) (replicate 20 0) 20 =
      Inr (int (length (unicode_bytes u)), ncr_of u @ replicate (20 - length (ncr_of u)) 0)"
    using pos by (intro utf8_to_ncr_small[OF dec _ u(2)]) linarith
  have "20 - length (ncr_of u) = Suc (19 - length (ncr_of u))" using small(2) by linarith
  then have "strlen (ncr_of u @ replicate (20 - length (ncr_of u)) 0) 0 = Inr (length (ncr_of u))"
    using small(3) c_str_strlen[OF c_strI[of "ncr_of u" "replicate (19 - length (ncr_of u)) 0"]]
    by simp
  then have "url_utf8_to_ncr_loop ?m (length pre) (done @ rest) len (length done)
    = url_utf8_to_ncr_loop ((pre @ unicode_bytes u) @ encode_str us @ 0 # z) (length (pre @ unicode_bytes u))
       ((done @ ncr_of u) @ drop (length (ncr_of u)) rest) len (length (done @ ncr_of u))"
    using b one pos small(3) Cons.prems(3-5)
    by (subst url_utf8_to_ncr_loop.simps) (simp add: strncpy_bytes_prefix wrs_append_left)
  also have "\<dots> = Inr (int (length (done @ ncr_of u) + length (concat (map ncr_of us))),
      (done @ ncr_of u) @ concat (map ncr_of us) @ drop (length (concat (map ncr_of us)))
        (drop (length (ncr_of u)) rest))"
    using Cons.prems by (intro Cons.IH) auto
  finally show ?case by (simp add: add.commute add.left_commute)
qed

lemma ncr_before_semi:
  assumes "uint u < 0x200000"
  shows "takeWhile (\<lambda>b. b \<noteq> 59) (ncr_of u @ s) = ncr_open @ dec_digits (unat u)"
    and "int (length (takeWhile (\<lambda>b. b \<noteq> 59) (ncr_of u @ s))) \<le> int_max"
proof -
  have eq: "ncr_of u = (ncr_open @ dec_digits (unat u)) @ [59]" using ncr_of_small[OF assms] by simp
  have "\<forall>b\<in>set (ncr_open @ dec_digits (unat u)). b \<noteq> 59"
    using dec_digits_digits[of "unat u"] by (auto simp: ncr_open_def list_all_iff is_digit_def)
  then have "takeWhile (\<lambda>b. b \<noteq> 59) ((ncr_open @ dec_digits (unat u)) @ 59 # s) = ncr_open @ dec_digits (unat u)"
    by (subst takeWhile_append2) auto
  then show t: "takeWhile (\<lambda>b. b \<noteq> 59) (ncr_of u @ s) = ncr_open @ dec_digits (unat u)" by (simp add: eq)
  have "length (ncr_open @ dec_digits (unat u)) \<le> 10" using ncr_of_small(2)[OF assms] eq by simp
  then show "int (length (takeWhile (\<lambda>b. b \<noteq> 59) (ncr_of u @ s))) \<le> int_max"
    unfolding t by (simp add: int_max_def)
qed

lemma ncr_to_utf8_step:
  assumes "c_str m p (ncr_of u @ s)" and "uint u < 0x200000"
  shows "ncr_to_utf8 m p (replicate 6 0) =
    Inr (int (length (unicode_bytes u)), unicode_bytes u @ replicate (6 - length (unicode_bytes u)) 0)"
proof -
  have "ncr_split (ncr_of u @ s) = Some (uint u, length (ncr_of u))"
    using assms(2) by (rule ncr_split_ncr_of)
  then have "analize_ncr_character m p = Inr (uint u, Some (p + length (ncr_of u)))"
    by (simp add: analize_ncr_eq[OF assms(1) ncr_before_semi(2)[OF assms(2)]])
  moreover have "uint u \<noteq> -1" using uint_ge_0[of u] by linarith
  ultimately show ?thesis using unicode_bytes_length[of u]
    by (simp add: ncr_to_utf8_def unicode_word_to_utf8_def wrs_in)
qed

lemma strstr_semi_step:
  assumes "c_str m p (ncr_of u @ s)" and "uint u < 0x200000"
  shows "strstr m p [59] = Inr (Some (p + length (ncr_of u) - 1))"
proof -
  have eq: "ncr_of u = (ncr_open @ dec_digits (unat u)) @ [59]" using ncr_of_small[OF assms(2)] by simp
  then show ?thesis
    using c_str_strstr[OF assms(1)] ncr_before_semi(1)[OF assms(2), of s] by (simp add: sub_index_one)
qed

lemma url_ncr_to_utf8_loop_step:
  assumes "c_str m p (ncr_of u @ s)" and "uint u < 0x200000" and "u \<noteq> 0"
    and "length done + length (unicode_bytes u) \<le> len" and "len \<le> length (done @ rest)"
    and "int (length done + length (unicode_bytes u)) \<le> int_max"
  shows "url_ncr_to_utf8_loop m p (Some (done @ rest)) len (length done) =
    url_ncr_to_utf8_loop m (p + length (ncr_of u))
      (Some ((done @ unicode_bytes u) @ drop (length (unicode_bytes u)) rest)) len
      (length (done @ unicode_bytes u))"
proof -
  have eq: "ncr_of u = 38 # 35 # dec_digits (unat u) @ [59]"
    using ncr_of_small(1)[OF assms(2)] by (simp add: ncr_open_def)
  then have "rd m p = Inr 38" using assms(1) c_str_Cons[of m p 38] by simp
  moreover have "Suc (p + length (ncr_of u) - 1) = p + length (ncr_of u)" by (simp add: eq)
  moreover have "0 < length (unicode_bytes u)" using unicode_bytes_length[of u] by linarith
  moreover have "strncpy_bytes (unicode_bytes u @ r) (length (unicode_bytes u)) = unicode_bytes u" for r
    by (rule strncpy_unicode)
  ultimately show ?thesis
    using assms ncr_to_utf8_step[OF assms(1,2)] strstr_semi_step[OF assms(1,2)]
    by (subst url_ncr_to_utf8_loop.simps) (simp add: wrs_append_left wrs_opt_def)
qed

lemma url_ncr_to_utf8_loop_encoded:
  "c_str m p (concat (map ncr_of us)) \<Longrightarrow> 0 \<notin> set us \<Longrightarrow> (\<And>u. u \<in> set us \<Longrightarrow> uint u < 0x200000) \<Longrightarrow>
   length done + length (encode_str us) \<le> len \<Longrightarrow> len \<le> length (done @ rest) \<Longrightarrow>
   int (length done + length (encode_str us)) \<le> int_max \<Longrightarrow>
   url_ncr_to_utf8_loop m p (Some (done @ rest)) len (length done) =
     Inr (int (length done + length (encode_str us)),
       Some (done @ encode_str us @ drop (length (encode_str us)) rest))"
proof (induction us arbitrary: p "done" rest)
  case Nil
  then show ?case by (subst url_ncr_to_utf8_loop.simps) (simp add: c_str_nil)
next
  case (Cons u us)
  have u: "u \<noteq> 0" "uint u < 0x200000" using Cons.prems by auto
  have c: "c_str m p (ncr_of u @ concat (map ncr_of us))" using Cons.prems by simp
  have "url_ncr_to_utf8_loop m p (Some (done @ rest)) len (length done) =
    url_ncr_to_utf8_loop m (p + length (ncr_of u))
      (Some ((done @ unicode_bytes u) @ drop (length (unicode_bytes u)) rest)) len
      (length (done @ unicode_bytes u))"
    using Cons.prems by (intro url_ncr_to_utf8_loop_step[OF c u(2,1)]) auto
  also have "\<dots> = Inr (int (length (done @ unicode_bytes u) + length (encode_str us)),
      Some ((done @ unicode_bytes u) @ encode_str us @
        drop (length (encode_str us)) (drop (length (unicode_bytes u)) rest)))"
    using Cons.prems c_str_append[OF c] by (intro Cons.IH) auto
  finally show ?case by (simp add: add.commute add.left_commute)
qed

text \<open>
  C33.  A UTF-8 string of characters below 0x200000 survives the way through decimal references:
  url_utf8_to_ncr writes one reference per character without a terminating null byte, and
  url_ncr_to_utf8 on its output writes the original bytes, when the buffers have room, the lengths
  fit an int and the byte after the references was null.
\<close>

theorem utf8_ncr_string_roundtrip:
  assumes "0 \<notin> set us" and "\<forall>u\<in>set us. uint u < 0x200000"
    and "n = length (concat (map ncr_of us))" and "n < unat nlen" and "unat nlen \<le> length nbuf" and "nbuf ! n = 0"
    and "length (encode_str us) \<le> unat len" and "unat len \<le> length buf"
    and "int n \<le> int_max" and "int (length (encode_str us)) \<le> int_max"
  shows "\<exists>ncrs. url_utf8_to_ncr (Some (encode_str us @ 0 # z)) (Some nbuf) nlen = Inr (int n, Some ncrs) \<and>
    url_ncr_to_utf8 (Some ncrs) (Some buf) len =
      Inr (int (length (encode_str us)), Some (encode_str us @ drop (length (encode_str us)) buf))"
proof -
  let ?ncrs = "concat (map ncr_of us) @ drop n nbuf"
  have small: "\<And>u. u \<in> set us \<Longrightarrow> uint u < 0x200000" using assms(2) by blast
  have one: "url_utf8_to_ncr (Some (encode_str us @ 0 # z)) (Some nbuf) nlen = Inr (int n, Some ?ncrs)"
    using url_utf8_to_ncr_loop_encoded[OF assms(1) small, of "[]" "unat nlen" nbuf "[]" z] assms(3-5,9)
    by (simp add: url_utf8_to_ncr_def)
  have "0 \<notin> set (concat (map ncr_of us))" using small ncr_of_small(3) by auto
  moreover have "drop n nbuf = 0 # drop (Suc n) nbuf"
    using assms(4-6) Cons_nth_drop_Suc[of n nbuf] by simp
  ultimately have "c_str ?ncrs 0 (concat (map ncr_of us))" by (simp add: c_strI)
  from url_ncr_to_utf8_loop_encoded[OF this assms(1) small, of "[]" "unat len" buf] assms(7,8,10)
  have "url_ncr_to_utf8 (Some ?ncrs) (Some buf) len =
      Inr (int (length (encode_str us)), Some (encode_str us @ drop (length (encode_str us)) buf))"
    by (simp add: url_ncr_to_utf8_def)
  with one show ?thesis by blast
qed

lemma ncr_of_A: "ncr_of 65 = [38, 35, 54, 53, 59]"
  by (simp add: ncr_of_def ncr_open_def printf_d_def dec_digits.simps)

theorem utf8_ncr_string_roundtrip_witness:
  "\<exists>ncrs. url_utf8_to_ncr (Some [0x41, 0]) (Some [0, 0, 0, 0, 0, 0]) 6 = Inr (5, Some ncrs) \<and>
    url_ncr_to_utf8 (Some ncrs) (Some [9, 9]) 2 = Inr (1, Some [0x41, 9])"
  using utf8_ncr_string_roundtrip[of "[65]" 5 6 "[0, 0, 0, 0, 0, 0]" 2 "[9, 9]" "[]"]
  by (simp add: unicode_bytes_def ncr_of_A int_max_def)

text \<open>
  The check at the start of url_ncr_to_utf8 lets a null output buffer through when there is
  input (it asks for both arguments to be null): the first reference of a string is then written
  through the null pointer.
\<close>

theorem url_ncr_to_utf8_null_buffer:
  assumes "uint u < 0x200000" and "u \<noteq> 0" and "0 \<notin> set s" and "length (unicode_bytes u) \<le> unat len"
  shows "url_ncr_to_utf8 (Some (ncr_of u @ s @ 0 # z)) None len = Inl Null_deref"
proof -
  let ?m = "ncr_of u @ s @ 0 # z"
  have c: "c_str ?m 0 (ncr_of u @ s)"
    using assms(3) ncr_of_small(3)[OF assms(1)] c_strI[of "ncr_of u @ s" z] by simp
  have "rd ?m 0 = Inr 38"
    using ncr_of_small(1)[OF assms(1)] by (simp add: ncr_open_def)
  moreover have "unicode_bytes u \<noteq> []" using unicode_bytes_length[of u] by auto
  moreover have "int (length (unicode_bytes u)) \<le> int_max"
    using unicode_bytes_length[of u] by (simp add: int_max_def)
  ultimately show ?thesis
    using ncr_to_utf8_step[OF c assms(1)] assms(4) strncpy_unicode[of u "replicate (6 - length (unicode_bytes u)) 0"]
    by (simp add: url_ncr_to_utf8_def url_ncr_to_utf8_loop.simps[of _ 0] wrs_opt_def)
qed

theorem url_ncr_to_utf8_null_buffer_witness:
  "url_ncr_to_utf8 (Some [38, 35, 54, 53, 59, 0]) None 4 = Inl Null_deref"
  using url_ncr_to_utf8_null_buffer[of 65 "[]" 4 "[]"] by (simp add: unicode_bytes_def ncr_of_A)

end
