(* ===== verification/Url.thy ===== *)
theory Url
  imports Ncr
begin

unbundle bit_operations_syntax

text \<open>
  Percent encoding (\<open>%E5%BC%80\<close>) in utf8ToUnicodeToNCR.c: the conversions between a hexadecimal
  digit and its value, \<open>url_component_to_utf8\<close> and \<open>utf8_to_url_component\<close>.
\<close>

section \<open>Hexadecimal digits\<close>

definition ascii_hex_to_char :: "byte \<Rightarrow> byte" where
  "ascii_hex_to_char asciiHex =
     (if asciiHex \<ge> 97 \<and> asciiHex \<le> 102 then asciiHex - 87
      else if asciiHex \<ge> 65 \<and> asciiHex \<le> 70 then asciiHex - 55
      else asciiHex - 48)"

text \<open>The function ends without a return statement for values above 15; this is \<open>None\<close>.\<close>

definition char_hex_to_ascii :: "byte \<Rightarrow> byte option" where
  "char_hex_to_ascii charHex =
     (if charHex \<ge> 0 \<and> charHex \<le> 9 then Some (charHex + 48)
      else if charHex \<ge> 10 \<and> charHex \<le> 15 then Some (charHex + 55)
      else None)"

definition hex_char_merge :: "byte \<Rightarrow> byte \<Rightarrow> byte" where
  "hex_char_merge chH chL = push_bit 4 chH OR chL"

definition hex_char_split :: "byte \<Rightarrow> byte \<times> byte" where
  "hex_char_split ch = (drop_bit 4 ch, ch AND 0x0F)"

section \<open>Decoding\<close>

text \<open>
  \<open>i\<close> and \<open>currLen\<close> are ints, and each \<open>++\<close> of the source overflows past \<open>int_max\<close>; \<open>len\<close> is
  an unsigned int.
\<close>

function url_component_loop ::
    "mem \<Rightarrow> nat \<Rightarrow> nat \<Rightarrow> mem option \<Rightarrow> nat \<Rightarrow> nat \<Rightarrow> (bool \<times> mem option) c" where
  "url_component_loop data i datelen utf8Buff len currLen =
     (if i < datelen then
        cbind (rd data i) (\<lambda>ch.
          if ch = 37 then
            cbind (chkn (i + 1)) (\<lambda>i1.
              if currLen < len then
                cbind (rd data i1) (\<lambda>c1.
                cbind (chkn (i1 + 1)) (\<lambda>i2.
                cbind (rd data i2) (\<lambda>c2.
                cbind (wrs_opt utf8Buff currLen
                    [hex_char_merge (ascii_hex_to_char c1) (ascii_hex_to_char c2)]) (\<lambda>utf8Buff'.
                cbind (chkn (currLen + 1)) (\<lambda>currLen'.
                cbind (chkn (i2 + 1)) (\<lambda>i3.
                  url_component_loop data i3 datelen utf8Buff' len currLen'))))))
              else cbind (chkn (i1 + 1)) (\<lambda>i2. url_component_loop data i2 datelen utf8Buff len currLen))
          else cbind (wrs_opt utf8Buff currLen [ch]) (\<lambda>utf8Buff'.
               cbind (chkn (currLen + 1)) (\<lambda>currLen'.
               cbind (chkn (i + 1)) (\<lambda>i1.
                 url_component_loop data i1 datelen utf8Buff' len currLen'))))
      else Inr (True, utf8Buff))"
  by pat_completeness auto
termination
  by (relation "measure (\<lambda>(data, i, n, _). n - i)") auto

declare url_component_loop.simps [simp del]

text \<open>
  \<open>strlen\<close> comes before the test for null pointers.  Its result is stored in an int: with a
  negative \<open>datelen\<close> the loop makes no round.
\<close>

definition url_component_to_utf8 :: "mem option \<Rightarrow> mem option \<Rightarrow> 32 word \<Rightarrow> (bool \<times> mem option) c" where
  "url_component_to_utf8 data utf8Buff len =
     (case data of None \<Rightarrow> Inl Null_deref
      | Some m \<Rightarrow> cbind (strlen m 0) (\<lambda>k.
          let datelen = int_of_size k in
          if utf8Buff = None \<and> data = None then Inr (False, utf8Buff)
          else url_component_loop m 0 (nat datelen) utf8Buff (unat len) 0))"

section \<open>Encoding\<close>

text \<open>
  The text is appended with \<open>sprintf\<close> at the end of the string that is in the buffer, and
  \<open>sprintf\<close> adds a null byte.  \<open>currLen\<close> is an int, and \<open>currLen + 3\<close> overflows past \<open>int_max\<close>.
\<close>

function utf8_to_url_loop :: "mem \<Rightarrow> nat \<Rightarrow> mem \<Rightarrow> nat \<Rightarrow> nat \<Rightarrow> (int \<times> mem) c" where
  "utf8_to_url_loop m cursor urlComponet len currLen =
     cbind (rd m cursor) (\<lambda>ch.
       if ch = 0 then Inr (int currLen, urlComponet)
       else cbind (chkn (currLen + 3)) (\<lambda>n.
       if n \<le> len then
         (case (char_hex_to_ascii (fst (hex_char_split ch)), char_hex_to_ascii (snd (hex_char_split ch))) of
            (Some chH, Some chL) \<Rightarrow>
              cbind (strlen urlComponet 0) (\<lambda>k.
              cbind (wrs urlComponet k [37, chH, chL, 0]) (\<lambda>urlComponet'.
                utf8_to_url_loop m (cursor + 1) urlComponet' len n))
          | _ \<Rightarrow> Inl Uninit)
       else Inr (-2, urlComponet)))"
  by pat_completeness auto
termination
  by (relation "measure (\<lambda>(m, p, _). length m - p)") (auto simp: rd_def split: if_splits)

declare utf8_to_url_loop.simps [simp del]

definition utf8_to_url_component :: "mem option \<Rightarrow> mem option \<Rightarrow> 32 word \<Rightarrow> (int \<times> mem option) c option" where
  "utf8_to_url_component utf8Str urlComponet len =
     (case is_utf8_str utf8Str of None \<Rightarrow> None
      | Some (Inl e) \<Rightarrow> Some (Inl e)
      | Some (Inr isUtf8Str) \<Rightarrow>
          (if \<not> isUtf8Str then Some (Inr (-1, urlComponet))
           else case urlComponet of None \<Rightarrow> Some (Inr (-1, None))
            | Some b \<Rightarrow> (case utf8Str of None \<Rightarrow> Some (Inl Null_deref)
              | Some m \<Rightarrow> Some (cbind (utf8_to_url_loop m 0 b (unat len) 0) (\<lambda>(r, b). Inr (r, Some b))))))"

section \<open>The digits of a byte\<close>

definition hex_ascii :: "byte \<Rightarrow> byte" where
  "hex_ascii d = (if d \<le> 9 then d + 48 else d + 55)"

definition url_enc :: "byte \<Rightarrow> byte list" where
  "url_enc b = [37, hex_ascii (drop_bit 4 b), hex_ascii (b AND 0x0F)]"

definition url_str :: "byte list \<Rightarrow> byte list" where
  "url_str s = concat (map url_enc s)"

lemma url_str_simps [simp]: "url_str [] = []" "url_str (b # s) = url_enc b @ url_str s"
  by (simp_all add: url_str_def)

lemma length_url_enc [simp]: "length (url_enc b) = 3"
  by (simp add: url_enc_def)

lemma length_url_str [simp]: "length (url_str s) = 3 * length s"
  by (induction s) simp_all

lemma low_nibble: "(b :: byte) AND 0x0F \<le> 15"
  by (rule word_and_le1)

lemma high_nibble: "drop_bit 4 (b :: byte) \<le> 15"
proof -
  have "uint (drop_bit 4 b) = uint b div 16"
    by (simp add: unsigned_drop_bit_eq drop_bit_eq_div take_bit_eq_mod uint_div)
  moreover have "uint b < 256" using uint_lt2p[of b] by simp
  ultimately show ?thesis by (simp add: word_le_def)
qed

lemma char_hex_nibble: "d \<le> 15 \<Longrightarrow> char_hex_to_ascii d = Some (hex_ascii d)"
  by (auto simp: char_hex_to_ascii_def hex_ascii_def word_le_nat_alt)

lemma nibble_cases: "d \<le> 15 \<Longrightarrow> (d :: byte) \<in> {0, 1, 2, 3, 4, 5, 6, 7, 8, 9, 10, 11, 12, 13, 14, 15}"
proof -
  assume "d \<le> 15"
  then have "unat d \<le> 15" by (simp add: word_le_nat_alt)
  then have "unat d \<in> {0..15}" by simp
  also have "{0..15 :: nat} = {0, 1, 2, 3, 4, 5, 6, 7, 8, 9, 10, 11, 12, 13, 14, 15}"
    by (intro set_eqI) (simp, presburger)
  finally have "of_nat (unat d) \<in> (of_nat :: nat \<Rightarrow> byte) ` {0, 1, 2, 3, 4, 5, 6, 7, 8, 9, 10, 11, 12, 13, 14, 15}"
    by (rule imageI)
  then show ?thesis by simp
qed

lemma ascii_hex_hex: "d \<le> 15 \<Longrightarrow> ascii_hex_to_char (hex_ascii d) = d"
  by (drule nibble_cases) (auto simp: ascii_hex_to_char_def hex_ascii_def)

lemma hex_ascii_nonzero: "d \<le> 15 \<Longrightarrow> hex_ascii d \<noteq> 0"
  by (drule nibble_cases) (auto simp: hex_ascii_def)

lemma merge_split: "hex_char_merge (drop_bit 4 b) (b AND 0x0F) = b"
proof -
  have "(0x0F :: byte) = mask 4" by (simp add: mask_eq_exp_minus_1)
  moreover have "push_bit 4 (drop_bit 4 b) OR (b AND mask 4) = b"
    by (intro bit_word_eqI) (auto simp: bit_simps)
  ultimately show ?thesis by (simp add: hex_char_merge_def)
qed

lemma url_str_no_zero: "0 \<notin> set (url_str s)"
  by (induction s)
    (auto simp: url_enc_def hex_ascii_nonzero[OF low_nibble, symmetric] hex_ascii_nonzero[OF high_nibble, symmetric])

section \<open>What the two conversions compute\<close>

lemma split_digits:
  "char_hex_to_ascii (fst (hex_char_split b)) = Some (hex_ascii (drop_bit 4 b))"
  "char_hex_to_ascii (snd (hex_char_split b)) = Some (hex_ascii (b AND 0x0F))"
  unfolding hex_char_split_def fst_conv snd_conv
  by (rule char_hex_nibble[OF high_nibble], rule char_hex_nibble[OF low_nibble])

lemma utf8_to_url_loop_step:
  assumes "c_str m p (b # s)" and "0 \<notin> set pre" and "cur + 3 \<le> len" and "int (cur + 3) \<le> int_max"
  shows "utf8_to_url_loop m p (pre @ 0 # rest) len cur =
    cbind (wrs (pre @ 0 # rest) (length pre) (url_enc b @ [0]))
      (\<lambda>buf'. utf8_to_url_loop m (Suc p) buf' len (cur + 3))"
  using assms c_str_Cons[OF assms(1)] strlen_text[OF assms(2), of rest]
  by (subst utf8_to_url_loop.simps) (simp add: split_digits url_enc_def)

lemma utf8_to_url_loop_eq:
  "c_str m p s \<Longrightarrow> 0 \<notin> set pre \<Longrightarrow> 3 * length s \<le> length rest \<Longrightarrow> cur + 3 * length s \<le> len \<Longrightarrow>
   int (cur + 3 * length s) \<le> int_max \<Longrightarrow>
   utf8_to_url_loop m p (pre @ 0 # rest) len cur =
     Inr (int (cur + 3 * length s), pre @ url_str s @ 0 # drop (3 * length s) rest)"
proof (induction s arbitrary: p pre rest cur)
  case Nil
  then show ?case by (subst utf8_to_url_loop.simps) (simp add: c_str_nil)
next
  case (Cons b s)
  have "c_str m (Suc p) s" using Cons.prems(1) c_str_Cons by blast
  moreover have "0 \<notin> set (pre @ url_enc b)" using Cons.prems(2) url_str_no_zero[of "[b]"] by simp
  ultimately have IH: "utf8_to_url_loop m (Suc p) ((pre @ url_enc b) @ 0 # drop 3 rest) len (cur + 3) =
     Inr (int (cur + 3 + 3 * length s), (pre @ url_enc b) @ url_str s @ 0 # drop (3 * length s) (drop 3 rest))"
    using Cons.prems(3-5) by (intro Cons.IH) auto
  have "wrs (pre @ 0 # rest) (length pre) (url_enc b @ [0]) = Inr (pre @ url_enc b @ 0 # drop 3 rest)"
    using Cons.prems(3) wrs_append_left[of "url_enc b @ [0]" "0 # rest" pre] by simp
  with IH utf8_to_url_loop_step[OF Cons.prems(1,2), of cur len rest] Cons.prems(4,5)
  show ?case by (simp add: add.commute add.left_commute)
qed

lemma utf8_to_url_loop_overflow:
  "c_str m p s \<Longrightarrow> 0 \<notin> set pre \<Longrightarrow> length rest < 3 * length s \<Longrightarrow> cur + 3 * length s \<le> len \<Longrightarrow>
   int (cur + 3 * length s) \<le> int_max \<Longrightarrow>
   utf8_to_url_loop m p (pre @ 0 # rest) len cur = Inl Write_oob"
proof (induction s arbitrary: p pre rest cur)
  case (Cons b s)
  show ?case
  proof (cases "length rest < 3")
    case True
    then have "wrs (pre @ 0 # rest) (length pre) (url_enc b @ [0]) = Inl Write_oob"
      by (intro wrs_out) (auto simp: url_enc_def)
    with utf8_to_url_loop_step[OF Cons.prems(1,2), of cur len rest] Cons.prems(4,5)
    show ?thesis by simp
  next
    case False
    have "c_str m (Suc p) s" using Cons.prems(1) c_str_Cons by blast
    moreover have "0 \<notin> set (pre @ url_enc b)" using Cons.prems(2) url_str_no_zero[of "[b]"] by simp
    ultimately have IH: "utf8_to_url_loop m (Suc p) ((pre @ url_enc b) @ 0 # drop 3 rest) len (cur + 3) = Inl Write_oob"
      using Cons.prems(3-5) False by (intro Cons.IH) auto
    have "wrs (pre @ 0 # rest) (length pre) (url_enc b @ [0]) = Inr (pre @ url_enc b @ 0 # drop 3 rest)"
      using False wrs_append_left[of "url_enc b @ [0]" "0 # rest" pre] by simp
    with IH utf8_to_url_loop_step[OF Cons.prems(1,2), of cur len rest] Cons.prems(4,5)
    show ?thesis by simp
  qed
qed simp

lemma url_component_loop_step:
  assumes "c_str m p (url_enc b @ s)" and "length done < len" and "rest \<noteq> []" and "p + 3 \<le> n"
    and "int (p + 3) \<le> int_max" and "int (length (done @ [b])) \<le> int_max"
  shows "url_component_loop m p n (Some (done @ rest)) len (length done) =
    url_component_loop m (p + 3) n (Some ((done @ [b]) @ tl rest)) len (length (done @ [b]))"
proof -
  let ?h = "hex_ascii (drop_bit 4 b)" and ?l = "hex_ascii (b AND 0x0F)"
  have rds: "rd m p = Inr 37" "rd m (p + 1) = Inr ?h" "rd m (p + 2) = Inr ?l"
    using c_str_nth[OF assms(1), of 0] c_str_nth[OF assms(1), of 1] c_str_nth[OF assms(1), of 2]
    by (simp_all add: url_enc_def)
  have val: "hex_char_merge (ascii_hex_to_char ?h) (ascii_hex_to_char ?l) = b"
    by (simp only: ascii_hex_hex[OF high_nibble] ascii_hex_hex[OF low_nibble] merge_split)
  have "wrs_opt (Some (done @ rest)) (length done) [b] = Inr (Some ((done @ [b]) @ tl rest))"
    using assms(3) by (cases rest) (simp_all add: wrs_opt_def)
  with rds val assms show ?thesis
    by (subst url_component_loop.simps) (simp add: numeral_3_eq_3)
qed

lemma url_component_loop_eq:
  "c_str m p (url_str s) \<Longrightarrow> length done + length s \<le> len \<Longrightarrow> len \<le> length (done @ rest) \<Longrightarrow>
   int (p + 3 * length s) \<le> int_max \<Longrightarrow> int (length done + length s) \<le> int_max \<Longrightarrow>
   url_component_loop m p (p + 3 * length s) (Some (done @ rest)) len (length done) =
     Inr (True, Some (done @ s @ drop (length s) rest))"
proof (induction s arbitrary: p "done" rest)
  case Nil
  then show ?case by (subst url_component_loop.simps) simp
next
  case (Cons b s)
  have c: "c_str m p (url_enc b @ url_str s)" using Cons.prems by simp
  have c': "c_str m (p + 3) (url_str s)" using c_str_append[OF c] by simp
  have r: "rest \<noteq> []" using Cons.prems by auto
  have "url_component_loop m p (p + 3 * length (b # s)) (Some (done @ rest)) len (length done) =
    url_component_loop m (p + 3) (p + 3 * length (b # s)) (Some ((done @ [b]) @ tl rest)) len (length (done @ [b]))"
    using Cons.prems by (intro url_component_loop_step[OF c _ r]) auto
  also have "p + 3 * length (b # s) = (p + 3) + 3 * length s" by simp
  also have "url_component_loop m (p + 3) \<dots> (Some ((done @ [b]) @ tl rest)) len (length (done @ [b])) =
     Inr (True, Some ((done @ [b]) @ s @ drop (length s) (tl rest)))"
    using Cons.prems c' r by (intro Cons.IH) auto
  finally show ?case using r by (cases rest) (simp_all add: add.assoc)
qed

text \<open>
  C21.  For every string that is_utf8_str accepts, utf8_to_url_component appends the percent
  encoding to the string already in the buffer and returns three times the length, when the
  buffer has room for it and that length fits an int; url_component_to_utf8 then decodes what was
  written to an empty buffer to the original string.
\<close>

theorem url_roundtrip:
  assumes "c_str m 0 s" and "utf8_scan s = Accept"
    and "3 * length s \<le> unat ulen" and "ubuf = 0 # rest" and "3 * length s \<le> length rest"
    and "length s \<le> unat len" and "unat len \<le> length buf" and "int (3 * length s) \<le> int_max"
  shows "\<exists>enc. utf8_to_url_component (Some m) (Some ubuf) ulen = Some (Inr (int (3 * length s), Some enc)) \<and>
    c_str enc 0 (url_str s) \<and>
    url_component_to_utf8 (Some enc) (Some buf) len = Inr (True, Some (s @ drop (length s) buf))"
proof -
  let ?enc = "url_str s @ 0 # drop (3 * length s) rest"
  have "is_utf8_str (Some m) = Some (Inr True)"
    using is_utf8_loop_eq[OF assms(1)] assms(2) by (simp add: is_utf8_str_def)
  then have one: "utf8_to_url_component (Some m) (Some ubuf) ulen = Some (Inr (int (3 * length s), Some ?enc))"
    using utf8_to_url_loop_eq[OF assms(1), of "[]" rest 0 "unat ulen"] assms(3-5,8)
    by (simp add: utf8_to_url_component_def)
  have c: "c_str ?enc 0 (url_str s)" by (rule c_strI[OF url_str_no_zero])
  have "url_component_to_utf8 (Some ?enc) (Some buf) len = Inr (True, Some (s @ drop (length s) buf))"
    using url_component_loop_eq[OF c, of "[]" "unat len" buf] assms(6-8) c_str_strlen[OF c]
    by (simp add: url_component_to_utf8_def)
  with one c show ?thesis by blast
qed

theorem url_roundtrip_witness:
  "\<exists>enc. utf8_to_url_component (Some [0xE5, 0xBC, 0x80, 0]) (Some (0 # replicate 9 0)) 9 = Some (Inr (9, Some enc)) \<and>
    c_str enc 0 (url_str [0xE5, 0xBC, 0x80]) \<and>
    url_component_to_utf8 (Some enc) (Some [1, 2, 3, 4]) 3 = Inr (True, Some [0xE5, 0xBC, 0x80, 4])"
  using url_roundtrip[of "[0xE5, 0xBC, 0x80, 0]" "[0xE5, 0xBC, 0x80]" 9 "0 # replicate 9 0" "replicate 9 0" 3 "[1, 2, 3, 4]"]
  by (simp add: int_max_def c_str_def utf8_scan.simps utf8_head_def conts_def is_cont_def)

text \<open>
  The check of the room in utf8_to_url_component forgets the null byte that sprintf adds:
  a buffer of exactly the announced length that the text would fill is overrun by one byte.
\<close>

theorem utf8_to_url_component_overflow:
  assumes "c_str m 0 s" and "utf8_scan s = Accept" and "s \<noteq> []"
    and "length buf = 3 * length s" and "unat len = length buf" and "buf ! 0 = 0"
    and "int (length buf) \<le> int_max"
  shows "utf8_to_url_component (Some m) (Some buf) len = Some (Inl Write_oob)"
proof -
  have "is_utf8_str (Some m) = Some (Inr True)"
    using is_utf8_loop_eq[OF assms(1)] assms(2) by (simp add: is_utf8_str_def)
  moreover obtain rest where "buf = 0 # rest" using assms(3,4,6) by (cases buf) auto
  ultimately show ?thesis
    using utf8_to_url_loop_overflow[OF assms(1), of "[]" rest 0 "unat len"] assms(4,5,7)
    by (simp add: utf8_to_url_component_def)
qed

theorem utf8_to_url_component_overflow_witness:
  "utf8_to_url_component (Some [0x41, 0]) (Some [0, 0, 0]) 3 = Some (Inl Write_oob)"
  using utf8_to_url_component_overflow[of "[0x41, 0]" "[0x41]" "[0, 0, 0]" 3]
  by (simp add: int_max_def c_str_def utf8_scan.simps utf8_head_def conts_def)

lemma url_component_loop_plain:
  "c_str m p (u @ v) \<Longrightarrow> 37 \<notin> set u \<Longrightarrow> p + length u \<le> n \<Longrightarrow> length u \<le> length rest \<Longrightarrow>
   int (p + length u) \<le> int_max \<Longrightarrow> int (length done + length u) \<le> int_max \<Longrightarrow>
   url_component_loop m p n (Some (done @ rest)) len (length done) =
   url_component_loop m (p + length u) n (Some (done @ u @ drop (length u) rest)) len (length (done @ u))"
proof (induction u arbitrary: p "done" rest)
  case (Cons b u)
  obtain r rs where r: "rest = r # rs" using Cons.prems by (cases rest) auto
  have c: "rd m p = Inr b" "c_str m (Suc p) (u @ v)"
    using Cons.prems(1) c_str_Cons[of m p b "u @ v"] by auto
  have "wrs_opt (Some (done @ rest)) (length done) [b] = Inr (Some ((done @ [b]) @ rs))"
    by (simp add: r wrs_opt_def)
  then have "url_component_loop m p n (Some (done @ rest)) len (length done) =
      url_component_loop m (Suc p) n (Some ((done @ [b]) @ rs)) len (length (done @ [b]))"
    using Cons.prems c by (subst url_component_loop.simps) simp
  also have "\<dots> = url_component_loop m (Suc p + length u) n
      (Some ((done @ [b]) @ u @ drop (length u) rs)) len (length ((done @ [b]) @ u))"
    using Cons.prems c r by (intro Cons.IH) auto
  finally show ?case by (simp add: r)
qed simp

text \<open>
  url_component_to_utf8 does not check that two digits follow a percent sign: when the
  string ends in one, it reads the byte after the terminating null byte.
\<close>

theorem url_component_percent_at_end:
  assumes "0 \<notin> set u" and "37 \<notin> set u" and "length u < unat len" and "unat len \<le> length buf" and "int (length u) + 2 \<le> int_max"
  shows "url_component_to_utf8 (Some (u @ [37, 0])) (Some buf) len = Inl Read_oob"
proof -
  let ?m = "u @ [37, 0]"
  have c: "c_str ?m 0 (u @ [37])" using assms(1) c_strI[of "u @ [37]" "[]"] by simp
  have "rd ?m (length u) = Inr 37" "rd ?m (Suc (length u)) = Inr 0" "rd ?m (Suc (Suc (length u))) = Inl Read_oob"
    by (simp_all add: rd_def nth_append)
  then have "url_component_loop ?m (length u) (Suc (length u)) b (unat len) (length u) = Inl Read_oob" for b
    using assms(3,5) by (subst url_component_loop.simps) simp
  then show ?thesis
    using url_component_loop_plain[OF c assms(2), of "Suc (length u)" buf "[]" "unat len"] assms(3-5) c_str_strlen[OF c]
    by (simp add: url_component_to_utf8_def)
qed

theorem url_component_percent_at_end_witness:
  "url_component_to_utf8 (Some [0x41, 37, 0]) (Some [0, 0]) 2 = Inl Read_oob"
  using url_component_percent_at_end[of "[0x41]" 2 "[0, 0]"] by (simp add: int_max_def)

end
