(* ===== verification/Sequence.thy ===== *)
theory Sequence
  imports C_Prelude
begin

text \<open>
  The interface of the containers under Storage/linear: an operation that inserts one value at a
  position and returns 0.  Array and linked list provide it; what a client builds with several
  insertions is proved here once.
\<close>

section \<open>Cells of int blocks\<close>

text \<open>A block from malloc holds indeterminate values until they are written.\<close>

type_synonym ints = "int option list"

definition ldi :: "ints option \<Rightarrow> int \<Rightarrow> int c" where
  "ldi b i = (case b of None \<Rightarrow> Inl Null_deref
     | Some m \<Rightarrow> cbind (rdi m i) (\<lambda>v. case v of None \<Rightarrow> Inl Uninit | Some x \<Rightarrow> Inr x))"

definition sti :: "ints option \<Rightarrow> int \<Rightarrow> int \<Rightarrow> ints option c" where
  "sti b i x = (case b of None \<Rightarrow> Inl Null_deref
     | Some m \<Rightarrow> cbind (wri m i (Some x)) (\<lambda>m'. Inr (Some m')))"

lemma ldi_Some: "0 \<le> i \<Longrightarrow> nat i < length m \<Longrightarrow> m ! nat i = Some x \<Longrightarrow> ldi (Some m) i = Inr x"
  by (simp add: ldi_def rdi_def)

lemma sti_Some: "0 \<le> i \<Longrightarrow> nat i < length m \<Longrightarrow> sti (Some m) i x = Inr (Some (m[nat i := Some x]))"
  by (simp add: sti_def wri_def)

lemma sti_out: "i < 0 \<or> length m \<le> nat i \<Longrightarrow> sti (Some m) i x = Inl Write_oob"
  by (auto simp: sti_def wri_def)

lemma ldi_neg: "i < 0 \<Longrightarrow> ldi (Some m) i = Inl Read_oob"
  by (simp add: ldi_def rdi_def)

section \<open>Insertion\<close>

definition insert_nth :: "nat \<Rightarrow> 'a \<Rightarrow> 'a list \<Rightarrow> 'a list" where
  "insert_nth i x xs = take i xs @ x # drop i xs"

lemma insert_nth_end [simp]: "insert_nth (length xs) x xs = xs @ [x]"
  by (simp add: insert_nth_def)

lemma insert_nth_front [simp]: "insert_nth 0 x xs = x # xs"
  by (simp add: insert_nth_def)

lemma length_insert_nth: "i \<le> length xs \<Longrightarrow> length (insert_nth i x xs) = Suc (length xs)"
  by (simp add: insert_nth_def)

text \<open>
  A list of insertions, each a position and a value: when they are all at or before the end, what
  they make of a list, and what a client makes of a container with an operation \<open>ins\<close>.
\<close>

fun legal :: "nat \<Rightarrow> (nat \<times> 'a) list \<Rightarrow> bool" where
  "legal n [] = True"
| "legal n ((i, v) # ops) = (i \<le> n \<and> legal (Suc n) ops)"

fun inserted :: "(nat \<times> 'a) list \<Rightarrow> 'a list \<Rightarrow> 'a list" where
  "inserted [] xs = xs"
| "inserted ((i, v) # ops) xs = inserted ops (insert_nth i v xs)"

fun insert_all :: "(nat \<Rightarrow> 'a \<Rightarrow> 's \<Rightarrow> (int \<times> 's) c) \<Rightarrow> (nat \<times> 'a) list \<Rightarrow> 's \<Rightarrow> 's c" where
  "insert_all ins [] s = Inr s"
| "insert_all ins ((i, v) # ops) s = cbind (ins i v s) (\<lambda>(r, s'). insert_all ins ops s')"

text \<open>
  \<open>fits s n\<close>: the container has room, or can make room, for \<open>n\<close> more values.
\<close>

locale sequence =
  fixes inv :: "'s \<Rightarrow> bool"
    and elems :: "'s \<Rightarrow> 'a list"
    and fits :: "'s \<Rightarrow> nat \<Rightarrow> bool"
    and ins :: "nat \<Rightarrow> 'a \<Rightarrow> 's \<Rightarrow> (int \<times> 's) c"
  assumes ins_ok: "inv s \<Longrightarrow> fits s (Suc n) \<Longrightarrow> i \<le> length (elems s) \<Longrightarrow>
    \<exists>s'. ins i v s = Inr (0, s') \<and> inv s' \<and> fits s' n \<and> elems s' = insert_nth i v (elems s)"
begin

lemma insert_all_elems:
  "inv s \<Longrightarrow> fits s (length ops) \<Longrightarrow> legal (length (elems s)) ops \<Longrightarrow>
     \<exists>s'. insert_all ins ops s = Inr s' \<and> inv s' \<and> elems s' = inserted ops (elems s)"
proof (induction ops arbitrary: s)
  case (Cons op ops)
  obtain i v where op: "op = (i, v)" by (cases op)
  with Cons.prems obtain s' where "ins i v s = Inr (0, s')" "inv s'" "fits s' (length ops)"
    "elems s' = insert_nth i v (elems s)" "i \<le> length (elems s)" "legal (Suc (length (elems s))) ops"
    using ins_ok[of s "length ops" i v] by auto
  with Cons.IH[of s'] show ?case by (simp add: op length_insert_nth)
qed simp

end

text \<open>Two containers with the same values stay the same under the same insertions.\<close>

locale two_sequences =
  one: sequence inv1 elems1 fits1 ins1 + two: sequence inv2 elems2 fits2 ins2
  for inv1 :: "'s \<Rightarrow> bool" and elems1 :: "'s \<Rightarrow> 'a list" and fits1 ins1
    and inv2 :: "'t \<Rightarrow> bool" and elems2 :: "'t \<Rightarrow> 'a list" and fits2 ins2
begin

lemma agree:
  assumes "inv1 s" "inv2 t" "elems1 s = elems2 t" "fits1 s (length ops)" "fits2 t (length ops)"
    and "legal (length (elems1 s)) ops"
  shows "\<exists>s' t'. insert_all ins1 ops s = Inr s' \<and> insert_all ins2 ops t = Inr t' \<and> inv1 s' \<and> inv2 t' \<and>
    elems1 s' = inserted ops (elems1 s) \<and> elems2 t' = elems1 s'"
  using one.insert_all_elems[OF assms(1,4,6)] two.insert_all_elems[OF assms(2,5)] assms(3,6) by auto

end

end
