(* ===== verification/Int_Array.thy ===== *)
theory Int_Array
  imports Sequence
begin

text \<open>
  The growing array of Storage/linear/array/intarray.c.  The field \<open>size\<close> is \<open>asize\<close> here; as in
  the source, \<open>size\<close> is the number of cells and \<open>capacity\<close> the number of values.  Each operation
  allocates at most one block, and its argument \<open>ok\<close> says whether that malloc succeeds.  A null
  pointer argument is \<open>None\<close>.
\<close>

section \<open>State and operations\<close>

record int_array =
  arr :: "ints option"
  asize :: int
  capacity :: int

definition int_array_new :: "bool \<Rightarrow> bool \<Rightarrow> int \<Rightarrow> int_array option" where
  "int_array_new ok1 ok2 n =
     (if ok1 then
        (let b = (if n > 0 \<and> ok2 then Some (replicate (nat n) None) else None) in
         Some \<lparr>arr = b, asize = (if b = None then 0 else n), capacity = 0\<rparr>)
      else None)"

function copy_ints :: "ints option \<Rightarrow> ints \<Rightarrow> int \<Rightarrow> int \<Rightarrow> ints c" where
  "copy_ints src dst i n =
     (if i < n then
        cbind (ldi src i) (\<lambda>v. cbind (wri dst i (Some v)) (\<lambda>dst'. copy_ints src dst' (i + 1) n))
      else Inr dst)"
  by pat_completeness auto
termination
  by (relation "measure (\<lambda>(s, d, i, n). nat (n - i))") auto

declare copy_ints.simps [simp del]

definition int_array_grow :: "bool \<Rightarrow> int_array option \<Rightarrow> (int \<times> int_array option) c" where
  "int_array_grow ok list =
     (case list of None \<Rightarrow> Inr (-1, None)
      | Some l \<Rightarrow> cbind (chk (2 * asize l)) (\<lambda>n2.
          if ok then
            cbind (copy_ints (arr l) (replicate (nat n2) None) 0 (capacity l)) (\<lambda>newSpace.
              Inr (0, Some (l\<lparr>arr := Some newSpace, asize := n2\<rparr>)))
          else Inr (-1, Some l)))"

function shift_right_loop :: "ints option \<Rightarrow> int \<Rightarrow> int \<Rightarrow> ints option c" where
  "shift_right_loop a i index =
     (if i > index then
        cbind (ldi a (i - 1)) (\<lambda>v. cbind (sti a i v) (\<lambda>a'. shift_right_loop a' (i - 1) index))
      else Inr a)"
  by pat_completeness auto
termination
  by (relation "measure (\<lambda>(a, i, j). nat (i - j))") auto

declare shift_right_loop.simps [simp del]

text \<open>\<open>add_at\<close> is the branch of \<open>int_array_add\<close> that has room.\<close>

definition add_at :: "int_array \<Rightarrow> int \<Rightarrow> int \<Rightarrow> int \<Rightarrow> (int \<times> int_array option) c" where
  "add_at l capacity0 index val =
     cbind (shift_right_loop (arr l) (if capacity0 > 0 then capacity0 else 0) index) (\<lambda>a.
     cbind (sti a index val) (\<lambda>a'.
     cbind (chk (capacity l + 1)) (\<lambda>c.
       Inr (0, Some (l\<lparr>arr := a', capacity := c\<rparr>)))))"

definition int_array_add :: "bool \<Rightarrow> int_array option \<Rightarrow> int \<Rightarrow> int \<Rightarrow> (int \<times> int_array option) c" where
  "int_array_add ok list index val =
     (case list of None \<Rightarrow> Inr (-1, None)
      | Some l \<Rightarrow>
          if index < 0 \<or> index > capacity l then Inr (-1, Some l)
          else cbind (chk (capacity l + 1)) (\<lambda>c1.
            if c1 \<le> asize l then add_at l (capacity l) index val
            else cbind (int_array_grow ok (Some l)) (\<lambda>(r, list').
              if r \<noteq> -1 then
                (case list' of None \<Rightarrow> Inl Null_deref | Some l' \<Rightarrow> add_at l' (capacity l) index val)
              else Inr (-1, list'))))"

function find_loop :: "ints option \<Rightarrow> int \<Rightarrow> int \<Rightarrow> int \<Rightarrow> int \<Rightarrow> int c" where
  "find_loop a i n val index =
     (if i < n then
        cbind (ldi a i) (\<lambda>v. find_loop a (i + 1) n val (if v = val then i else index))
      else Inr index)"
  by pat_completeness auto
termination
  by (relation "measure (\<lambda>(a, i, n, _). nat (n - i))") auto

declare find_loop.simps [simp del]

definition int_array_find :: "int_array option \<Rightarrow> int \<Rightarrow> int c" where
  "int_array_find list val =
     (case list of None \<Rightarrow> Inr (-1) | Some l \<Rightarrow> find_loop (arr l) 0 (capacity l) val (-1))"

text \<open>
  \<open>malloc (2 * capacity)\<close> asks for bytes, which hold a quarter as many values of type int.
\<close>

definition int_array_reduce :: "bool \<Rightarrow> int_array option \<Rightarrow> (int \<times> int_array option) c" where
  "int_array_reduce ok list =
     (case list of None \<Rightarrow> Inr (-1, None)
      | Some l \<Rightarrow> cbind (chk (4 * capacity l)) (\<lambda>c4.
          if c4 > asize l then Inr (-1, Some l)
          else cbind (chk (2 * capacity l)) (\<lambda>n2.
            if ok then
              cbind (copy_ints (arr l) (replicate (nat n2 div 4) None) 0 (capacity l)) (\<lambda>newSpace.
                Inr (0, Some (l\<lparr>arr := Some newSpace, asize := n2\<rparr>)))
            else Inr (-1, Some l))))"

function shift_left_loop :: "ints option \<Rightarrow> int \<Rightarrow> int \<Rightarrow> ints option c" where
  "shift_left_loop a index n =
     (if index < n - 1 then
        cbind (ldi a (index + 1)) (\<lambda>v. cbind (sti a index v) (\<lambda>a'. shift_left_loop a' (index + 1) n))
      else Inr a)"
  by pat_completeness auto
termination
  by (relation "measure (\<lambda>(a, i, n). nat (n - i))") auto

declare shift_left_loop.simps [simp del]

definition int_array_remove :: "bool \<Rightarrow> int_array option \<Rightarrow> int \<Rightarrow> (int \<times> int_array option) c" where
  "int_array_remove ok list val =
     (case list of None \<Rightarrow> Inr (-1, None)
      | Some l \<Rightarrow> cbind (int_array_find list val) (\<lambda>index.
          if index \<ge> 0 then
            cbind (shift_left_loop (arr l) index (capacity l)) (\<lambda>a.
            cbind (int_array_reduce ok (Some (l\<lparr>arr := a, capacity := capacity l - 1\<rparr>))) (\<lambda>(_, list').
              Inr (0, list')))
          else Inr (-1, Some l)))"

text \<open>The values \<open>int_array_print\<close> prints, with its result.\<close>

function print_loop :: "ints option \<Rightarrow> int \<Rightarrow> int \<Rightarrow> int list c" where
  "print_loop a i n =
     (if i < n then cbind (ldi a i) (\<lambda>v. cbind (print_loop a (i + 1) n) (\<lambda>vs. Inr (v # vs)))
      else Inr [])"
  by pat_completeness auto
termination
  by (relation "measure (\<lambda>(a, i, n). nat (n - i))") auto

declare print_loop.simps [simp del]

definition int_array_print :: "int_array option \<Rightarrow> (int \<times> int list) c" where
  "int_array_print list =
     (case list of None \<Rightarrow> Inr (-1, [])
      | Some l \<Rightarrow> if arr l = None then Inr (-1, [])
          else cbind (print_loop (arr l) 0 (capacity l)) (\<lambda>vs. Inr (0, vs)))"

definition int_array_destory :: "int_array option \<Rightarrow> int \<times> int_array option" where
  "int_array_destory list =
     (case list of None \<Rightarrow> (-1, None)
      | Some l \<Rightarrow> (0, Some (l\<lparr>arr := None, asize := 0, capacity := 0\<rparr>)))"

text \<open>The test programs of the file, with every malloc succeeding; results of the calls are dropped.\<close>

definition test_int_array :: "int_array option" where
  "test_int_array = int_array_new True True 4"

fun add_ends :: "int list \<Rightarrow> int_array option \<Rightarrow> int_array option c" where
  "add_ends [] t = Inr t"
| "add_ends (v # vs) t =
     (case t of None \<Rightarrow> Inl Null_deref
      | Some l \<Rightarrow> cbind (int_array_add True t (capacity l) v) (\<lambda>(_, t'). add_ends vs t'))"

definition test_int_array_add :: "int_array option c" where
  "test_int_array_add = add_ends [1, 2, 3, 4, 5, 6, 7] test_int_array"

fun remove_all_vals :: "int list \<Rightarrow> int_array option \<Rightarrow> int_array option c" where
  "remove_all_vals [] t = Inr t"
| "remove_all_vals (v # vs) t = cbind (int_array_remove True t v) (\<lambda>(_, t'). remove_all_vals vs t')"

definition test_int_array_remove :: "int_array option c" where
  "test_int_array_remove =
     cbind test_int_array_add (\<lambda>t.
     cbind (remove_all_vals [1, 2, 3, 4, 5, 6] t) (\<lambda>t'.
     cbind (int_array_print t') (\<lambda>_. Inr t')))"

definition test_int_array_print :: "(int \<times> int list) c" where
  "test_int_array_print = cbind test_int_array_add int_array_print"

definition test_int_array_find :: "int c" where
  "test_int_array_find = cbind test_int_array_add (\<lambda>t. int_array_find t 8)"

section \<open>Invariant and contents\<close>

text \<open>
  \<open>rep l xs junk\<close>: the block holds the values \<open>xs\<close> and then cells that are not in use.  The
  second disjunct of \<open>wf\<close> is the array without a block that \<open>int_array (0)\<close> makes.
\<close>

definition rep :: "int_array \<Rightarrow> int list \<Rightarrow> ints \<Rightarrow> bool" where
  "rep l xs junk \<longleftrightarrow> arr l = Some (map Some xs @ junk) \<and> capacity l = int (length xs) \<and>
     asize l = int (length xs + length junk) \<and> asize l \<le> int_max"

definition wf :: "int_array \<Rightarrow> bool" where
  "wf l \<longleftrightarrow> (\<exists>xs junk. rep l xs junk) \<or> arr l = None \<and> capacity l = 0 \<and> asize l = 0"

definition elems_of :: "int_array \<Rightarrow> int list" where
  "elems_of l = (case arr l of None \<Rightarrow> [] | Some b \<Rightarrow> map the (take (nat (capacity l)) b))"

lemma rep_elems: "rep l xs junk \<Longrightarrow> elems_of l = xs"
  by (simp add: rep_def elems_of_def comp_def)

lemma rep_wf: "rep l xs junk \<Longrightarrow> wf l"
  by (auto simp: wf_def)

lemma wfE: "wf l \<Longrightarrow> 0 < asize l \<Longrightarrow> (\<And>junk. rep l (elems_of l) junk \<Longrightarrow> P) \<Longrightarrow> P"
  by (auto simp: wf_def dest: rep_elems)

section \<open>The loops\<close>

lemma ldi_at: "ldi (Some (p @ Some x # q)) (int (length p)) = Inr x"
  by (simp add: ldi_Some)

lemma sti_at: "sti (Some (p @ c # q)) (int (length p)) x = Inr (Some (p @ Some x # q))"
  by (simp add: sti_Some)

lemma copy_ints_ok:
  "k \<le> length xs \<Longrightarrow> length xs \<le> length dst \<Longrightarrow>
   copy_ints (Some (map Some xs @ j)) dst (int k) (int (length xs)) =
     Inr (take k dst @ map Some (drop k xs) @ drop (length xs) dst)"
proof (induction "length xs - k" arbitrary: k dst)
  case 0
  then show ?case by (subst copy_ints.simps) simp
next
  case (Suc d)
  then have k: "k < length xs" by simp
  have "copy_ints (Some (map Some xs @ j)) (dst[k := Some (xs ! k)]) (int (Suc k)) (int (length xs)) =
     Inr (take (Suc k) (dst[k := Some (xs ! k)]) @ map Some (drop (Suc k) xs) @
       drop (length xs) (dst[k := Some (xs ! k)]))"
    using Suc k by (intro Suc.hyps(1)) auto
  moreover have "take (Suc k) (dst[k := Some (xs ! k)]) = take k dst @ [Some (xs ! k)]"
    using k Suc.prems by (simp add: take_Suc_conv_app_nth)
  moreover have "drop k xs = xs ! k # drop (Suc k) xs" using k by (simp add: Cons_nth_drop_Suc)
  ultimately show ?case
    using k Suc.prems by (subst copy_ints.simps) (simp add: ldi_Some nth_append wri_def add.commute)
qed

lemma copy_ints_overflow:
  "k \<le> length dst \<Longrightarrow> length dst < length xs \<Longrightarrow>
   copy_ints (Some (map Some xs @ j)) dst (int k) (int (length xs)) = Inl Write_oob"
proof (induction "length dst - k" arbitrary: k dst)
  case 0
  then show ?case
    by (subst copy_ints.simps) (simp add: ldi_Some nth_append wri_def)
next
  case (Suc d)
  have "copy_ints (Some (map Some xs @ j)) (dst[k := Some (xs ! k)]) (int (Suc k)) (int (length xs)) = Inl Write_oob"
    using Suc by (intro Suc.hyps(1)) auto
  then show ?case
    using Suc by (subst copy_ints.simps) (simp add: ldi_Some nth_append wri_def add.commute)
qed

lemma shift_right_ok:
  "\<exists>y. shift_right_loop (Some (p @ map Some ys @ x # q)) (int (length p + length ys)) (int (length p)) =
     Inr (Some (p @ y # map Some ys @ q))"
proof (induction ys arbitrary: x q rule: rev_induct)
  case Nil
  then show ?case by (subst shift_right_loop.simps) auto
next
  case (snoc z zs)
  let ?a = "p @ map Some (zs @ [z]) @ x # q"
  have ld: "ldi (Some ?a) (int (length p + length zs)) = Inr z"
    using ldi_at[of "p @ map Some zs" z "x # q"] by simp
  have st: "sti (Some ?a) (int (length p + length (zs @ [z]))) z = Inr (Some (p @ map Some zs @ Some z # Some z # q))"
    using sti_at[of "p @ map Some (zs @ [z])" x q z] by simp
  obtain y where "shift_right_loop (Some (p @ map Some zs @ Some z # Some z # q)) (int (length p + length zs)) (int (length p)) =
     Inr (Some (p @ y # map Some zs @ Some z # q))"
    using snoc.IH[of "Some z" "Some z # q"] by blast
  with ld st show ?case by (subst shift_right_loop.simps) auto
qed

lemma shift_left_ok:
  "\<exists>y. shift_left_loop (Some (p @ x # map Some ys @ q)) (int (length p)) (int (length p + length ys + 1)) =
     Inr (Some (p @ map Some ys @ y # q))"
proof (induction ys arbitrary: p x)
  case Nil
  then show ?case by (subst shift_left_loop.simps) auto
next
  case (Cons z zs)
  let ?a = "p @ x # map Some (z # zs) @ q"
  have ld: "ldi (Some ?a) (int (length p) + 1) = Inr z"
    using ldi_at[of "p @ [x]" z "map Some zs @ q"] by (simp add: add.commute)
  have st: "sti (Some ?a) (int (length p)) z = Inr (Some ((p @ [Some z]) @ Some z # map Some zs @ q))"
    using sti_at[of p x "map Some (z # zs) @ q" z] by simp
  obtain y where "shift_left_loop (Some ((p @ [Some z]) @ Some z # map Some zs @ q)) (int (length p) + 1)
      (int (length p + length (z # zs) + 1)) = Inr (Some ((p @ [Some z]) @ map Some zs @ y # q))"
    using Cons.IH[of "p @ [Some z]" "Some z"] by (auto simp: add.commute)
  with ld st show ?case by (subst shift_left_loop.simps) auto
qed

fun last_idx :: "int \<Rightarrow> int list \<Rightarrow> int \<Rightarrow> int \<Rightarrow> int" where
  "last_idx i [] v r = r"
| "last_idx i (x # xs) v r = last_idx (i + 1) xs v (if x = v then i else r)"

lemma last_idx_none: "v \<notin> set xs \<Longrightarrow> last_idx i xs v r = r"
  by (induction xs arbitrary: i r) auto

lemma last_idx_split: "v \<notin> set zs \<Longrightarrow> last_idx i (ys @ v # zs) v r = i + int (length ys)"
  by (induction ys arbitrary: i r) (auto simp: last_idx_none)

lemma find_loop_eq:
  "find_loop (Some (p @ map Some xs @ j)) (int (length p)) (int (length p + length xs)) v r =
     Inr (last_idx (int (length p)) xs v r)"
proof (induction xs arbitrary: p r)
  case Nil
  then show ?case by (subst find_loop.simps) simp
next
  case (Cons x xs)
  have "ldi (Some (p @ map Some (x # xs) @ j)) (int (length p)) = Inr x"
    using ldi_at[of p x] by simp
  then show ?case
    using Cons.IH[of "p @ [Some x]"] by (subst find_loop.simps) (simp add: add.commute)
qed

lemma print_loop_eq:
  "print_loop (Some (p @ map Some xs @ j)) (int (length p)) (int (length p + length xs)) = Inr xs"
proof (induction xs arbitrary: p)
  case Nil
  then show ?case by (subst print_loop.simps) simp
next
  case (Cons x xs)
  have "ldi (Some (p @ map Some (x # xs) @ j)) (int (length p)) = Inr x"
    using ldi_at[of p x] by simp
  then show ?case
    using Cons.IH[of "p @ [Some x]"] by (subst print_loop.simps) (simp add: add.commute)
qed

section \<open>The operations\<close>

lemma add_at_ok:
  assumes "rep l xs junk" and "junk \<noteq> []" and "i \<le> length xs"
  shows "\<exists>l'. add_at l (capacity l) (int i) v = Inr (0, Some l') \<and> rep l' (insert_nth i v xs) (tl junk)"
proof -
  obtain x q where junk: "junk = x # q" using assms(2) by (cases junk) auto
  have l: "arr l = Some (map Some (take i xs) @ map Some (drop i xs) @ x # q)" "capacity l = int (length xs)"
    "asize l = int (Suc (length xs) + length q)" "asize l \<le> int_max"
    using assms(1,3) junk by (simp_all add: rep_def flip: map_append append_assoc)
  have ife: "(if capacity l > 0 then capacity l else 0) = capacity l" using l(2) by simp
  obtain y where "shift_right_loop (arr l) (int (length (map Some (take i xs)) + length (drop i xs)))
      (int (length (map Some (take i xs)))) = Inr (Some (map Some (take i xs) @ y # map Some (drop i xs) @ q))"
    using shift_right_ok[of "map Some (take i xs)" "drop i xs" x q] l(1) by auto
  then have "shift_right_loop (arr l) (capacity l) (int i) =
      Inr (Some (map Some (take i xs) @ y # map Some (drop i xs) @ q))"
    using assms(3) l(2) by simp
  moreover have "sti (Some (map Some (take i xs) @ y # map Some (drop i xs) @ q)) (int i) v =
      Inr (Some (map Some (insert_nth i v xs) @ q))"
    using sti_at[of "map Some (take i xs)" y "map Some (drop i xs) @ q" v] assms(3)
    by (simp add: insert_nth_def min_absorb2)
  moreover have "chk (capacity l + 1) = Inr (capacity l + 1)"
    using l by (simp add: chk_def int_min_def)
  ultimately show ?thesis
    using l assms(3) junk unfolding add_at_def ife by (simp add: rep_def length_insert_nth)
qed

lemma grow_ok:
  assumes "rep l xs junk" and "2 * asize l \<le> int_max"
  shows "\<exists>l' junk'. int_array_grow True (Some l) = Inr (0, Some l') \<and> rep l' xs junk' \<and>
    asize l' = 2 * asize l \<and> capacity l' = capacity l"
proof -
  have r: "arr l = Some (map Some xs @ junk)" "capacity l = int (length xs)"
    "asize l = int (length xs + length junk)"
    using assms(1) by (auto simp: rep_def)
  have "chk (2 * asize l) = Inr (2 * asize l)" using assms(2) r(3) by (simp add: chk_def int_min_def)
  moreover have "copy_ints (arr l) (replicate (nat (2 * asize l)) None) 0 (capacity l) =
      Inr (map Some xs @ replicate (nat (2 * asize l) - length xs) None)"
    using copy_ints_ok[of 0 xs "replicate (nat (2 * asize l)) None" junk] r by simp
  ultimately show ?thesis
    using r assms(2) by (auto simp: int_array_grow_def rep_def)
qed

lemma add_ok:
  assumes "wf l" and "0 < asize l" and "capacity l < asize l \<or> 2 * asize l \<le> int_max" and "i \<le> length (elems_of l)"
  shows "\<exists>l'. int_array_add True (Some l) (int i) v = Inr (0, Some l') \<and> wf l' \<and>
    elems_of l' = insert_nth i v (elems_of l) \<and>
    asize l' = (if capacity l < asize l then asize l else 2 * asize l)"
proof -
  let ?xs = "elems_of l"
  obtain junk where r: "rep l ?xs junk" using assms(1,2) by (rule wfE)
  then have cap: "capacity l = int (length ?xs)" "asize l = int (length ?xs + length junk)" "asize l \<le> int_max"
    by (auto simp: rep_def)
  have "capacity l + 1 \<le> int_max" using cap assms(2,3) by linarith
  then have ch: "chk (capacity l + 1) = Inr (capacity l + 1)"
    using cap(1) by (simp add: chk_def int_min_def)
  show ?thesis
  proof (cases "capacity l < asize l")
    case True
    then have "junk \<noteq> []" "0 < length junk" using cap by auto
    from add_at_ok[OF r this(1) assms(4), of v] obtain l' where
      "add_at l (capacity l) (int i) v = Inr (0, Some l')" "rep l' (insert_nth i v ?xs) (tl junk)" by blast
    moreover from this have "asize l' = asize l"
      using cap \<open>junk \<noteq> []\<close> assms(4) by (cases junk) (auto simp: rep_def length_insert_nth)
    ultimately show ?thesis
      using True ch assms(4) cap(1) by (auto simp: int_array_add_def rep_elems rep_wf)
  next
    case False
    with assms(3) have "2 * asize l \<le> int_max" by simp
    from grow_ok[OF r this] obtain l1 junk' where g: "int_array_grow True (Some l) = Inr (0, Some l1)"
      "rep l1 ?xs junk'" "asize l1 = 2 * asize l" "capacity l1 = capacity l" by blast
    then have "junk' \<noteq> []" using cap False assms(2) by (auto simp: rep_def)
    from add_at_ok[OF g(2) this assms(4), of v] obtain l' where
      "add_at l1 (capacity l1) (int i) v = Inr (0, Some l')" "rep l' (insert_nth i v ?xs) (tl junk')" by blast
    moreover from this have "asize l' = asize l1"
      using g(2) \<open>junk' \<noteq> []\<close> assms(4) by (cases junk') (auto simp: rep_def length_insert_nth)
    ultimately show ?thesis
      using False ch g assms(4) cap by (auto simp: int_array_add_def rep_elems rep_wf)
  qed
qed

definition array_insert :: "nat \<Rightarrow> int \<Rightarrow> int_array \<Rightarrow> (int \<times> int_array) c" where
  "array_insert i v l = cbind (int_array_add True (Some l) (int i) v) (\<lambda>(r, t).
     case t of None \<Rightarrow> Inl Null_deref | Some l' \<Rightarrow> Inr (r, l'))"

definition array_fits :: "int_array \<Rightarrow> nat \<Rightarrow> bool" where
  "array_fits l n \<longleftrightarrow> 0 < asize l \<and> 2 * (capacity l + int n) \<le> int_max"

lemma wf_capacity: "wf l \<Longrightarrow> capacity l = int (length (elems_of l)) \<and> capacity l \<le> asize l"
  by (auto simp: wf_def elems_of_def rep_def)


interpretation int_seq: sequence wf elems_of array_fits array_insert
proof
  fix l :: int_array and n i :: nat and v :: int
  assume wf: "wf l" and fits: "array_fits l (Suc n)" and i: "i \<le> length (elems_of l)"
  have "capacity l < asize l \<or> 2 * asize l \<le> int_max"
    using fits wf_capacity[OF wf] by (auto simp: array_fits_def)
  then obtain l' where l': "int_array_add True (Some l) (int i) v = Inr (0, Some l')" "wf l'"
    "elems_of l' = insert_nth i v (elems_of l)" "asize l' = (if capacity l < asize l then asize l else 2 * asize l)"
    using add_ok[OF wf _ _ i] fits by (auto simp: array_fits_def)
  have "capacity l' = capacity l + 1"
    using wf_capacity[OF wf] wf_capacity[OF l'(2)] l'(3) i by (simp add: length_insert_nth)
  then have "array_fits l' n" using fits l'(4) by (auto simp: array_fits_def)
  with l' show "\<exists>l'. array_insert i v l = Inr (0, l') \<and> wf l' \<and> array_fits l' n \<and>
      elems_of l' = insert_nth i v (elems_of l)"
    by (simp add: array_insert_def)
qed

text \<open>
  int_array_add on an array with cells inserts the value at the index, returns 0 and keeps
  the invariant; a full array is doubled first, unless the doubled size would leave the range of
  int.
\<close>

theorem int_array_add_inserts:
  assumes "wf l" and "0 < asize l" and "capacity l < asize l \<or> 2 * asize l \<le> int_max"
    and "i \<le> length (elems_of l)"
  shows "\<exists>l'. int_array_add True (Some l) (int i) v = Inr (0, Some l') \<and> wf l' \<and>
    elems_of l' = insert_nth i v (elems_of l) \<and>
    asize l' = (if capacity l < asize l then asize l else 2 * asize l)"
  using assms by (rule add_ok)

theorem int_array_add_inserts_witness:
  "\<exists>l'. int_array_add True (Some \<lparr>arr = Some [Some 5], asize = 1, capacity = 1\<rparr>) 0 4 = Inr (0, Some l') \<and>
    wf l' \<and> elems_of l' = [4, 5] \<and> asize l' = 2"
proof -
  let ?l = "\<lparr>arr = Some [Some 5], asize = 1, capacity = 1\<rparr>"
  have "rep ?l [5] []" by (simp add: rep_def int_max_def)
  then show ?thesis
    using int_array_add_inserts[of ?l 0 4] by (simp add: rep_wf rep_elems int_max_def)
qed

text \<open>
  An array whose size has become 0 (after the last value was removed, or made for size 0)
  cannot take a value: doubling 0 gives no cell, and the write is outside the block.
\<close>

theorem int_array_add_empty_block:
  assumes "asize l = 0" and "capacity l = 0"
  shows "int_array_add True (Some l) 0 v = Inl Write_oob"
  using assms
  by (simp add: int_array_add_def int_array_grow_def add_at_def chk_def int_min_def int_max_def
      copy_ints.simps shift_right_loop.simps sti_out)

theorem int_array_add_empty_block_witness:
  "cbind (Inr (the (int_array_new True True 0))) (\<lambda>l. int_array_add True (Some l) 0 7) = Inl Write_oob"
  using int_array_add_empty_block[of "the (int_array_new True True 0)" 7] by (simp add: int_array_new_def)

lemma find_eq:
  assumes "rep l xs junk"
  shows "int_array_find (Some l) v = Inr (last_idx 0 xs v (-1))"
  using assms find_loop_eq[of "[]" xs junk v "-1"] by (simp add: int_array_find_def rep_def)

text \<open>
  int_array_find returns -1 when the value is not among the values of the array, and the
  position of its last occurrence otherwise.
\<close>

theorem int_array_find_last:
  assumes "wf l"
  shows "v \<notin> set (elems_of l) \<and> int_array_find (Some l) v = Inr (-1) \<or>
    (\<exists>ys zs. elems_of l = ys @ v # zs \<and> v \<notin> set zs \<and> int_array_find (Some l) v = Inr (int (length ys)))"
proof (cases "\<exists>xs junk. rep l xs junk")
  case True
  then obtain xs junk where r: "rep l xs junk" by blast
  show ?thesis
  proof (cases "v \<in> set xs")
    case True
    then obtain ys zs where "xs = ys @ v # zs" "v \<notin> set zs" by (blast dest: split_list_last)
    with r show ?thesis by (auto simp: find_eq rep_elems last_idx_split)
  qed (simp add: find_eq[OF r] rep_elems[OF r] last_idx_none)
next
  case False
  with assms show ?thesis by (auto simp: wf_def elems_of_def int_array_find_def find_loop.simps)
qed

theorem int_array_find_last_witness:
  "\<exists>ys zs. [5, 6, 5 :: int] = ys @ 5 # zs \<and> 5 \<notin> set zs \<and>
    int_array_find (Some \<lparr>arr = Some [Some 5, Some 6, Some 5], asize = 3, capacity = 3\<rparr>) 5 = Inr (int (length ys))"
proof -
  let ?l = "\<lparr>arr = Some [Some 5, Some 6, Some 5], asize = 3, capacity = 3\<rparr>"
  have "rep ?l [5, 6, 5] []" by (simp add: rep_def int_max_def)
  then show ?thesis using int_array_find_last[of ?l 5] by (simp add: rep_wf rep_elems)
qed

lemma remove_shift:
  assumes "rep l (ys @ v # zs) junk" and "v \<notin> set zs"
  shows "\<exists>a j. int_array_remove ok (Some l) v =
      cbind (int_array_reduce ok (Some (l\<lparr>arr := a, capacity := capacity l - 1\<rparr>))) (\<lambda>(_, l'). Inr (0, l')) \<and>
    rep (l\<lparr>arr := a, capacity := capacity l - 1\<rparr>) (ys @ zs) j"
proof -
  have r: "arr l = Some (map Some ys @ Some v # map Some zs @ junk)" "capacity l = int (length ys + length zs + 1)"
    "asize l = int (length ys + length zs + 1 + length junk)" "asize l \<le> int_max"
    using assms(1) by (auto simp: rep_def)
  have f: "int_array_find (Some l) v = Inr (int (length ys))"
    using find_eq[OF assms(1)] assms(2) by (simp add: last_idx_split)
  obtain y where "shift_left_loop (arr l) (int (length (map Some ys))) (int (length (map Some ys) + length zs + 1)) =
      Inr (Some (map Some ys @ map Some zs @ y # junk))"
    using shift_left_ok[of "map Some ys" "Some v" zs junk] r(1) by auto
  with f r have "int_array_remove ok (Some l) v =
      cbind (int_array_reduce ok (Some (l\<lparr>arr := Some (map Some ys @ map Some zs @ y # junk), capacity := capacity l - 1\<rparr>)))
        (\<lambda>(_, l'). Inr (0, l'))"
    by (simp add: int_array_remove_def)
  moreover have "rep (l\<lparr>arr := Some (map Some ys @ map Some zs @ y # junk), capacity := capacity l - 1\<rparr>) (ys @ zs) (y # junk)"
    using r by (simp add: rep_def)
  ultimately show ?thesis by blast
qed

text \<open>
  int_array_remove takes out the last occurrence of the value and keeps the invariant, as
  long as more than a quarter of the cells stays in use.
\<close>

theorem int_array_remove_last:
  assumes "wf l" and "elems_of l = ys @ v # zs" and "v \<notin> set zs"
    and "asize l < 4 * (capacity l - 1)" and "4 * capacity l \<le> int_max"
  shows "\<exists>l'. int_array_remove ok (Some l) v = Inr (0, Some l') \<and> wf l' \<and> elems_of l' = ys @ zs \<and>
    asize l' = asize l"
proof -
  have "0 < asize l" using conjunct2[OF wf_capacity[OF assms(1)]] assms(4) by presburger
  with assms(1) obtain junk where "rep l (ys @ v # zs) junk" using assms(2) by (metis wfE)
  from remove_shift[OF this assms(3), of ok] obtain a j where
    rm: "int_array_remove ok (Some l) v =
      cbind (int_array_reduce ok (Some (l\<lparr>arr := a, capacity := capacity l - 1\<rparr>))) (\<lambda>(_, l'). Inr (0, l'))"
    and rep: "rep (l\<lparr>arr := a, capacity := capacity l - 1\<rparr>) (ys @ zs) j" by blast
  have "chk (4 * (capacity l - 1)) = Inr (4 * (capacity l - 1))"
    using assms(5) rep by (simp add: chk_def int_min_def rep_def)
  then have "int_array_reduce ok (Some (l\<lparr>arr := a, capacity := capacity l - 1\<rparr>)) =
      Inr (-1, Some (l\<lparr>arr := a, capacity := capacity l - 1\<rparr>))"
    using assms(4) by (simp add: int_array_reduce_def)
  with rm show ?thesis using rep_wf[OF rep] rep_elems[OF rep] by auto
qed

theorem int_array_remove_last_witness:
  "\<exists>l'. int_array_remove True (Some \<lparr>arr = Some [Some 5, Some 6, Some 7], asize = 3, capacity = 3\<rparr>) 6 = Inr (0, Some l') \<and>
    wf l' \<and> elems_of l' = [5, 7] \<and> asize l' = 3"
proof -
  let ?l = "\<lparr>arr = Some [Some 5, Some 6, Some 7], asize = 3, capacity = 3\<rparr>"
  have "rep ?l [5, 6, 7] []" by (simp add: rep_def int_max_def)
  then show ?thesis
    using int_array_remove_last[of ?l "[5]" 6 "[7]" True] by (simp add: rep_wf rep_elems int_max_def)
qed

text \<open>
  When at most a quarter of the cells stays in use, the removal writes outside the block:
  int_array_reduce allocates twice the number of values in bytes and copies that many values of
  four bytes each.
\<close>

theorem int_array_remove_overflow:
  assumes "wf l" and "elems_of l = ys @ v # zs" and "v \<notin> set zs"
    and "ys @ zs \<noteq> []" and "4 * (capacity l - 1) \<le> asize l"
  shows "int_array_remove True (Some l) v = Inl Write_oob"
proof -
  have cap: "capacity l = int (length ys + length zs + 1)" "capacity l \<le> asize l"
    using wf_capacity[OF assms(1)] assms(2) by simp_all
  then have "0 < asize l" by simp
  with assms(1) obtain junk where r: "rep l (ys @ v # zs) junk" using assms(2) by (metis wfE)
  from remove_shift[OF this assms(3), of True] obtain a j where
    rm: "int_array_remove True (Some l) v =
      cbind (int_array_reduce True (Some (l\<lparr>arr := a, capacity := capacity l - 1\<rparr>))) (\<lambda>(_, l'). Inr (0, l'))"
    and rep: "rep (l\<lparr>arr := a, capacity := capacity l - 1\<rparr>) (ys @ zs) j" by blast
  let ?n = "length (ys @ zs)"
  have a: "a = Some (map Some (ys @ zs) @ j)" "capacity l - 1 = int ?n"
    using rep cap by (simp_all add: rep_def)
  have quarter: "nat (2 * int n) div 4 < n" if "0 < n" for n :: nat
    using that by (simp add: nat_mult_distrib)
  have "nat (2 * int ?n) div 4 < ?n" using assms(4) by (intro quarter) simp
  then have "copy_ints a (replicate (nat (2 * (capacity l - 1)) div 4) None) 0 (capacity l - 1) = Inl Write_oob"
    using copy_ints_overflow[of 0 "replicate (nat (2 * int ?n) div 4) None" "ys @ zs" j] a by simp
  moreover have "chk (4 * (capacity l - 1)) = Inr (4 * (capacity l - 1))"
    "chk (2 * (capacity l - 1)) = Inr (2 * (capacity l - 1))"
    using assms(5) r cap by (auto simp: chk_def int_min_def rep_def)
  ultimately show ?thesis
    using rm assms(5) by (simp add: int_array_reduce_def)
qed

theorem int_array_remove_overflow_witness:
  "int_array_remove True (Some \<lparr>arr = Some [Some 5, Some 6, None, None], asize = 4, capacity = 2\<rparr>) 6 = Inl Write_oob"
proof -
  let ?l = "\<lparr>arr = Some [Some 5, Some 6, None, None], asize = 4, capacity = 2\<rparr>"
  have "rep ?l [5, 6] [None, None]" by (simp add: rep_def int_max_def)
  then show ?thesis
    using int_array_remove_overflow[of ?l "[5]" 6 "[]"] by (simp add: rep_wf rep_elems)
qed

text \<open>
  The test programs of the file: the seven additions give the array of these values with
  eight cells, and the removals that follow run into the write outside the block.
\<close>

theorem int_array_tests:
  "test_int_array_print = Inr (0, [1, 2, 3, 4, 5, 6, 7]) \<and>
   test_int_array_find = Inr (-1) \<and> test_int_array_remove = Inl Write_oob"
  by code_simp

end
