(* ===== verification/Heap.thy ===== *)
theory Heap
  imports Int_Array
begin

text \<open>
  The array heap of Storage/linear/array/heap.c, on the array of \<open>Int_Array\<close>: the index functions
  and the two shift operations.  \<open>heap_add\<close> has an empty body in the source, and the other
  operations are declarations only.
\<close>

section \<open>Indices\<close>

definition create_heap :: "bool \<Rightarrow> bool \<Rightarrow> int \<Rightarrow> int_array option" where
  "create_heap ok1 ok2 n = int_array_new ok1 ok2 n"

definition heap_capacity :: "int_array option \<Rightarrow> int" where
  "heap_capacity heap = (case heap of None \<Rightarrow> 0 | Some h \<Rightarrow> capacity h)"

definition heap_size :: "int_array option \<Rightarrow> int" where
  "heap_size heap = (case heap of None \<Rightarrow> 0 | Some h \<Rightarrow> asize h)"

definition left_node_index :: "int_array option \<Rightarrow> int \<Rightarrow> int c" where
  "left_node_index heap node_index =
     (case heap of None \<Rightarrow> Inr (-1)
      | Some h \<Rightarrow> if node_index < 0 then Inr (-1)
          else cbind (chk (2 * node_index)) (\<lambda>d. cbind (chk (d + 1)) (\<lambda>left_index.
            if left_index < asize h then Inr left_index else Inr (-1))))"

definition right_node_index :: "int_array option \<Rightarrow> int \<Rightarrow> int c" where
  "right_node_index heap node_index =
     (case heap of None \<Rightarrow> Inr (-1)
      | Some h \<Rightarrow> if node_index < 0 then Inr (-1)
          else cbind (chk (2 * node_index)) (\<lambda>d. cbind (chk (d + 2)) (\<lambda>right_index.
            if right_index < asize h then Inr right_index else Inr (-1))))"

definition parent_node_index :: "int_array option \<Rightarrow> int \<Rightarrow> int c" where
  "parent_node_index heap node_index =
     (if heap = None \<or> node_index \<le> 0 then Inr (-1) else cdiv (node_index - 1) 2)"

section \<open>Shifting\<close>

text \<open>The three statements that exchange two cells through their product.\<close>

definition mul_swap :: "ints option \<Rightarrow> int \<Rightarrow> int \<Rightarrow> ints option c" where
  "mul_swap a i j =
     cbind (ldi a i) (\<lambda>x. cbind (ldi a j) (\<lambda>y. cbind (chk (x * y)) (\<lambda>p.
     cbind (sti a i p) (\<lambda>a.
     cbind (ldi a i) (\<lambda>u. cbind (ldi a j) (\<lambda>v. cbind (cdiv u v) (\<lambda>q.
     cbind (sti a j q) (\<lambda>a.
     cbind (ldi a i) (\<lambda>u. cbind (ldi a j) (\<lambda>v. cbind (cdiv u v) (\<lambda>q.
     sti a i q)))))))))))"

definition heap_shift_up :: "int_array option \<Rightarrow> int \<Rightarrow> (int \<times> int_array option) c" where
  "heap_shift_up heap node_index =
     (case heap of None \<Rightarrow> Inr (-1, None)
      | Some h \<Rightarrow> cbind (parent_node_index heap node_index) (\<lambda>parent_index.
          if parent_index \<ge> 0 then
            cbind (ldi (arr h) node_index) (\<lambda>x. cbind (ldi (arr h) parent_index) (\<lambda>y.
              if x < y then
                cbind (mul_swap (arr h) node_index parent_index) (\<lambda>a.
                  Inr (parent_index, Some (h\<lparr>arr := a\<rparr>)))
              else Inr (-1, heap)))
          else Inr (-1, heap)))"

text \<open>One of the two if statements of \<open>heap_shift_down\<close>; the result is \<open>ret\<close> and the array.\<close>

definition shift_down_step :: "int_array \<Rightarrow> int \<Rightarrow> int \<Rightarrow> int \<Rightarrow> (int \<times> int_array) c" where
  "shift_down_step h node_index child_index ret =
     (if child_index < asize h then
        cbind (ldi (arr h) node_index) (\<lambda>x. cbind (ldi (arr h) child_index) (\<lambda>y.
          if x > y then
            cbind (mul_swap (arr h) node_index child_index) (\<lambda>a. Inr (child_index, h\<lparr>arr := a\<rparr>))
          else Inr (ret, h)))
      else Inr (ret, h))"

definition heap_shift_down :: "int_array option \<Rightarrow> int \<Rightarrow> (int \<times> int_array option) c" where
  "heap_shift_down heap node_index =
     (case heap of None \<Rightarrow> Inr (-1, None)
      | Some h \<Rightarrow>
          cbind (left_node_index heap node_index) (\<lambda>child_index.
          cbind (shift_down_step h node_index child_index (-1)) (\<lambda>(ret, h').
          cbind (right_node_index (Some h') node_index) (\<lambda>child_index.
          cbind (shift_down_step h' ret child_index ret) (\<lambda>(ret, h').
            Inr (ret, Some h'))))))"

section \<open>Properties\<close>

lemma chk_iff: "chk x = Inr y \<longleftrightarrow> y = x \<and> in_int x"
  by (auto simp: chk_def in_int_def)

lemma sgn_abs_div: "(y :: int) \<noteq> 0 \<Longrightarrow> sgn (x * y) * sgn y * (\<bar>x * y\<bar> div \<bar>y\<bar>) = x"
  by (simp add: sgn_mult abs_mult mult.commute mult.left_commute flip: mult.assoc) (simp add: abs_mult_sgn)

lemma cdiv_product: "y \<noteq> 0 \<Longrightarrow> in_int x \<Longrightarrow> cdiv (x * y) y = Inr x"
  by (simp add: cdiv_def sgn_abs_div)

lemma mul_swap_ok:
  assumes "i < length m" "j < length m" "i \<noteq> j" "m ! i = Some x" "m ! j = Some y"
    and "x \<noteq> 0" "y \<noteq> 0" "in_int x" "in_int y" "in_int (x * y)"
  shows "mul_swap (Some m) (int i) (int j) = Inr (Some (m[i := Some y, j := Some x]))"
proof -
  have "cdiv (x * y) x = Inr y" using cdiv_product[of x y] assms by (simp add: mult.commute)
  moreover have "cdiv (x * y) y = Inr x" using assms by (simp add: cdiv_product)
  ultimately show ?thesis
    using assms by (simp add: mul_swap_def ldi_Some sti_Some list_update_swap[of i j])
qed

lemma mul_swap_zero:
  assumes "i < length m" "j < length m" "i \<noteq> j" "m ! i = Some x" "m ! j = Some y"
    and "x = 0 \<or> y = 0" and "in_int x"
  shows "mul_swap (Some m) (int i) (int j) = Inl Div_zero"
  using assms
  by (cases "y = 0") (auto simp: mul_swap_def ldi_Some sti_Some cdiv_def in_int_def int_min_def int_max_def chk_def)

text \<open>
  heap_shift_up compares a node with its parent, the node at half its index: it returns -1
  and changes nothing when they are in order, exchanges them and returns the index of the parent
  when they are not and the product of the two values fits an int; a zero among the two makes it
  divide by zero and a larger product overflows.
\<close>

theorem heap_shift_up_behaviour:
  assumes "0 < i" and "i < length m" and "arr h = Some m" and "m ! i = Some x" and "m ! ((i - 1) div 2) = Some y"
    and "in_int (int i)" and "in_int x" and "in_int y"
  shows "heap_shift_up (Some h) (int i) =
    (if y \<le> x then Inr (-1, Some h)
     else if \<not> in_int (x * y) then Inl Signed_overflow
     else if x = 0 \<or> y = 0 then Inl Div_zero
     else Inr (int ((i - 1) div 2), Some (h\<lparr>arr := Some (m[i := Some y, (i - 1) div 2 := Some x])\<rparr>)))"
proof -
  let ?p = "(i - 1) div 2"
  have p: "?p < length m" "i \<noteq> ?p" using assms(1,2) by linarith+
  have "int i - 1 = int (i - 1)" using assms(1) by simp
  moreover have "in_int (int ?p)"
    using assms(1,6) unfolding in_int_def int_min_def int_max_def by linarith
  ultimately have "parent_node_index (Some h) (int i) = Inr (int ?p)"
    using assms(1) by (simp add: parent_node_index_def cdiv_def sgn_if zdiv_int) (auto simp: in_int_def chk_def int_min_def)
  moreover have "\<not> in_int (x * y) \<Longrightarrow> mul_swap (Some m) (int i) (int ?p) = Inl Signed_overflow"
    using p assms by (simp add: mul_swap_def ldi_Some)
  moreover have "ldi (Some m) (int i) = Inr x" "ldi (Some m) (int ?p) = Inr y"
    using p assms by (simp_all add: ldi_Some)
  ultimately show ?thesis
    using p assms mul_swap_ok[of i m ?p x y] mul_swap_zero[of i m ?p x y]
    by (auto simp: heap_shift_up_def simp del: of_nat_div)
qed

theorem heap_shift_up_behaviour_witness:
  "heap_shift_up (Some \<lparr>arr = Some [Some 9, Some 4], asize = 2, capacity = 2\<rparr>) 1 =
    Inr (0, Some \<lparr>arr = Some [Some 4, Some 9], asize = 2, capacity = 2\<rparr>)"
  using heap_shift_up_behaviour[of 1 "[Some 9, Some 4]" "\<lparr>arr = Some [Some 9, Some 4], asize = 2, capacity = 2\<rparr>" 4 9]
  by (simp add: in_int_def int_min_def int_max_def)

lemma left_index_eq:
  "in_int (2 * int i + 1) \<Longrightarrow>
   left_node_index (Some h) (int i) = Inr (if 2 * int i + 1 < asize h then 2 * int i + 1 else -1)"
  by (simp add: left_node_index_def) (simp add: chk_def in_int_def int_min_def)

lemma right_index_eq:
  "in_int (2 * int i + 2) \<Longrightarrow>
   right_node_index (Some h) (int i) = Inr (if 2 * int i + 2 < asize h then 2 * int i + 2 else -1)"
  by (simp add: right_node_index_def) (simp add: chk_def in_int_def int_min_def)

text \<open>
  heap_shift_down reads the cell before the array whenever there is nothing to do: when the
  node has no left child its index is -1 and passes the comparison with the size, and when the
  left child is not smaller the index of the node itself is replaced by -1 before the right child
  is looked at.
\<close>

theorem heap_shift_down_reads_before_array:
  assumes "i < length m" and "arr h = Some m" and "asize h = int (length m)" and "m ! i = Some x"
    and "in_int (2 * int i + 2)"
    and "2 * i + 1 < length m \<Longrightarrow> \<exists>y. m ! (2 * i + 1) = Some y \<and> x \<le> y"
  shows "heap_shift_down (Some h) (int i) = Inl Read_oob"
proof -
  have in1: "in_int (2 * int i + 1)" using assms(5) by (simp add: in_int_def int_min_def)
  have x: "ldi (arr h) (int i) = Inr x" using assms by (simp add: ldi_Some)
  have neg: "ldi (arr h) (-1) = Inl Read_oob" using assms(2) by (simp add: ldi_neg)
  show ?thesis
  proof (cases "2 * i + 1 < length m")
    case False
    then have "left_node_index (Some h) (int i) = Inr (-1)"
      using left_index_eq[OF in1, of h] assms(3) by simp
    then show ?thesis using x neg assms(3) by (simp add: heap_shift_down_def shift_down_step_def)
  next
    case True
    then obtain y where y: "m ! (2 * i + 1) = Some y" "x \<le> y" using assms(6) by blast
    have "left_node_index (Some h) (int i) = Inr (int (2 * i + 1))"
      using left_index_eq[OF in1, of h] assms(3) True by simp
    moreover have "ldi (arr h) (int (2 * i + 1)) = Inr y" unfolding assms(2)
      by (rule ldi_Some) (use True y in \<open>simp_all only: nat_int of_nat_0_le_iff\<close>)
    ultimately have first: "cbind (left_node_index (Some h) (int i)) (\<lambda>c. shift_down_step h (int i) c (-1)) = Inr (-1, h)"
      using x y(2) by (simp add: shift_down_step_def)
    obtain r where r: "right_node_index (Some h) (int i) = Inr r" "r < asize h"
      using right_index_eq[OF assms(5), of h] assms(1,3) by (auto split: if_splits)
    have "heap_shift_down (Some h) (int i) =
        cbind (cbind (left_node_index (Some h) (int i)) (\<lambda>c. shift_down_step h (int i) c (-1))) (\<lambda>(ret, h').
          cbind (right_node_index (Some h') (int i)) (\<lambda>child_index.
          cbind (shift_down_step h' ret child_index ret) (\<lambda>(ret, h'). Inr (ret, Some h'))))"
      by (simp add: heap_shift_down_def cbind_assoc)
    also have "\<dots> = Inl Read_oob" unfolding first using r neg by (simp add: shift_down_step_def)
    finally show ?thesis .
  qed
qed

theorem heap_shift_down_reads_before_array_witness:
  "heap_shift_down (Some \<lparr>arr = Some [Some 4, Some 9, Some 8], asize = 3, capacity = 3\<rparr>) 0 = Inl Read_oob"
  using heap_shift_down_reads_before_array[of 0 "[Some 4, Some 9, Some 8]"
      "\<lparr>arr = Some [Some 4, Some 9, Some 8], asize = 3, capacity = 3\<rparr>" 4]
  by (simp add: in_int_def int_min_def int_max_def)

end
