(* ===== verification/Linklist.thy ===== *)
theory Linklist
  imports Sequence
begin

text \<open>
  The linked list of Storage/linear/linklist (linklist.c, storage.c, main.c), over an explicit
  heap of nodes and of the int objects their data pointers refer to.  Addresses are natural
  numbers, 0 is the null pointer; malloc gives the next address that was never used, or fails as
  its argument says.  A field that was never written is \<open>None\<close>.  The loops follow next pointers
  and need not end on a cyclic list, so they are partial.
\<close>

section \<open>State\<close>

record node =
  ndata :: "nat option"
  nsize :: "int option"
  nnext :: nat

text \<open>
  The heap, the fields of the one \<open>struct storage\<close> (\<open>lassist\<close> tells whether \<open>assist\<close> points to the
  global \<open>head\<close>), and the pointer inside that global.
\<close>

record store =
  nodes :: "nat \<Rightarrow> node option"
  vals :: "nat \<Rightarrow> int option"
  brk :: nat
  lstorage :: nat
  lcapacity :: int
  lsize :: int
  lassist :: bool
  ahead :: nat

definition malloc :: "bool \<Rightarrow> store \<Rightarrow> nat \<times> store" where
  "malloc ok s = (if ok then (brk s, s\<lparr>brk := Suc (brk s)\<rparr>) else (0, s))"

definition get_node :: "store \<Rightarrow> nat \<Rightarrow> node c" where
  "get_node s p = (if p = 0 then Inl Null_deref
     else case nodes s p of None \<Rightarrow> Inl Bad_free | Some n \<Rightarrow> Inr n)"

definition set_node :: "nat \<Rightarrow> node \<Rightarrow> store \<Rightarrow> store" where
  "set_node p n s = s\<lparr>nodes := (nodes s)(p \<mapsto> n)\<rparr>"

text \<open>\<open>*(int* )node->data\<close>\<close>

definition get_val :: "store \<Rightarrow> nat option \<Rightarrow> int c" where
  "get_val s dp = (case dp of None \<Rightarrow> Inl Uninit
     | Some d \<Rightarrow> if d = 0 then Inl Null_deref
         else case vals s d of None \<Rightarrow> Inl Bad_free | Some x \<Rightarrow> Inr x)"

section \<open>Operations\<close>

definition storage :: "nat \<Rightarrow> bool \<Rightarrow> int \<Rightarrow> int \<Rightarrow> store \<Rightarrow> int \<times> store" where
  "storage d assist cap n s = (0, s\<lparr>lstorage := d, lcapacity := cap, lsize := n, lassist := assist\<rparr>)"

text \<open>The fields \<open>data\<close> and \<open>size\<close> of a node that is allocated here stay indeterminate.\<close>

definition linklist_init :: "bool \<Rightarrow> bool \<Rightarrow> nat \<Rightarrow> store \<Rightarrow> (int \<times> store) c" where
  "linklist_init ok list node s =
     (if \<not> list then Inr (-1, s)
      else
        let (node', s') = (if node = 0
               then (let (a, s1) = malloc ok s
                     in (a, if a = 0 then s1 else set_node a \<lparr>ndata = None, nsize = None, nnext = 0\<rparr> s1))
               else (node, s))
        in if node' = 0 then Inr (-1, s')
           else cbind (get_node s' node') (\<lambda>n.
             let s'' = (set_node node' (n\<lparr>nnext := 0\<rparr>) s')\<lparr>lstorage := node'\<rparr>
             in if lassist s'' then Inr (0, s''\<lparr>ahead := node'\<rparr>) else Inl Null_deref))"

text \<open>The value is stored before the two null tests.\<close>

definition node_create :: "bool \<Rightarrow> bool \<Rightarrow> int \<Rightarrow> store \<Rightarrow> (nat \<times> store) c" where
  "node_create ok1 ok2 val s =
     (let (node, s1) = malloc ok1 s; (d, s2) = malloc ok2 s1 in
      if d = 0 then Inl Null_deref
      else
        let s3 = s2\<lparr>vals := (vals s2)(d \<mapsto> val)\<rparr> in
        if node \<noteq> 0 then Inr (node, set_node node \<lparr>ndata = Some d, nsize = Some 4, nnext = 0\<rparr> s3)
        else Inr (0, s3\<lparr>vals := (vals s3)(d := None)\<rparr>))"

definition node_destory :: "nat \<Rightarrow> store \<Rightarrow> (int \<times> store) c" where
  "node_destory node s =
     (if node = 0 then Inr (0, s)
      else cbind (get_node s node) (\<lambda>n.
        case ndata n of None \<Rightarrow> Inl Uninit
        | Some d \<Rightarrow> if d = 0 then Inr (0, s)
            else if vals s d = None then Inl Bad_free
            else Inr (0, set_node node (n\<lparr>nsize := Some 0\<rparr>) (s\<lparr>vals := (vals s)(d := None)\<rparr>))))"

partial_function (option) destory_loop :: "nat \<Rightarrow> store \<Rightarrow> store c option" where
  "destory_loop node s =
     (if node = 0 then Some (Inr s)
      else case get_node s node of Inl e \<Rightarrow> Some (Inl e)
        | Inr n \<Rightarrow> (case node_destory node s of Inl e \<Rightarrow> Some (Inl e)
          | Inr (_, s') \<Rightarrow> destory_loop (nnext n) (s'\<lparr>nodes := (nodes s')(node := None)\<rparr>)))"

definition linklist_destory :: "bool \<Rightarrow> store \<Rightarrow> (int \<times> store) c option" where
  "linklist_destory list s =
     (if \<not> list then Some (Inr (-1, s))
      else obind (destory_loop (lstorage s) s) (\<lambda>s'.
        if lassist s' then Some (Inr (0, s'\<lparr>ahead := 0, lassist := False\<rparr>))
        else Some (Inl Null_deref)))"

definition linklist_compare :: "store \<Rightarrow> nat \<Rightarrow> nat \<Rightarrow> int c" where
  "linklist_compare s object1 object2 =
     cbind (get_node s object1) (\<lambda>n1. cbind (get_node s object2) (\<lambda>n2.
     cbind (get_val s (ndata n1)) (\<lambda>val1. cbind (get_val s (ndata n2)) (\<lambda>val2.
     cbind (chk (val1 - val2)) (\<lambda>d. if d > 0 then Inr 0 else Inr (-1))))))"

definition linklist_sort :: "store \<Rightarrow> int \<times> store" where
  "linklist_sort s = (0, s)"

definition linklist_clone :: "store \<Rightarrow> int \<times> store" where
  "linklist_clone s = (0, s)"

definition linklist_find :: "store \<Rightarrow> int \<times> store" where
  "linklist_find s = (0, s)"

definition linklist_modify :: "store \<Rightarrow> int \<times> store" where
  "linklist_modify s = (0, s)"

definition linklist_add :: "bool \<Rightarrow> bool \<Rightarrow> nat \<Rightarrow> int \<Rightarrow> store \<Rightarrow> (int \<times> store) c" where
  "linklist_add ok1 ok2 pre_node val s =
     (if pre_node = 0 then Inr (-1, s)
      else cbind (node_create ok1 ok2 val s) (\<lambda>(node, s1).
        if node = 0 then Inr (-1, s1)
        else cbind (get_node s1 pre_node) (\<lambda>p.
             let temp = nnext p; s2 = set_node pre_node (p\<lparr>nnext := node\<rparr>) s1 in
             cbind (get_node s2 node) (\<lambda>n. Inr (0, set_node node (n\<lparr>nnext := temp\<rparr>) s2)))))"

partial_function (option) remove_loop :: "nat \<Rightarrow> nat \<Rightarrow> nat \<Rightarrow> store \<Rightarrow> store c option" where
  "remove_loop pre_node temp node s =
     (if temp = 0 then Some (Inr s)
      else case linklist_compare s temp node of Inl e \<Rightarrow> Some (Inl e)
        | Inr r \<Rightarrow> (case get_node s temp of Inl e \<Rightarrow> Some (Inl e)
          | Inr t \<Rightarrow>
            if r = 0 then
              (case get_node s pre_node of Inl e \<Rightarrow> Some (Inl e)
               | Inr p \<Rightarrow>
                  let s' = set_node pre_node (p\<lparr>nnext := nnext t\<rparr>) s
                  in Some (Inr (s'\<lparr>nodes := (nodes s')(temp := None)\<rparr>)))
            else remove_loop temp (nnext t) node s))"

definition linklist_remove :: "nat \<Rightarrow> nat \<Rightarrow> store \<Rightarrow> (int \<times> store) c option" where
  "linklist_remove pre_node node s =
     (if pre_node = 0 \<and> node = 0 then Some (Inr (-1, s))
      else case get_node s pre_node of Inl e \<Rightarrow> Some (Inl e)
        | Inr p \<Rightarrow> obind (remove_loop pre_node (nnext p) node s) (\<lambda>s'. Some (Inr (0, s'))))"

text \<open>The last argument collects the values printed, in order.\<close>

partial_function (option) print_nodes :: "store \<Rightarrow> nat \<Rightarrow> int list \<Rightarrow> int list c option" where
  "print_nodes s head out =
     (case get_node s head of Inl e \<Rightarrow> Some (Inl e)
      | Inr h \<Rightarrow>
        if nnext h = 0 then Some (Inr out)
        else case cbind (get_node s (nnext h)) (\<lambda>n. get_val s (ndata n)) of Inl e \<Rightarrow> Some (Inl e)
          | Inr v \<Rightarrow> print_nodes s (nnext h) (out @ [v]))"

definition linklist_print :: "bool \<Rightarrow> store \<Rightarrow> (int \<times> int list) c option" where
  "linklist_print list s =
     (if \<not> list then Some (Inr (-1, []))
      else if lassist s \<and> ahead s \<noteq> 0
        then obind (print_nodes s (ahead s) []) (\<lambda>vs. Some (Inr (0, vs)))
        else Some (Inr (-1, [])))"

section \<open>The program of main.c\<close>

definition initial_store :: store where
  "initial_store = \<lparr>nodes = (\<lambda>_. None), vals = (\<lambda>_. None), brk = 1, lstorage = 0,
     lcapacity = 0, lsize = 0, lassist = False, ahead = 0\<rparr>"

text \<open>Up to the call of print, with every malloc succeeding; the results of the calls are dropped.\<close>

definition main_build :: "store c" where
  "main_build =
     cbind (linklist_init True True 0 (snd (storage 0 True 0 0 initial_store))) (\<lambda>(_, s).
     cbind (linklist_add True True (lstorage s) 0 s) (\<lambda>(_, s).
     cbind (linklist_add True True (lstorage s) 1 s) (\<lambda>(_, s).
     cbind (linklist_add True True (ahead s) 2 s) (\<lambda>(_, s).
     cbind (linklist_add True True (ahead s) 3 s) (\<lambda>(_, s). Inr s)))))"

definition main_print :: "(int \<times> int list) c option" where
  "main_print = obind (Some main_build) (linklist_print True)"

definition main_destory :: "int c option" where
  "main_destory = obind (obind (Some main_build) (linklist_destory True)) (\<lambda>(r, _). Some (Inr r))"

section \<open>Chains of nodes\<close>

definition addrs :: "(nat \<times> int) list \<Rightarrow> nat set" where
  "addrs r = fst ` set r"

lemma addrs_simps [simp]:
  "addrs [] = {}" "addrs ((a, x) # r) = insert a (addrs r)" "addrs (r @ r') = addrs r \<union> addrs r'"
  by (auto simp: addrs_def)

lemma addrs_take_drop: "addrs (take i r) \<subseteq> addrs r" "addrs (drop i r) \<subseteq> addrs r"
  by (auto simp: addrs_def dest: in_set_takeD in_set_dropD)

text \<open>\<open>seg s p r\<close>: from \<open>p\<close> on the list has the nodes and values of \<open>r\<close> and then ends.\<close>

fun seg :: "store \<Rightarrow> nat \<Rightarrow> (nat \<times> int) list \<Rightarrow> bool" where
  "seg s p [] \<longleftrightarrow> p = 0"
| "seg s p ((a, x) # r) \<longleftrightarrow> p = a \<and> a \<noteq> 0 \<and> a \<notin> addrs r \<and>
     (\<exists>n d. nodes s a = Some n \<and> ndata n = Some d \<and> d \<noteq> 0 \<and> vals s d = Some x \<and> seg s (nnext n) r)"

text \<open>A node followed by such a list.\<close>

definition chain :: "store \<Rightarrow> nat \<Rightarrow> (nat \<times> int) list \<Rightarrow> bool" where
  "chain s p r \<longleftrightarrow> p \<noteq> 0 \<and> p \<notin> addrs r \<and> (\<exists>n. nodes s p = Some n \<and> seg s (nnext n) r)"

lemma chain_Cons:
  "chain s p ((a, x) # r) \<longleftrightarrow> p \<noteq> 0 \<and> p \<noteq> a \<and> p \<notin> addrs r \<and> chain s a r \<and>
     (\<exists>n m d. nodes s p = Some n \<and> nnext n = a \<and> nodes s a = Some m \<and> ndata m = Some d \<and> d \<noteq> 0 \<and> vals s d = Some x)"
  by (auto simp: chain_def)

lemma seg_frame:
  "seg s p r \<Longrightarrow> (\<And>a. a \<in> addrs r \<Longrightarrow> nodes s' a = nodes s a) \<Longrightarrow>
   (\<And>d. vals s d \<noteq> None \<Longrightarrow> vals s' d = vals s d) \<Longrightarrow> seg s' p r"
proof (induction r arbitrary: p)
  case (Cons ax r)
  obtain a x where ax: "ax = (a, x)" by fastforce
  from Cons.prems(1) obtain n d where n: "nodes s a = Some n" "ndata n = Some d" "vals s d = Some x" "seg s (nnext n) r"
    unfolding ax by auto
  have "seg s' (nnext n) r" using Cons.prems by (intro Cons.IH[OF n(4)]) (auto simp: ax)
  with Cons.prems n show ?case by (auto simp: ax intro!: exI[of _ n] exI[of _ d])
qed simp

lemma seg_nodes: "seg s p r \<Longrightarrow> a \<in> addrs r \<Longrightarrow> nodes s a \<noteq> None"
  by (induction r arbitrary: p) auto

lemma chain_node: "chain s p r \<Longrightarrow> \<exists>n. get_node s p = Inr n \<and> nodes s p = Some n"
  by (auto simp: chain_def get_node_def)

primrec nth_node :: "store \<Rightarrow> nat \<Rightarrow> nat \<Rightarrow> nat" where
  "nth_node s p 0 = p"
| "nth_node s p (Suc i) = (case nodes s p of None \<Rightarrow> 0 | Some n \<Rightarrow> nth_node s (nnext n) i)"

lemma nth_node_chain:
  "chain s p r \<Longrightarrow> i \<le> length r \<Longrightarrow> nth_node s p i \<in> insert p (addrs r) \<and> nth_node s p i \<noteq> 0 \<and>
     nodes s (nth_node s p i) \<noteq> None"
proof (induction i arbitrary: p r)
  case 0
  then show ?case by (auto simp: chain_def)
next
  case (Suc i)
  then obtain a x r' where r: "r = (a, x) # r'" by (cases r) auto
  with Suc.prems have "chain s a r'" "\<exists>n. nodes s p = Some n \<and> nnext n = a"
    by (auto simp: chain_Cons)
  with Suc.IH[of a r'] Suc.prems r show ?case by auto
qed

text \<open>The heap after a node for \<open>v\<close> was put behind the node \<open>q\<close>.\<close>

definition spliced :: "store \<Rightarrow> nat \<Rightarrow> nat \<Rightarrow> nat \<Rightarrow> int \<Rightarrow> store \<Rightarrow> bool" where
  "spliced s q a d v s' \<longleftrightarrow> (\<exists>n. nodes s q = Some n \<and>
     nodes s' = (nodes s)(q \<mapsto> n\<lparr>nnext := a\<rparr>, a \<mapsto> \<lparr>ndata = Some d, nsize = Some 4, nnext = nnext n\<rparr>) \<and>
     vals s' = (vals s)(d \<mapsto> v))"

lemma spliced_chain:
  "chain s p r \<Longrightarrow> i \<le> length r \<Longrightarrow> spliced s (nth_node s p i) a d v s' \<Longrightarrow>
   nodes s a = None \<Longrightarrow> vals s d = None \<Longrightarrow> a \<noteq> 0 \<Longrightarrow> d \<noteq> 0 \<Longrightarrow>
   chain s' p (take i r @ (a, v) # drop i r)"
proof (induction i arbitrary: p r)
  case 0
  then obtain n where n: "nodes s p = Some n" "seg s (nnext n) r" "p \<notin> addrs r"
    "nodes s' = (nodes s)(p \<mapsto> n\<lparr>nnext := a\<rparr>, a \<mapsto> \<lparr>ndata = Some d, nsize = Some 4, nnext = nnext n\<rparr>)"
    "vals s' = (vals s)(d \<mapsto> v)"
    by (auto simp: chain_def spliced_def)
  have a: "a \<notin> addrs r"
    using seg_nodes[OF n(2), of a] 0(4) by blast
  have "seg s' (nnext n) r"
    using a n 0 by (intro seg_frame[OF n(2)]) auto
  with 0 n a show ?case by (auto simp: chain_def)
next
  case (Suc i)
  then obtain b x r' where r: "r = (b, x) # r'" by (cases r) auto
  with Suc.prems obtain n m e where c: "chain s b r'" "nodes s p = Some n" "nnext n = b"
    "nodes s b = Some m" "ndata m = Some e" "e \<noteq> 0" "vals s e = Some x" "p \<noteq> 0" "p \<noteq> b" "p \<notin> addrs r'"
    by (auto simp: chain_Cons)
  have sp: "spliced s (nth_node s b i) a d v s'" using Suc.prems(3) c by simp
  have IH: "chain s' b (take i r' @ (a, v) # drop i r')"
    using Suc.prems r by (intro Suc.IH[OF c(1) _ sp]) auto
  have q: "nth_node s b i \<in> insert b (addrs r')" using nth_node_chain[OF c(1), of i] Suc.prems r by simp
  then have "p \<noteq> nth_node s b i" using c by auto
  moreover have "p \<noteq> a" "b \<noteq> a" using c Suc.prems(4) by auto
  ultimately have "nodes s' p = Some n" "\<exists>m'. nodes s' b = Some m' \<and> ndata m' = Some e"
    "vals s' e = Some x"
    using sp c Suc.prems(4,5) by (auto simp: spliced_def)
  moreover have "p \<notin> addrs (take i r' @ (a, v) # drop i r')"
    using c(10) \<open>p \<noteq> a\<close> addrs_take_drop[of i r'] by auto
  ultimately show ?case
    using IH c r by (auto simp: chain_Cons)
qed

section \<open>What the operations do to a chain\<close>

lemma print_nodes_chain:
  "chain s p r \<Longrightarrow> print_nodes s p out = Some (Inr (out @ map snd r))"
proof (induction r arbitrary: p out)
  case Nil
  then show ?case by (subst print_nodes.simps) (auto simp: chain_def get_node_def)
next
  case (Cons ax r)
  obtain a x where ax: "ax = (a, x)" by fastforce
  with Cons.prems obtain n m d where c: "chain s a r" "p \<noteq> 0" "nodes s p = Some n" "nnext n = a"
    "nodes s a = Some m" "ndata m = Some d" "d \<noteq> 0" "vals s d = Some x"
    by (auto simp: chain_Cons)
  have "a \<noteq> 0" using c(1) by (simp add: chain_def)
  with c Cons.IH[OF c(1), of "out @ [x]"] show ?case
    by (subst print_nodes.simps) (simp add: get_node_def get_val_def ax)
qed

definition fresh_from :: "store \<Rightarrow> bool" where
  "fresh_from s \<longleftrightarrow> 0 < brk s \<and> (\<forall>a \<ge> brk s. nodes s a = None \<and> vals s a = None)"

lemma linklist_add_spliced:
  assumes "fresh_from s" and "nodes s q = Some n" and "q \<noteq> 0"
  shows "\<exists>s'. linklist_add True True q v s = Inr (0, s') \<and> spliced s q (brk s) (Suc (brk s)) v s' \<and>
    fresh_from s' \<and> ahead s' = ahead s \<and> lassist s' = lassist s \<and> lstorage s' = lstorage s"
proof -
  have "q < brk s" using assms(1,2) by (metis fresh_from_def not_less option.distinct(1))
  with assms show ?thesis
    by (auto simp: linklist_add_def node_create_def malloc_def Let_def get_node_def set_node_def
        spliced_def fresh_from_def fun_upd_twist)
qed

lemma get_val_Some: "0 < d \<Longrightarrow> vals s d = Some x \<Longrightarrow> get_val s (Some d) = Inr x"
  by (simp add: get_val_def)

lemma compare_eq:
  assumes "nodes s a = Some m" and "a \<noteq> 0" and "ndata m = Some d" and "d \<noteq> 0" and "vals s d = Some x"
    and "get_node s q = Inr nq" and "get_val s (ndata nq) = Inr v" and "in_int (x - v)"
  shows "linklist_compare s a q = Inr (if v < x then 0 else -1)"
  using assms by (simp add: linklist_compare_def get_node_def[of s a] get_val_Some)

text \<open>What a removal leaves: the first value greater than \<open>v\<close> is taken out.\<close>

fun drop_greater :: "int \<Rightarrow> (nat \<times> int) list \<Rightarrow> (nat \<times> int) list" where
  "drop_greater v [] = []"
| "drop_greater v ((a, x) # r) = (if v < x then r else (a, x) # drop_greater v r)"

lemma drop_greater_addrs: "addrs (drop_greater v r) \<subseteq> addrs r"
  by (induction v r rule: drop_greater.induct) auto

lemma remove_loop_chain:
  assumes "get_node s q = Inr nq" and "get_val s (ndata nq) = Inr v"
  shows "chain s p r \<Longrightarrow> nodes s p = Some n \<Longrightarrow> (\<And>x. x \<in> snd ` set r \<Longrightarrow> in_int (x - v)) \<Longrightarrow>
    \<exists>s' n'. remove_loop p (nnext n) q s = Some (Inr s') \<and> chain s' p (drop_greater v r) \<and>
      nodes s' p = Some n' \<and> ndata n' = ndata n \<and> (\<forall>c. c \<notin> insert p (addrs r) \<longrightarrow> nodes s' c = nodes s c) \<and>
      vals s' = vals s \<and> ahead s' = ahead s \<and> lassist s' = lassist s"
proof (induction r arbitrary: p n)
  case Nil
  then show ?case by (subst remove_loop.simps) (auto simp: chain_def)
next
  case (Cons ax r)
  obtain a x where ax: "ax = (a, x)" by fastforce
  with Cons.prems(1,2) obtain m d where c: "chain s a r" "p \<noteq> 0" "p \<noteq> a" "p \<notin> addrs r" "nnext n = a"
    "nodes s a = Some m" "ndata m = Some d" "d \<noteq> 0" "vals s d = Some x"
    by (auto simp: chain_Cons)
  have a: "a \<noteq> 0" "a \<notin> addrs r" "seg s (nnext m) r" using c(1,6) by (auto simp: chain_def)
  have "in_int (x - v)" using Cons.prems(3)[of x] by (simp add: ax)
  note cmp = compare_eq[OF c(6) a(1) c(7,8,9) assms this]
  show ?case
  proof (cases "v < x")
    case True
    let ?s = "(set_node p (n\<lparr>nnext := nnext m\<rparr>) s)\<lparr>nodes := (nodes (set_node p (n\<lparr>nnext := nnext m\<rparr>) s))(a := None)\<rparr>"
    have "remove_loop p (nnext n) q s = Some (Inr ?s)"
      using True cmp a(1) c Cons.prems(2) by (subst remove_loop.simps) (simp add: get_node_def Let_def)
    moreover have "seg ?s (nnext m) r"
      using a c by (intro seg_frame[OF a(3)]) (auto simp: set_node_def)
    then have "chain ?s p r" using c by (auto simp: chain_def set_node_def)
    ultimately show ?thesis using True c by (auto simp: ax set_node_def)
  next
    case False
    obtain s' m' where IH: "remove_loop a (nnext m) q s = Some (Inr s')" "chain s' a (drop_greater v r)"
      "nodes s' a = Some m'" "ndata m' = ndata m" "\<forall>c. c \<notin> insert a (addrs r) \<longrightarrow> nodes s' c = nodes s c"
      "vals s' = vals s" "ahead s' = ahead s" "lassist s' = lassist s"
      using Cons.IH[OF c(1,6)] Cons.prems(3) by auto
    have "remove_loop p (nnext n) q s = remove_loop a (nnext m) q s"
      using False cmp a(1) c by (subst remove_loop.simps) (simp add: get_node_def)
    moreover have "nodes s' p = Some n" using IH(5) c Cons.prems(2) by auto
    moreover have "chain s' p ((a, x) # drop_greater v r)"
      using IH c a \<open>nodes s' p = Some n\<close> drop_greater_addrs[of v r] by (auto simp: chain_Cons)
    ultimately show ?thesis using IH False by (auto simp: ax)
  qed
qed

section \<open>The list as a sequence\<close>

definition ll_wf :: "store \<Rightarrow> bool" where
  "ll_wf s \<longleftrightarrow> fresh_from s \<and> lassist s \<and> (\<exists>r. chain s (ahead s) r)"

text \<open>The contents are what \<open>linklist_print\<close> prints.\<close>

definition ll_elems :: "store \<Rightarrow> int list" where
  "ll_elems s = (case linklist_print True s of Some (Inr (_, vs)) \<Rightarrow> vs | _ \<Rightarrow> [])"

definition ll_insert :: "nat \<Rightarrow> int \<Rightarrow> store \<Rightarrow> (int \<times> store) c" where
  "ll_insert i v s = linklist_add True True (nth_node s (ahead s) i) v s"

lemma ll_elems_chain: "lassist s \<Longrightarrow> chain s (ahead s) r \<Longrightarrow> ll_elems s = map snd r"
  by (simp add: ll_elems_def linklist_print_def print_nodes_chain) (simp add: chain_def)

lemma ll_add_ok:
  assumes "ll_wf s" and "i \<le> length (ll_elems s)"
  shows "\<exists>s'. linklist_add True True (nth_node s (ahead s) i) v s = Inr (0, s') \<and> ll_wf s' \<and>
    ll_elems s' = insert_nth i v (ll_elems s)"
proof -
  from assms(1) obtain r where r: "fresh_from s" "lassist s" "chain s (ahead s) r"
    by (auto simp: ll_wf_def)
  then have el: "ll_elems s = map snd r" by (simp add: ll_elems_chain)
  with assms(2) have i: "i \<le> length r" by simp
  let ?q = "nth_node s (ahead s) i"
  obtain n where n: "nodes s ?q = Some n" "?q \<noteq> 0" using nth_node_chain[OF r(3) i] by auto
  from linklist_add_spliced[OF r(1) n, of v] obtain s' where
    s': "linklist_add True True ?q v s = Inr (0, s')" "spliced s ?q (brk s) (Suc (brk s)) v s'"
      "fresh_from s'" "ahead s' = ahead s" "lassist s' = lassist s" by blast
  have "chain s' (ahead s') (take i r @ (brk s, v) # drop i r)"
    using spliced_chain[OF r(3) i s'(2)] r(1) s'(4) by (simp add: fresh_from_def)
  with s' r(2) show ?thesis
    by (auto simp: ll_wf_def ll_elems_chain el insert_nth_def take_map drop_map)
qed

interpretation ll_seq: sequence ll_wf ll_elems "\<lambda>_ _. True" ll_insert
  by unfold_locales (use ll_add_ok in \<open>auto simp: ll_insert_def\<close>)

text \<open>
  linklist_add behind the i-th node of a well-formed list (the head node for 0) returns 0
  and inserts the value at position i; the list stays well-formed and linklist_print shows it.
\<close>

theorem linklist_add_inserts:
  assumes "ll_wf s" and "i \<le> length (ll_elems s)"
  shows "\<exists>s'. linklist_add True True (nth_node s (ahead s) i) v s = Inr (0, s') \<and> ll_wf s' \<and>
    ll_elems s' = insert_nth i v (ll_elems s)"
  using assms by (rule ll_add_ok)

definition one_list :: store where
  "one_list = \<lparr>nodes = [1 \<mapsto> \<lparr>ndata = None, nsize = None, nnext = 2\<rparr>, 2 \<mapsto> \<lparr>ndata = Some 3, nsize = Some 4, nnext = 0\<rparr>],
     vals = [3 \<mapsto> 7], brk = 4, lstorage = 1, lcapacity = 0, lsize = 0, lassist = True, ahead = 1\<rparr>"

lemma one_list: "ll_wf one_list" "ll_elems one_list = [7]"
proof -
  have c: "chain one_list (ahead one_list) [(2, 7)]" by (simp add: one_list_def chain_def)
  moreover have "fresh_from one_list" by (auto simp: one_list_def fresh_from_def)
  moreover have "lassist one_list" by (simp add: one_list_def)
  ultimately show "ll_wf one_list" "ll_elems one_list = [7]"
    unfolding ll_wf_def by (blast, simp add: ll_elems_chain[OF _ c])
qed

theorem linklist_add_inserts_witness:
  "\<exists>s'. linklist_add True True (nth_node one_list (ahead one_list) 1) 9 one_list = Inr (0, s') \<and> ll_wf s' \<and>
    ll_elems s' = [7, 9]"
  using linklist_add_inserts[of one_list 1 9] one_list by (simp add: insert_nth_def)

fun remove_greater :: "int \<Rightarrow> int list \<Rightarrow> int list" where
  "remove_greater v [] = []"
| "remove_greater v (x # xs) = (if v < x then xs else x # remove_greater v xs)"

lemma map_drop_greater: "map snd (drop_greater v r) = remove_greater v (map snd r)"
  by (induction v r rule: drop_greater.induct) auto

text \<open>
  linklist_remove with a node that holds v takes out the first value greater than v, not an
  equal one, because linklist_compare answers 0 for "greater"; the rest of the list stays.
\<close>

theorem linklist_remove_greater:
  assumes "ll_wf s" and "get_node s q = Inr nq" and "get_val s (ndata nq) = Inr v"
    and "\<forall>x\<in>set (ll_elems s). in_int (x - v)"
  shows "\<exists>s'. linklist_remove (ahead s) q s = Some (Inr (0, s')) \<and> ll_elems s' = remove_greater v (ll_elems s)"
proof -
  from assms(1) obtain r where r: "lassist s" "chain s (ahead s) r" by (auto simp: ll_wf_def)
  then have el: "ll_elems s = map snd r" by (simp add: ll_elems_chain)
  obtain n where n: "nodes s (ahead s) = Some n" "ahead s \<noteq> 0" using r(2) by (auto simp: chain_def)
  have "\<And>x. x \<in> snd ` set r \<Longrightarrow> in_int (x - v)" using assms(4) by (auto simp: el)
  from remove_loop_chain[OF assms(2,3) r(2) n(1) this] obtain s' where
    s': "remove_loop (ahead s) (nnext n) q s = Some (Inr s')" "chain s' (ahead s) (drop_greater v r)"
      "ahead s' = ahead s" "lassist s' = lassist s" by blast
  then have "ll_elems s' = remove_greater v (ll_elems s)"
    using r(1) by (simp add: ll_elems_chain el map_drop_greater)
  with s' n show ?thesis by (simp add: linklist_remove_def get_node_def)
qed

theorem linklist_remove_greater_witness:
  "\<exists>s'. linklist_remove (ahead one_list) 2 one_list = Some (Inr (0, s')) \<and> ll_elems s' = [7]"
  using linklist_remove_greater[of one_list 2 "\<lparr>ndata = Some 3, nsize = Some 4, nnext = 0\<rparr>" 7] one_list
  by (simp add: one_list_def get_node_def get_val_def in_int_def int_min_def int_max_def)

lemma destory_uninit:
  "lstorage s \<noteq> 0 \<Longrightarrow> nodes s (lstorage s) = Some n \<Longrightarrow> ndata n = None \<Longrightarrow>
     linklist_destory True s = Some (Inl Uninit)"
  by (simp add: linklist_destory_def destory_loop.simps get_node_def node_destory_def)

definition main_chain :: "(nat \<times> int) list" where
  "main_chain = [(8, 3), (6, 2), (4, 1), (2, 0)]"

lemmas store_ops = linklist_init_def storage_def initial_store_def linklist_add_def node_create_def
  malloc_def set_node_def get_node_def Let_def

lemma main_build_chain:
  "\<exists>s. main_build = Inr s \<and> lassist s \<and> ahead s = 1 \<and> lstorage s = 1 \<and> chain s 1 main_chain"
  by (simp add: main_build_def store_ops chain_def main_chain_def)

lemma main_build_head: "main_build = Inr s \<Longrightarrow> \<exists>n. nodes s 1 = Some n \<and> ndata n = None"
  by (auto simp: main_build_def store_ops)

text \<open>
  linklist_destory reads the data pointer of the head node, which linklist_init never
  writes: destroying a list whose head has no data is a use of an indeterminate pointer.
\<close>

theorem linklist_destory_uninit:
  assumes "lstorage s \<noteq> 0" and "nodes s (lstorage s) = Some n" and "ndata n = None"
  shows "linklist_destory True s = Some (Inl Uninit)"
  using assms by (rule destory_uninit)

theorem linklist_destory_uninit_witness: "linklist_destory True one_list = Some (Inl Uninit)"
  using linklist_destory_uninit[of one_list "\<lparr>ndata = None, nsize = None, nnext = 2\<rparr>"]
  by (simp add: one_list_def)

text \<open>
  The program of main.c prints the four values in reverse order, 3 2 1 0, and then runs into
  the indeterminate pointer of the head node.
\<close>

theorem linklist_main:
  "main_print = Some (Inr (0, [3, 2, 1, 0])) \<and> main_destory = Some (Inl Uninit)"
proof -
  obtain s where s: "main_build = Inr s" "lassist s" "ahead s = 1" "lstorage s = 1" and r: "chain s 1 main_chain"
    using main_build_chain by blast
  have "print_nodes s (ahead s) [] = Some (Inr [3, 2, 1, 0])"
    using print_nodes_chain[OF r, of "[]"] by (simp add: main_chain_def s(3))
  then have "linklist_print True s = Some (Inr (0, [3, 2, 1, 0]))"
    using s(2,3) by (simp add: linklist_print_def)
  moreover obtain n where "nodes s 1 = Some n" "ndata n = None" using main_build_head s(1) by auto
  then have "linklist_destory True s = Some (Inl Uninit)" using s(4) by (intro destory_uninit) auto
  ultimately show ?thesis
    unfolding main_print_def main_destory_def s(1) obind_simps by simp
qed

end
