(* ===== verification/BSTree.thy ===== *)
theory BSTree
  imports C_Prelude "HOL-Library.Multiset"
begin

text \<open>
  The binary search tree of Storage/tree/tree.c.  Nodes are only reached through their parents, so
  a tree of pointers is a value of a datatype; a null pointer is \<open>Null\<close>.  The addition of a value
  to a collection is stated as an interface, and the tree provides it.
\<close>

section \<open>Collections of values\<close>

locale bag =
  fixes inv :: "'s \<Rightarrow> bool"
    and contents :: "'s \<Rightarrow> 'a multiset"
    and fits :: "'s \<Rightarrow> nat \<Rightarrow> bool"
    and put :: "'a \<Rightarrow> 's \<Rightarrow> 's c"
  assumes put_ok: "inv s \<Longrightarrow> fits s (Suc n) \<Longrightarrow>
    \<exists>s'. put v s = Inr s' \<and> inv s' \<and> fits s' n \<and> contents s' = add_mset v (contents s)"
begin

fun put_all :: "'a list \<Rightarrow> 's \<Rightarrow> 's c" where
  "put_all [] s = Inr s"
| "put_all (v # vs) s = cbind (put v s) (put_all vs)"

lemma put_all_contents:
  "inv s \<Longrightarrow> fits s (length vs) \<Longrightarrow>
     \<exists>s'. put_all vs s = Inr s' \<and> inv s' \<and> contents s' = contents s + mset vs"
proof (induction vs arbitrary: s)
  case (Cons v vs)
  then obtain s' where "put v s = Inr s'" "inv s'" "fits s' (length vs)" "contents s' = add_mset v (contents s)"
    using put_ok[of s "length vs" v] by auto
  with Cons.IH[of s'] show ?case by auto
qed simp

text \<open>The contents do not depend on the order of the additions.\<close>

lemma put_all_perm:
  assumes "inv s" "fits s (length vs)" "mset vs = mset ws"
  shows "\<exists>s1 s2. put_all vs s = Inr s1 \<and> put_all ws s = Inr s2 \<and> contents s1 = contents s2"
proof -
  have "length vs = length ws" using assms(3) by (rule mset_eq_length)
  with put_all_contents[OF assms(1,2)] put_all_contents[OF assms(1), of ws] assms show ?thesis by auto
qed

end

section \<open>Trees\<close>

datatype bst = Null | Node (nleft: bst) (nval: int) (ncount: int) (nright: bst)

text \<open>The fields \<open>size\<close> and \<open>depth\<close> of \<open>struct BSTree\<close>; \<open>node\<close> is its root.\<close>

record bstree =
  root :: bst
  bsize :: int
  bdepth :: int

definition make_node :: "bool \<Rightarrow> int \<Rightarrow> bst" where
  "make_node ok val = (if ok then Node Null val 1 Null else Null)"

text \<open>
  The recursion of \<open>BSTree_add\<close> below a root: the new subtree, \<open>tree->size\<close> and \<open>tree->depth\<close>, and
  the value returned, where \<open>None\<close> is a call that ends without a return statement.  Only the branch
  for an empty subtree returns a value; what the recursive calls return is dropped.
\<close>

fun add_below :: "bst \<Rightarrow> bst \<Rightarrow> int \<Rightarrow> int \<Rightarrow> (bst \<times> int \<times> int \<times> int option) c" where
  "add_below Null node sz dp = cbind (chk (sz + 1)) (\<lambda>sz'. cbind (chk (dp + 1)) (\<lambda>dp'.
     Inr (node, sz', dp', Some 0)))"
| "add_below (Node l v k r) node sz dp =
     (if v > nval node then cbind (add_below l node sz dp) (\<lambda>(l', sz', dp', _). Inr (Node l' v k r, sz', dp', None))
      else if v < nval node then cbind (add_below r node sz dp) (\<lambda>(r', sz', dp', _). Inr (Node l v k r', sz', dp', None))
      else cbind (chk (k + 1)) (\<lambda>k'. Inr (Node l v k' r, sz, dp, None)))"

text \<open>\<open>tree\<close> and \<open>node\<close> may be null; the source calls the function with the root of \<open>tree\<close>.\<close>

definition BSTree_add :: "bstree option \<Rightarrow> bst \<Rightarrow> (int option \<times> bstree option) c" where
  "BSTree_add tree node =
     (case tree of None \<Rightarrow> Inr (Some (-1), None)
      | Some t \<Rightarrow> if node = Null then Inr (Some (-1), tree)
          else cbind (add_below (root t) node (bsize t) (bdepth t)) (\<lambda>(rt, sz, dp, ret).
            Inr (ret, Some \<lparr>root = rt, bsize = sz, bdepth = dp\<rparr>)))"

text \<open>
  The lines \<open>print_BSTree\<close> writes: \<open>Gap d\<close> for a null pointer, after d times two dashes, and
  \<open>Entry d v k\<close> for \<open>v(k)\<close>, after d times two spaces.
\<close>

datatype line = Gap int | Entry int int int

fun print_BSTree :: "bst \<Rightarrow> int \<Rightarrow> line list" where
  "print_BSTree Null depth = [Gap depth]"
| "print_BSTree (Node l v k r) depth =
     print_BSTree l (depth + 1) @ Entry depth v k # print_BSTree r (depth + 1)"

definition empty_tree :: bstree where
  "empty_tree = \<lparr>root = Null, bsize = 0, bdepth = 0\<rparr>"

fun add_vals :: "int list \<Rightarrow> bstree option \<Rightarrow> bstree option c" where
  "add_vals [] t = Inr t"
| "add_vals (v # vs) t = cbind (BSTree_add t (make_node True v)) (\<lambda>(_, t'). add_vals vs t')"

definition test_BSTree_add :: "line list c" where
  "test_BSTree_add = cbind (add_vals [4, 2, 3, 7, 8] (Some empty_tree)) (\<lambda>t.
     case t of None \<Rightarrow> Inl Null_deref | Some t \<Rightarrow> Inr (print_BSTree (root t) 1))"

section \<open>Search trees\<close>

fun keys :: "bst \<Rightarrow> int list" where
  "keys Null = []"
| "keys (Node l v k r) = keys l @ v # keys r"

fun counts :: "bst \<Rightarrow> int multiset" where
  "counts Null = {#}"
| "counts (Node l v k r) = counts l + replicate_mset (nat k) v + counts r"

fun positive :: "bst \<Rightarrow> bool" where
  "positive Null = True"
| "positive (Node l v k r) = (positive l \<and> 0 < k \<and> positive r)"

definition bst_ok :: "bst \<Rightarrow> bool" where
  "bst_ok t \<longleftrightarrow> sorted_wrt (<) (keys t) \<and> positive t"

definition tree_ok :: "bstree \<Rightarrow> bool" where
  "tree_ok t \<longleftrightarrow> bst_ok (root t) \<and> bsize t = int (length (keys (root t))) \<and> bdepth t = bsize t"

definition tree_fits :: "bstree \<Rightarrow> nat \<Rightarrow> bool" where
  "tree_fits t n \<longleftrightarrow> int (size (counts (root t)) + n) \<le> int_max"

fun entries :: "line list \<Rightarrow> (int \<times> int) list" where
  "entries [] = []"
| "entries (Gap d # ls) = entries ls"
| "entries (Entry d v k # ls) = (v, k) # entries ls"

lemma entries_append [simp]: "entries (a @ b) = entries a @ entries b"
  by (induction a rule: entries.induct) auto

lemma bst_ok_Node:
  "bst_ok (Node l v k r) \<longleftrightarrow> bst_ok l \<and> bst_ok r \<and> 0 < k \<and> (\<forall>x\<in>set (keys l). x < v) \<and> (\<forall>x\<in>set (keys r). v < x)"
  by (auto simp: bst_ok_def sorted_wrt_append intro: less_trans)

lemma keys_le_counts: "positive t \<Longrightarrow> length (keys t) \<le> size (counts t)"
  by (induction t) auto

lemma add_below_ok:
  assumes "node = Node Null w 1 Null"
  shows "bst_ok t \<Longrightarrow> 0 \<le> sz \<Longrightarrow> sz + 1 \<le> int_max \<Longrightarrow> int (size (counts t)) + 1 \<le> int_max \<Longrightarrow>
    \<exists>t' sz' ret. add_below t node sz sz = Inr (t', sz', sz', ret) \<and> bst_ok t' \<and>
      counts t' = add_mset w (counts t) \<and> set (keys t') = insert w (set (keys t)) \<and>
      sz' - int (length (keys t')) = sz - int (length (keys t)) \<and> (ret = Some 0 \<longleftrightarrow> t = Null)"
proof (induction t)
  case Null
  have "chk (sz + 1) = Inr (sz + 1)" using Null by (simp add: chk_def int_min_def)
  then show ?case by (simp add: assms bst_ok_def)
next
  case (Node l v k r)
  have ok: "bst_ok l" "bst_ok r" "0 < k" "\<forall>x\<in>set (keys l). x < v" "\<forall>x\<in>set (keys r). v < x"
    using Node.prems(1) by (simp_all add: bst_ok_Node)
  have sizes: "int (size (counts l)) + 1 \<le> int_max" "int (size (counts r)) + 1 \<le> int_max" "k + 1 \<le> int_max"
    using Node.prems(4) ok(3) by auto
  consider "w < v" | "v < w" | "v = w" by linarith
  then show ?case
  proof cases
    case 1
    with Node.IH(1)[OF ok(1) Node.prems(2,3) sizes(1)] ok show ?thesis
      by (auto simp: assms bst_ok_Node)
  next
    case 2
    with Node.IH(2)[OF ok(2) Node.prems(2,3) sizes(2)] ok show ?thesis
      by (auto simp: assms bst_ok_Node)
  next
    case 3
    have "chk (k + 1) = Inr (k + 1)" using sizes(3) ok(3) by (simp add: chk_def int_min_def)
    moreover have "nat (k + 1) = Suc (nat k)" using ok(3) by simp
    ultimately show ?thesis using 3 ok by (auto simp: assms bst_ok_Node)
  qed
qed

definition tree_put :: "int \<Rightarrow> bstree \<Rightarrow> bstree c" where
  "tree_put v t = cbind (BSTree_add (Some t) (make_node True v)) (\<lambda>(_, t').
     case t' of None \<Rightarrow> Inl Null_deref | Some t' \<Rightarrow> Inr t')"

lemma BSTree_add_ok:
  assumes "tree_ok t" and "tree_fits t (Suc n)"
  shows "\<exists>t' ret. BSTree_add (Some t) (make_node True v) = Inr (ret, Some t') \<and> tree_ok t' \<and>
    counts (root t') = add_mset v (counts (root t)) \<and> (ret = Some 0 \<longleftrightarrow> root t = Null)"
proof -
  have "length (keys (root t)) \<le> size (counts (root t))"
    using assms(1) keys_le_counts by (simp add: tree_ok_def bst_ok_def)
  moreover have "int (size (counts (root t))) + 1 \<le> int_max" using assms(2) by (simp add: tree_fits_def)
  ultimately have "bsize t + 1 \<le> int_max" "0 \<le> bsize t" using assms(1) by (auto simp: tree_ok_def)
  then obtain t' sz' ret where "add_below (root t) (Node Null v 1 Null) (bsize t) (bsize t) = Inr (t', sz', sz', ret)"
    "bst_ok t'" "counts t' = add_mset v (counts (root t))"
    "sz' - int (length (keys t')) = bsize t - int (length (keys (root t)))" "ret = Some 0 \<longleftrightarrow> root t = Null"
    using add_below_ok[OF refl, of "root t" "bsize t" v] assms(1) \<open>int (size (counts (root t))) + 1 \<le> int_max\<close>
    by (auto simp: tree_ok_def)
  with assms(1) show ?thesis by (auto simp: BSTree_add_def make_node_def tree_ok_def)
qed

interpretation tree_bag: bag tree_ok "\<lambda>t. counts (root t)" tree_fits tree_put
proof
  fix t :: bstree and n :: nat and v :: int
  assume "tree_ok t" "tree_fits t (Suc n)"
  from BSTree_add_ok[OF this, of v] this(2)
  show "\<exists>t'. tree_put v t = Inr t' \<and> tree_ok t' \<and> tree_fits t' n \<and>
      counts (root t') = add_mset v (counts (root t))"
    by (auto simp: tree_put_def tree_fits_def)
qed

text \<open>
  C35.  BSTree_add with a new node of value v keeps the tree a search tree with positive counters,
  adds one occurrence of v to what it holds, and counts the distinct values in both size and
  depth; it returns 0 for an empty tree and ends without a return statement for any other.
\<close>

theorem BSTree_add_adds:
  assumes "tree_ok t" and "tree_fits t 1"
  shows "\<exists>t' ret. BSTree_add (Some t) (make_node True v) = Inr (ret, Some t') \<and> tree_ok t' \<and>
    counts (root t') = add_mset v (counts (root t)) \<and> (ret = Some 0 \<longleftrightarrow> root t = Null)"
  using BSTree_add_ok[OF assms(1), of 0] assms(2) by simp

theorem BSTree_add_adds_witness:
  "\<exists>t' ret. BSTree_add (Some empty_tree) (make_node True 7) = Inr (ret, Some t') \<and> tree_ok t' \<and>
    counts (root t') = {#7#} \<and> ret = Some 0"
  using BSTree_add_adds[of empty_tree 7]
  by (simp add: empty_tree_def tree_ok_def bst_ok_def tree_fits_def int_max_def)

lemma set_keys: "positive t \<Longrightarrow> set (keys t) = set_mset (counts t)"
  by (induction t) auto

lemma entries_print:
  "bst_ok t \<Longrightarrow> entries (print_BSTree t d) = map (\<lambda>v. (v, int (count (counts t) v))) (keys t)"
proof (induction t arbitrary: d)
  case (Node l v k r)
  have ok: "bst_ok l" "bst_ok r" "0 < k" "\<forall>x\<in>set (keys l). x < v" "\<forall>x\<in>set (keys r). v < x"
    using Node.prems by (simp_all add: bst_ok_Node)
  then have mem: "\<forall>x\<in>#counts l. x < v" "\<forall>x\<in>#counts r. v < x"
    by (simp_all add: set_keys bst_ok_def flip: set_keys)
  then have "count (counts l) v = 0" "count (counts r) v = 0"
    by (auto simp: not_in_iff[symmetric])
  moreover have "count (counts r) x = 0 \<and> x \<noteq> v" if "x \<in> set (keys l)" for x
    using that ok mem(2) by (metis less_asym not_in_iff less_irrefl)
  moreover have "count (counts l) x = 0 \<and> x \<noteq> v" if "x \<in> set (keys r)" for x
    using that ok mem(1) by (metis less_asym not_in_iff less_irrefl)
  ultimately show ?case using Node.IH(1)[OF ok(1)] Node.IH(2)[OF ok(2)] ok(3) by auto
qed simp

lemma keys_sorted_list: "bst_ok t \<Longrightarrow> keys t = sorted_list_of_set (set_mset (counts t))"
  by (simp add: bst_ok_def strict_sorted_equal[OF strict_sorted_list_of_set] flip: set_keys)

text \<open>
  print_BSTree lists the distinct values of a search tree in increasing order, each with the
  number of times it was added.
\<close>

theorem print_BSTree_sorted:
  assumes "tree_ok t"
  shows "entries (print_BSTree (root t) d) =
    map (\<lambda>v. (v, int (count (counts (root t)) v))) (sorted_list_of_set (set_mset (counts (root t))))"
  using assms by (simp add: tree_ok_def entries_print flip: keys_sorted_list)

theorem print_BSTree_sorted_witness:
  "entries (print_BSTree (Node (Node Null 2 1 Null) 4 2 Null) 1) = [(2, 1), (4, 2)]"
  using print_BSTree_sorted[of "\<lparr>root = Node (Node Null 2 1 Null) 4 2 Null, bsize = 2, bdepth = 2\<rparr>" 1]
  by (simp add: tree_ok_def bst_ok_def)

text \<open>
  What is printed after a number of additions to an empty tree does not depend on their order.
\<close>

theorem BSTree_order_independent:
  assumes "mset vs = mset ws" and "int (length vs) \<le> int_max"
  shows "\<exists>t1 t2. tree_bag.put_all vs empty_tree = Inr t1 \<and> tree_bag.put_all ws empty_tree = Inr t2 \<and>
    entries (print_BSTree (root t1) d) = entries (print_BSTree (root t2) e)"
proof -
  have e: "tree_ok empty_tree" "tree_fits empty_tree (length vs)" "tree_fits empty_tree (length ws)"
    using assms mset_eq_length[OF assms(1)] by (simp_all add: empty_tree_def tree_ok_def bst_ok_def tree_fits_def)
  from tree_bag.put_all_contents[OF e(1,2)] tree_bag.put_all_contents[OF e(1,3)] obtain t1 t2 where
    "tree_bag.put_all vs empty_tree = Inr t1" "tree_ok t1" "tree_bag.put_all ws empty_tree = Inr t2" "tree_ok t2"
    "counts (root t1) = counts (root t2)" using assms(1) by auto
  then show ?thesis by (auto simp: tree_ok_def entries_print keys_sorted_list)
qed

theorem BSTree_order_independent_witness:
  "\<exists>t1 t2. tree_bag.put_all [4, 2, 3] empty_tree = Inr t1 \<and> tree_bag.put_all [3, 4, 2] empty_tree = Inr t2 \<and>
    entries (print_BSTree (root t1) 1) = entries (print_BSTree (root t2) 1)"
  using BSTree_order_independent[of "[4, 2, 3]" "[3, 4, 2]" 1 1] by (simp add: int_max_def)

end
