(* ===== verification/Ring_Buffer.thy ===== *)
theory Ring_Buffer
  imports C_Prelude
begin

text \<open>
  The message log of ringBuffer/ringBuffer.c: a ring of three items, the addition of a message,
  the conversion of the ring to text, and the two entities of the message manager.  The contract
  of a log that keeps the last messages is an interface, and the ring provides it.
\<close>

section \<open>Logs that keep the last entries\<close>

definition keep :: "nat \<Rightarrow> 'a list \<Rightarrow> 'a list" where
  "keep n xs = drop (length xs - n) xs"

lemma keep_keep: "keep n (keep n xs @ ys) = keep n (xs @ ys)"
  by (cases "n \<le> length xs") (auto simp: keep_def add.commute)

lemma length_keep [simp]: "length (keep n xs) = min n (length xs)"
  by (auto simp: keep_def)

lemma keep_short: "length xs \<le> n \<Longrightarrow> keep n xs = xs"
  by (simp add: keep_def)

locale last_log =
  fixes inv :: "'s \<Rightarrow> bool"
    and recent :: "'s \<Rightarrow> 'a list"
    and fits :: "'s \<Rightarrow> nat \<Rightarrow> bool"
    and valid :: "'a \<Rightarrow> bool"
    and put :: "'a \<Rightarrow> 's \<Rightarrow> 's c"
    and n :: nat
  assumes put_ok: "inv s \<Longrightarrow> fits s (Suc k) \<Longrightarrow> valid v \<Longrightarrow>
    \<exists>s'. put v s = Inr s' \<and> inv s' \<and> fits s' k \<and> recent s' = keep n (recent s @ [v])"
    and recent_short: "inv s \<Longrightarrow> length (recent s) \<le> n"
begin

fun put_all :: "'a list \<Rightarrow> 's \<Rightarrow> 's c" where
  "put_all [] s = Inr s"
| "put_all (v # vs) s = cbind (put v s) (put_all vs)"

lemma put_all_recent:
  "inv s \<Longrightarrow> fits s (length vs) \<Longrightarrow> list_all valid vs \<Longrightarrow>
     \<exists>s'. put_all vs s = Inr s' \<and> inv s' \<and> recent s' = keep n (recent s @ vs)"
proof (induction vs arbitrary: s)
  case Nil
  then show ?case by (simp add: keep_short recent_short)
next
  case (Cons v vs)
  then obtain s' where "put v s = Inr s'" "inv s'" "fits s' (length vs)" "recent s' = keep n (recent s @ [v])"
    using put_ok[of s "length vs" v] by auto
  with Cons.IH[of s'] Cons.prems(3) show ?case by (auto simp: keep_keep)
qed

end

section \<open>State\<close>

text \<open>\<open>msg\<close> is the block a message was copied to, or null.\<close>

record item =
  timeStamp :: nat
  msg :: "mem option"
  len :: int

record entity =
  cursor :: int
  items :: "item list"

definition MAX_MSG_ITEMS :: int where
  "MAX_MSG_ITEMS = 3"

text \<open>The pieces of the format string between its conversions, and its size with the null byte.\<close>

definition fmt_line :: "int \<Rightarrow> nat \<Rightarrow> byte list \<Rightarrow> byte list" where
  "fmt_line index ts s =
     [123, 34, 110, 117, 109, 34, 58, 34] @ printf_d index @
     [34, 44, 34, 116, 105, 109, 101, 83, 116, 97, 109, 112, 34, 58, 34] @ dec_digits ts @
     [34, 44, 32, 34, 109, 115, 103, 34, 58, 34] @ s @ [34, 125, 13, 10]"

definition format_size :: int where
  "format_size = 46"

section \<open>Adding\<close>

text \<open>
  The result is the returned truth value and the entity; \<open>now\<close> is the clock.  \<open>malloc\<close> and
  \<open>strncpy\<close> take a \<open>size_t\<close>: no block has the size that a negative number converts to, so the
  block is then null and \<open>memset\<close> fails; with \<open>len\<close> -1 the block is empty and \<open>strncpy\<close> has no
  bound.
\<close>

definition msg_add' :: "bool \<Rightarrow> nat \<Rightarrow> entity \<Rightarrow> mem \<Rightarrow> int \<Rightarrow> (bool \<times> entity) c" where
  "msg_add' ok now e data n =
     cbind (chk (n + 1)) (\<lambda>blk.
      if \<not> ok \<or> blk < 0 then Inl Null_deref
      else
        let pos = (if cursor e \<ge> MAX_MSG_ITEMS then cursor e mod MAX_MSG_ITEMS else cursor e) in
        cbind (if n < 0 then Inl Write_oob
               else wrs (replicate (nat blk) 0) 0 (strncpy_bytes data (nat n))) (\<lambda>str.
        cbind (rdi (items e) pos) (\<lambda>it.
        cbind (chk (cursor e + 1)) (\<lambda>c.
          Inr (True, e\<lparr>items := (items e)[nat pos := it\<lparr>msg := Some str, timeStamp := now, len := n\<rparr>],
                       cursor := c\<rparr>)))))"

text \<open>
  \<open>strlen (data) + 1\<close> is stored in the int parameter of \<open>_msg_add\<close>, whose result is dropped.
\<close>

definition msg_add :: "bool \<Rightarrow> nat \<Rightarrow> entity option \<Rightarrow> mem option \<Rightarrow> (bool \<times> entity option) c" where
  "msg_add ok now entity data =
     (case entity of None \<Rightarrow> Inr (False, None)
      | Some e \<Rightarrow> (case data of None \<Rightarrow> Inr (False, entity)
      | Some d \<Rightarrow> cbind (strlen d 0) (\<lambda>n. cbind (msg_add' ok now e d (int_of_size (n + 1))) (\<lambda>(_, e').
          Inr (True, Some e')))))"

section \<open>To text\<close>

definition head_pos :: "entity \<Rightarrow> int" where
  "head_pos e = (if cursor e < MAX_MSG_ITEMS then 0 else cursor e mod MAX_MSG_ITEMS)"

text \<open>
  \<open>len + sizeof\<close> is a sum of unsigned long numbers, which the assignment cuts to an int.
\<close>

partial_function (option) total_loop :: "entity \<Rightarrow> int \<Rightarrow> int \<Rightarrow> int \<Rightarrow> int c option" where
  "total_loop e head index msgTotalLen =
     (if index \<ge> cursor e then Some (Inr msgTotalLen)
      else case rdi (items e) index of Inl err \<Rightarrow> Some (Inl err)
        | Inr it \<Rightarrow>
          (let tot = int_of_long (msgTotalLen + (len it + format_size)); index' = (index + 1) mod MAX_MSG_ITEMS in
           if index' \<noteq> head then total_loop e head index' tot else Some (Inr tot)))"

definition append_line :: "mem \<Rightarrow> int \<Rightarrow> item \<Rightarrow> mem c" where
  "append_line b index it =
     cbind (strlen b 0) (\<lambda>k.
       case msg it of None \<Rightarrow> Inl Null_deref
       | Some m \<Rightarrow> cbind (strlen m 0) (\<lambda>_.
           wrs b k (fmt_line index (timeStamp it) (str_at m 0) @ [0])))"

partial_function (option) lines_loop :: "entity \<Rightarrow> int \<Rightarrow> int \<Rightarrow> mem \<Rightarrow> mem c option" where
  "lines_loop e head index b =
     (if index \<ge> cursor e then Some (Inr b)
      else case cbind (rdi (items e) index) (append_line b index) of Inl err \<Rightarrow> Some (Inl err)
        | Inr b' \<Rightarrow>
          (let index' = (index + 1) mod MAX_MSG_ITEMS in
           if index' \<noteq> head then lines_loop e head index' b' else Some (Inr b')))"

text \<open>
  The result is the length and the block, \<open>None\<close> when none was allocated.  No block has the size
  that a negative number converts to.
\<close>

definition msg_to_string' :: "bool \<Rightarrow> entity \<Rightarrow> (int \<times> mem option) c option" where
  "msg_to_string' ok e =
     (case total_loop e (head_pos e) (head_pos e) 0 of None \<Rightarrow> None
      | Some (Inl err) \<Rightarrow> Some (Inl err)
      | Some (Inr tot) \<Rightarrow>
          if tot = 0 then Some (Inr (0, None))
          else (case chk (tot + 1) of Inl err \<Rightarrow> Some (Inl err)
            | Inr blk \<Rightarrow>
              if \<not> ok \<or> blk < 0 then Some (Inl Null_deref)
              else (case lines_loop e (head_pos e) (head_pos e) (replicate (nat blk) 0) of None \<Rightarrow> None
                | Some (Inl err) \<Rightarrow> Some (Inl err)
                | Some (Inr b) \<Rightarrow> Some (cbind (strlen b 0) (\<lambda>n. Inr (int_of_size n, Some b))))))"

text \<open>A negative length passes the test, and \<open>strncpy\<close> then fills without end.\<close>

definition msg_to_string :: "bool \<Rightarrow> entity option \<Rightarrow> mem option \<Rightarrow> int \<Rightarrow> (int \<times> mem option) c option" where
  "msg_to_string ok entity buff n =
     (case entity of None \<Rightarrow> Some (Inr (-1, buff))
      | Some e \<Rightarrow> (case buff of None \<Rightarrow> Some (Inr (-1, None))
      | Some bf \<Rightarrow>
         if n \<le> 0 then Some (Inr (-1, buff))
         else (case msg_to_string' ok e of None \<Rightarrow> None
           | Some (Inl err) \<Rightarrow> Some (Inl err)
           | Some (Inr (msgLen, msgStr)) \<Rightarrow>
               Some (cbind (wrs bf 0 (replicate (nat n) 0)) (\<lambda>bf.
                 if msgLen \<noteq> 0 \<and> msgLen \<le> n then
                   (case msgStr of None \<Rightarrow> Inl Null_deref
                    | Some m \<Rightarrow> cbind (if msgLen < 0 then Inl Write_oob else wrs bf 0 (strncpy_bytes m (nat msgLen)))
                        (\<lambda>bf. Inr (msgLen, Some bf)))
                 else Inr (-1, Some bf))))))"

section \<open>Clearing and the manager\<close>

definition clear_item :: "item \<Rightarrow> item" where
  "clear_item it = (if msg it = None then it else it\<lparr>msg := None, len := 0\<rparr>)"

definition msg_clear :: "entity option \<Rightarrow> entity option" where
  "msg_clear entity = (case entity of None \<Rightarrow> None
     | Some e \<Rightarrow> Some (e\<lparr>items := map clear_item (items e), cursor := 0\<rparr>))"

definition init_msg_entity :: "entity \<Rightarrow> entity" where
  "init_msg_entity e = e\<lparr>cursor := 0\<rparr>"

record manage =
  actionInRepo :: entity
  actionOutRepo :: entity

definition zero_entity :: entity where
  "zero_entity = \<lparr>cursor = 0, items = replicate 3 \<lparr>timeStamp = 0, msg = None, len = 0\<rparr>\<rparr>"

text \<open>The static pointer \<open>msgManager\<close> is the argument and part of the result.\<close>

definition getActionMsgInstance :: "bool \<Rightarrow> manage option \<Rightarrow> manage option c" where
  "getActionMsgInstance ok mgr =
     (if mgr = None then
        (if ok then Inr (Some \<lparr>actionInRepo = init_msg_entity zero_entity, actionOutRepo = init_msg_entity zero_entity\<rparr>)
         else Inl Null_deref)
      else Inr mgr)"

text \<open>The pointer returned is given as the field it points to.\<close>

datatype repo = InRepo | OutRepo

definition getActionOutMsgEntity :: "bool \<Rightarrow> manage option \<Rightarrow> (repo \<times> manage option) c" where
  "getActionOutMsgEntity ok mgr = cbind (getActionMsgInstance ok mgr) (\<lambda>mgr'. Inr (InRepo, mgr'))"

section \<open>Invariant and contents\<close>

definition item_ok :: "item \<Rightarrow> bool" where
  "item_ok it \<longleftrightarrow> (\<exists>t. 0 \<notin> set t \<and> msg it = Some (t @ [0, 0]) \<and> len it = int (length t) + 1)"

definition text_of :: "item \<Rightarrow> byte list" where
  "text_of it = (case msg it of None \<Rightarrow> [] | Some m \<Rightarrow> str_at m 0)"

text \<open>The places of the items from the oldest to the newest, for a number of additions.\<close>

definition order :: "int \<Rightarrow> int list" where
  "order c = (if c \<le> 0 then [] else if c = 1 then [0] else if c = 2 then [0, 1]
     else [c mod 3, (c + 1) mod 3, (c + 2) mod 3])"

definition ring_ok :: "entity \<Rightarrow> bool" where
  "ring_ok e \<longleftrightarrow> 0 \<le> cursor e \<and> length (items e) = 3 \<and>
     (\<forall>i \<in> set (order (cursor e)). item_ok (items e ! nat i))"

definition recent_msgs :: "entity \<Rightarrow> (nat \<times> byte list) list" where
  "recent_msgs e = map (\<lambda>i. (timeStamp (items e ! nat i), text_of (items e ! nat i))) (order (cursor e))"

definition ring_fits :: "entity \<Rightarrow> nat \<Rightarrow> bool" where
  "ring_fits e k \<longleftrightarrow> cursor e + int k \<le> int_max"

text \<open>A message whose length and two null bytes fit an int.\<close>

definition msg_valid :: "nat \<times> byte list \<Rightarrow> bool" where
  "msg_valid v \<longleftrightarrow> 0 \<notin> set (snd v) \<and> int (length (snd v)) + 2 \<le> int_max"

definition ring_put :: "nat \<times> byte list \<Rightarrow> entity \<Rightarrow> entity c" where
  "ring_put v e = cbind (msg_add True (fst v) (Some e) (Some (snd v @ [0]))) (\<lambda>(_, e').
     case e' of None \<Rightarrow> Inl Null_deref | Some e' \<Rightarrow> Inr e')"

lemma mod3_cases:
  fixes c :: int
  obtains "c mod 3 = 0" "(c + 1) mod 3 = 1" "(c + 2) mod 3 = 2" "(c + 3) mod 3 = 0"
    | "c mod 3 = 1" "(c + 1) mod 3 = 2" "(c + 2) mod 3 = 0" "(c + 3) mod 3 = 1"
    | "c mod 3 = 2" "(c + 1) mod 3 = 0" "(c + 2) mod 3 = 1" "(c + 3) mod 3 = 2"
proof -
  have r: "0 \<le> c mod 3" "c mod 3 < 3" by simp_all
  have s: "(c + k) mod 3 = (c mod 3 + k) mod 3" for k by (simp add: mod_simps)
  consider "c mod 3 = 0" | "c mod 3 = 1" | "c mod 3 = 2" using r by linarith
  then show thesis using that by cases (simp_all add: s)
qed

lemma item_upd: "it\<lparr>msg := m, timeStamp := n, len := l\<rparr> = \<lparr>timeStamp = n, msg = m, len = l\<rparr>"
  by (cases it) simp

lemma entity_upd: "e\<lparr>items := i, cursor := c\<rparr> = \<lparr>cursor = c, items = i\<rparr>"
  by (cases e) simp

definition new_item :: "nat \<Rightarrow> byte list \<Rightarrow> item" where
  "new_item now t = \<lparr>timeStamp = now, msg = Some (t @ [0, 0]), len = int (length t) + 1\<rparr>"

lemma new_item_ok: "0 \<notin> set t \<Longrightarrow> item_ok (new_item now t) \<and> text_of (new_item now t) = t"
  by (simp add: item_ok_def new_item_def text_of_def str_at_def takeWhile_no_zero)

definition slot :: "int \<Rightarrow> int" where
  "slot c = (if c \<ge> 3 then c mod 3 else c)"

lemma slot_range: "0 \<le> c \<Longrightarrow> 0 \<le> slot c \<and> slot c < 3"
  by (simp add: slot_def)

lemma msg_add_eq:
  assumes "c_str d 0 t" and "0 \<le> cursor e" and "length (items e) = 3" and "cursor e + 1 \<le> int_max"
    and "int (length t) + 2 \<le> int_max"
  shows "msg_add True now (Some e) (Some d) =
    Inr (True, Some \<lparr>cursor = cursor e + 1, items = (items e)[nat (slot (cursor e)) := new_item now t]\<rparr>)"
proof -
  have d: "0 \<notin> set t" "\<exists>z. d = t @ 0 # z" using assms(1) by (auto simp: c_str_def)
  then have "takeWhile (\<lambda>b. b \<noteq> 0) (take (length t + 1) d) = t" by (auto simp: takeWhile_no_zero)
  then have "strncpy_bytes d (nat (int (length t) + 1)) = t @ [0]"
    by (simp add: strncpy_bytes_def nat_add_distrib)
  moreover have rest: "drop (length t + 1) (replicate (length t + 2) 0) = [0]"
    by (simp only: drop_replicate) simp
  have "nat (int (length t) + 1 + 1) = length t + 2" by simp
  then have "wrs (replicate (nat (int (length t) + 1 + 1)) 0) 0 (t @ [0]) = Inr (t @ [0, 0])"
    using wrs_in[of 0 "t @ [0]" "replicate (length t + 2) 0"] rest by (simp del: replicate_Suc)
  moreover have "chk (cursor e + 1) = Inr (cursor e + 1)"
    using assms(2,4) by (simp add: chk_def int_min_def)
  moreover have "int_of_size (length t + 1) = int (length t) + 1"
    using assms(5) by (simp add: int_of_size_in)
  moreover have "chk (int (length t) + 1 + 1) = Inr (int (length t) + 1 + 1)"
    using assms(5) by (simp add: chk_def int_min_def)
  moreover have sl: "(if cursor e \<ge> MAX_MSG_ITEMS then cursor e mod MAX_MSG_ITEMS else cursor e) = slot (cursor e)"
    by (simp add: MAX_MSG_ITEMS_def slot_def)
  moreover have "rdi (items e) (slot (cursor e)) = Inr (items e ! nat (slot (cursor e)))"
    using slot_range[OF assms(2)] assms(3) by (simp add: rdi_def nat_less_iff)
  ultimately show ?thesis
    by (simp add: msg_add_def c_str_strlen[OF assms(1)] msg_add'_def sl Let_def
        new_item_def item_upd entity_upd)
qed

lemma order_step:
  assumes "0 \<le> c" and "length its = 3"
  shows "map (\<lambda>i. its[nat (slot c) := x] ! nat i) (order (c + 1)) =
    keep 3 (map (\<lambda>i. its ! nat i) (order c) @ [x])"
proof -
  obtain a0 a1 a2 where its: "its = [a0, a1, a2]"
    using assms(2) by (auto simp: numeral_3_eq_3 length_Suc_conv)
  consider "c = 0" | "c = 1" | "c = 2" | "3 \<le> c" using assms(1) by linarith
  then show ?thesis
  proof cases
    case 4
    then have ord: "order c = [c mod 3, (c + 1) mod 3, (c + 2) mod 3]"
      "order (c + 1) = [(c + 1) mod 3, (c + 2) mod 3, (c + 3) mod 3]" "slot c = c mod 3"
      by (simp_all add: order_def slot_def add.assoc)
    show ?thesis unfolding ord its by (rule mod3_cases[of c]) (simp_all add: keep_def)
  qed (simp_all add: its order_def slot_def keep_def)
qed

lemma order_range: "0 \<le> c \<Longrightarrow> i \<in> set (order c) \<Longrightarrow> 0 \<le> i \<and> i < 3"
  by (auto simp: order_def split: if_splits)

lemma length_order: "length (order c) \<le> 3"
  by (simp add: order_def)

lemma ring_put_ok:
  assumes "ring_ok e" and "cursor e + 1 \<le> int_max" and "c_str d 0 t" and "int (length t) + 2 \<le> int_max"
  shows "\<exists>e'. msg_add True now (Some e) (Some d) = Inr (True, Some e') \<and> ring_ok e' \<and> cursor e' = cursor e + 1 \<and>
    recent_msgs e' = keep 3 (recent_msgs e @ [(now, t)])"
proof -
  let ?x = "new_item now t" and ?i = "nat (slot (cursor e))"
  let ?e = "\<lparr>cursor = cursor e + 1, items = (items e)[?i := ?x]\<rparr>"
  have e: "0 \<le> cursor e" "length (items e) = 3" using assms(1) by (auto simp: ring_ok_def)
  have x: "item_ok ?x" "text_of ?x = t" "timeStamp ?x = now"
    using new_item_ok[OF c_str_no_zero[OF assms(3)]] by (simp_all add: new_item_def)
  note step = order_step[OF e, of ?x]
  have "set (map (\<lambda>i. (items e)[?i := ?x] ! nat i) (order (cursor e + 1))) \<subseteq>
      set (map (\<lambda>i. items e ! nat i) (order (cursor e))) \<union> {?x}"
    unfolding step by (auto simp: keep_def dest: in_set_dropD)
  then have "\<forall>it \<in> set (map (\<lambda>i. (items e)[?i := ?x] ! nat i) (order (cursor e + 1))). item_ok it"
    using assms(1) x(1) by (auto simp: ring_ok_def)
  then have ok: "ring_ok ?e" using e by (auto simp: ring_ok_def)
  let ?f = "\<lambda>it. (timeStamp it, text_of it)"
  have "recent_msgs ?e = map ?f (map (\<lambda>i. (items e)[?i := ?x] ! nat i) (order (cursor e + 1)))"
    by (simp add: recent_msgs_def)
  also have "\<dots> = keep 3 (map ?f (map (\<lambda>i. items e ! nat i) (order (cursor e))) @ [?f ?x])"
    unfolding step by (simp add: keep_def drop_map)
  also have "\<dots> = keep 3 (recent_msgs e @ [(now, t)])"
    by (simp add: recent_msgs_def x comp_def)
  finally show ?thesis using msg_add_eq[OF assms(3) e assms(2,4)] ok by simp
qed

interpretation ring_log: last_log ring_ok recent_msgs ring_fits msg_valid ring_put 3
proof
  fix e :: entity and k :: nat and v :: "nat \<times> byte list"
  assume a: "ring_ok e" "ring_fits e (Suc k)" "msg_valid v"
  then have "c_str (snd v @ [0]) 0 (snd v)" "int (length (snd v)) + 2 \<le> int_max"
    using c_strI[of "snd v" "[]"] by (simp_all add: msg_valid_def)
  from ring_put_ok[OF a(1) _ this, of "fst v"] a(2)
  show "\<exists>e'. ring_put v e = Inr e' \<and> ring_ok e' \<and> ring_fits e' k \<and> recent_msgs e' = keep 3 (recent_msgs e @ [v])"
    by (auto simp: ring_put_def ring_fits_def)
next
  fix e :: entity assume "ring_ok e"
  then show "length (recent_msgs e) \<le> 3" by (simp add: recent_msgs_def length_order)
qed

text \<open>
  C19.  On a well-formed ring msg_add succeeds for every message whose length, with two null bytes,
  fits an int, and the ring then holds the last three messages in the order of their addition,
  with their times.
\<close>

theorem msg_add_keeps_last:
  assumes "ring_ok e" and "cursor e + 1 \<le> int_max" and "c_str d 0 t" and "int (length t) + 2 \<le> int_max"
  shows "\<exists>e'. msg_add True now (Some e) (Some d) = Inr (True, Some e') \<and> ring_ok e' \<and>
    recent_msgs e' = keep 3 (recent_msgs e @ [(now, t)])"
  using ring_put_ok[OF assms, of now] by blast

theorem msg_add_keeps_last_witness:
  "\<exists>e'. msg_add True 5 (Some zero_entity) (Some [65, 0]) = Inr (True, Some e') \<and> ring_ok e' \<and>
    recent_msgs e' = [(5, [65])]"
  using msg_add_keeps_last[of zero_entity "[65, 0]" "[65]" 5]
  by (simp add: zero_entity_def ring_ok_def order_def recent_msgs_def keep_def int_max_def c_str_def)

text \<open>
  Any number of messages added one after the other to an empty ring leave the last three.
\<close>

theorem ring_keeps_last_three:
  assumes "list_all msg_valid vs" and "int (length vs) \<le> int_max"
  shows "\<exists>e. ring_log.put_all vs zero_entity = Inr e \<and> ring_ok e \<and> recent_msgs e = drop (length vs - 3) vs"
proof -
  have z: "ring_ok zero_entity" "recent_msgs zero_entity = []" "ring_fits zero_entity (length vs)"
    using assms(2) by (simp_all add: zero_entity_def ring_ok_def order_def recent_msgs_def ring_fits_def)
  from ring_log.put_all_recent[OF z(1,3) assms(1)] z(2) show ?thesis by (simp add: keep_def)
qed

theorem ring_keeps_last_three_witness:
  "\<exists>e. ring_log.put_all [(1, [65]), (2, [66]), (3, [67]), (4, [68])] zero_entity = Inr e \<and> ring_ok e \<and>
    recent_msgs e = [(2, [66]), (3, [67]), (4, [68])]"
  using ring_keeps_last_three[of "[(1, [65]), (2, [66]), (3, [67]), (4, [68])]"] by (simp add: int_max_def msg_valid_def)

section \<open>The text of the ring\<close>

fun visits :: "int \<Rightarrow> int \<Rightarrow> int \<Rightarrow> int list \<Rightarrow> bool" where
  "visits c h i [] \<longleftrightarrow> i \<ge> c"
| "visits c h i (j # js) \<longleftrightarrow> i = j \<and> i < c \<and>
     (if (i + 1) mod 3 = h then js = [] else visits c h ((i + 1) mod 3) js)"

lemma visits_order: "0 \<le> cursor e \<Longrightarrow> visits (cursor e) (head_pos e) (head_pos e) (order (cursor e))"
proof -
  assume "0 \<le> cursor e"
  then consider "cursor e = 0" | "cursor e = 1" | "cursor e = 2" | "3 \<le> cursor e" by linarith
  then show ?thesis
  proof cases
    case 4
    then have *: "order (cursor e) = [cursor e mod 3, (cursor e + 1) mod 3, (cursor e + 2) mod 3]"
      "head_pos e = cursor e mod 3"
      by (simp_all add: order_def head_pos_def MAX_MSG_ITEMS_def)
    show ?thesis unfolding * using 4 by (rule_tac c = "cursor e" in mod3_cases) simp_all
  qed (simp_all add: order_def head_pos_def MAX_MSG_ITEMS_def)
qed

lemma total_loop_eq:
  "visits (cursor e) h i js \<Longrightarrow> (\<forall>j\<in>set js. 0 \<le> j \<and> j < 3) \<Longrightarrow> length (items e) = 3 \<Longrightarrow>
   (\<forall>j\<in>set js. 0 \<le> len (items e ! nat j)) \<Longrightarrow> 0 \<le> acc \<Longrightarrow>
   acc + sum_list (map (\<lambda>j. len (items e ! nat j) + format_size) js) \<le> int_max \<Longrightarrow>
   total_loop e h i acc = Some (Inr (acc + sum_list (map (\<lambda>j. len (items e ! nat j) + format_size) js)))"
proof (induction js arbitrary: i acc)
  case Nil
  then show ?case by (subst total_loop.simps) simp
next
  case (Cons j js)
  have j: "i = j" "j < cursor e" "0 \<le> j" "j < 3" using Cons.prems(1,2) by auto
  then have rd: "rdi (items e) j = Inr (items e ! nat j)" using Cons.prems(3) by (simp add: rdi_def nat_less_iff)
  have "0 \<le> sum_list (map (\<lambda>j. len (items e ! nat j) + format_size) js)"
    using Cons.prems(4) by (intro sum_list_nonneg) (auto simp: format_size_def)
  moreover have "0 \<le> len (items e ! nat j) + format_size" using Cons.prems(4) by (simp add: format_size_def)
  ultimately have cut: "int_of_long (acc + (len (items e ! nat j) + format_size)) = acc + (len (items e ! nat j) + format_size)"
    using Cons.prems(4-6) by (intro int_of_long_in) (simp add: in_int_def int_min_def)
  show ?case
  proof (cases "(j + 1) mod 3 = h")
    case True
    then have "js = []" using Cons.prems(1) by auto
    with True rd j cut show ?thesis by (subst total_loop.simps) (simp add: MAX_MSG_ITEMS_def)
  next
    case False
    have v: "visits (cursor e) h ((j + 1) mod 3) js" using Cons.prems(1) False unfolding j(1) by simp
    let ?a = "acc + (len (items e ! nat j) + format_size)"
    have r: "\<forall>j\<in>set js. 0 \<le> j \<and> j < 3" "\<forall>j\<in>set js. 0 \<le> len (items e ! nat j)"
      using Cons.prems(2,4) by simp_all
    have "0 \<le> len (items e ! nat j)" using Cons.prems(4) by simp
    then have a: "0 \<le> ?a" using Cons.prems(5) by (simp add: format_size_def)
    have "?a + sum_list (map (\<lambda>j. len (items e ! nat j) + format_size) js) \<le> int_max"
      using Cons.prems(6) by (simp only: list.map sum_list.Cons add.assoc)
    from Cons.IH[OF v r(1) Cons.prems(3) r(2) a this]
    have "total_loop e h ((j + 1) mod 3) ?a =
        Some (Inr (?a + sum_list (map (\<lambda>j. len (items e ! nat j) + format_size) js)))" .
    moreover have "total_loop e h i acc = total_loop e h ((j + 1) mod 3) ?a"
      using False rd j cut by (subst total_loop.simps) (simp add: MAX_MSG_ITEMS_def)
    ultimately show ?thesis by (simp only: list.map sum_list.Cons add.assoc)
  qed
qed

definition line_of :: "entity \<Rightarrow> int \<Rightarrow> byte list" where
  "line_of e j = fmt_line j (timeStamp (items e ! nat j)) (text_of (items e ! nat j))"

definition log_text :: "entity \<Rightarrow> byte list" where
  "log_text e = concat (map (line_of e) (order (cursor e)))"

lemma dec_digits_nonzero: "0 \<notin> set (dec_digits n)"
  using dec_digits_digits[of n] by (auto simp: list_all_iff is_digit_def)

lemma item_text: "item_ok it \<Longrightarrow> \<exists>t. msg it = Some (t @ [0, 0]) \<and> 0 \<notin> set t \<and> text_of it = t \<and>
    len it = int (length t) + 1 \<and> strlen (t @ [0, 0]) 0 = Inr (length t)"
  by (auto simp: item_ok_def text_of_def str_at_def takeWhile_no_zero strlen_def)

lemma line_of_nonzero: "item_ok (items e ! nat j) \<Longrightarrow> 0 \<le> j \<Longrightarrow> 0 \<notin> set (line_of e j)"
  using item_text[of "items e ! nat j"]
  by (auto simp: line_of_def fmt_line_def printf_d_def dec_digits_nonzero)

lemma length_line_of:
  "item_ok (items e ! nat j) \<Longrightarrow> 0 \<le> j \<Longrightarrow> j < 3 \<Longrightarrow> int (length (line_of e j)) =
     len (items e ! nat j) + 37 + int (length (dec_digits (timeStamp (items e ! nat j))))"
  using item_text[of "items e ! nat j"]
  by (auto simp: line_of_def fmt_line_def printf_d_def dec_digits.simps[of "nat j"])

lemma append_line_eq:
  assumes "0 \<notin> set pre" and "0 < k" and "item_ok (items e ! nat j)"
  shows "append_line (pre @ replicate k 0) j (items e ! nat j) =
    (if length (line_of e j) < k then Inr ((pre @ line_of e j) @ replicate (k - length (line_of e j)) 0)
     else Inl Write_oob)"
proof -
  obtain k' where k: "k = Suc k'" using assms(2) by (cases k) auto
  have "strlen (pre @ replicate k 0) 0 = Inr (length pre)"
    using strlen_text[OF assms(1)] by (simp add: k)
  moreover obtain t where t: "msg (items e ! nat j) = Some (t @ [0, 0])" "0 \<notin> set t"
    "text_of (items e ! nat j) = t" "strlen (t @ [0, 0]) 0 = Inr (length t)"
    using item_text[OF assms(3)] by auto
  moreover have "str_at (t @ [0, 0]) 0 = t" using t(2) by (simp add: str_at_def takeWhile_no_zero)
  ultimately have "append_line (pre @ replicate k 0) j (items e ! nat j) =
      wrs (pre @ replicate k 0) (length pre) (line_of e j @ [0])"
    by (simp add: append_line_def line_of_def)
  also have "\<dots> = (if length (line_of e j) < k then Inr ((pre @ line_of e j) @ replicate (k - length (line_of e j)) 0)
     else Inl Write_oob)"
  proof (cases "length (line_of e j) < k")
    case True
    have "0 # replicate (k - Suc (length (line_of e j))) 0 = replicate (k - length (line_of e j)) (0 :: byte)"
      using True by (simp add: Suc_diff_Suc flip: replicate_Suc)
    with True show ?thesis
      using wrs_append_left[of "line_of e j @ [0]" "replicate k 0" pre] by simp
  next
    case False
    then show ?thesis using wrs_out[of "line_of e j @ [0]"] by simp
  qed
  finally show ?thesis .
qed

lemma lines_loop_eq:
  "visits (cursor e) h i js \<Longrightarrow> (\<forall>j\<in>set js. 0 \<le> j \<and> j < 3 \<and> item_ok (items e ! nat j)) \<Longrightarrow>
   length (items e) = 3 \<Longrightarrow> 0 \<notin> set pre \<Longrightarrow> 0 < k \<Longrightarrow>
   lines_loop e h i (pre @ replicate k 0) =
     (if length (concat (map (line_of e) js)) < k
      then Some (Inr (pre @ concat (map (line_of e) js) @ replicate (k - length (concat (map (line_of e) js))) 0))
      else Some (Inl Write_oob))"
proof (induction js arbitrary: i pre k)
  case Nil
  then show ?case by (subst lines_loop.simps) simp
next
  case (Cons j js)
  have j: "i = j" "j < cursor e" "0 \<le> j" "j < 3" "item_ok (items e ! nat j)" using Cons.prems by auto
  then have rd: "rdi (items e) j = Inr (items e ! nat j)" using Cons.prems(3) by (simp add: rdi_def nat_less_iff)
  let ?l = "line_of e j"
  note app = append_line_eq[where k = k, OF Cons.prems(4,5) j(5)]
  show ?case
  proof (cases "length ?l < k")
    case False
    with rd j app show ?thesis by (subst lines_loop.simps) simp
  next
    case True
    have IH: "(j + 1) mod 3 \<noteq> h \<Longrightarrow> lines_loop e h ((j + 1) mod 3) ((pre @ ?l) @ replicate (k - length ?l) 0) =
     (if length (concat (map (line_of e) js)) < k - length ?l
      then Some (Inr ((pre @ ?l) @ concat (map (line_of e) js) @ replicate (k - length ?l - length (concat (map (line_of e) js))) 0))
      else Some (Inl Write_oob))"
      using Cons.prems j True line_of_nonzero[OF j(5,3)] by (intro Cons.IH) auto
    show ?thesis
    proof (cases "(j + 1) mod 3 = h")
      case stop: True
      then have "js = []" using Cons.prems(1) by auto
      with stop True rd j app show ?thesis by (subst lines_loop.simps) (simp add: MAX_MSG_ITEMS_def)
    next
      case False
      with True rd j app IH show ?thesis
        by (subst lines_loop.simps) (simp add: MAX_MSG_ITEMS_def less_diff_conv add.commute)
    qed
  qed
qed

definition total_of :: "entity \<Rightarrow> int list \<Rightarrow> int" where
  "total_of e js = sum_list (map (\<lambda>j. len (items e ! nat j) + format_size) js)"

definition js_ok :: "entity \<Rightarrow> int list \<Rightarrow> bool" where
  "js_ok e js \<longleftrightarrow> (\<forall>j\<in>set js. 0 \<le> j \<and> j < 3 \<and> item_ok (items e ! nat j))"

lemma js_ok_order: "ring_ok e \<Longrightarrow> js_ok e (order (cursor e))"
  using order_range by (auto simp: js_ok_def ring_ok_def)

lemma text_fits:
  "js_ok e js \<Longrightarrow> (\<forall>j\<in>set js. timeStamp (items e ! nat j) < 10 ^ 9) \<Longrightarrow>
     int (length (concat (map (line_of e) js))) \<le> total_of e js"
proof (induction js)
  case (Cons j js)
  then have "int (length (line_of e j)) = len (items e ! nat j) + 37 + int (length (dec_digits (timeStamp (items e ! nat j))))"
    by (intro length_line_of) (auto simp: js_ok_def)
  moreover have "length (dec_digits (timeStamp (items e ! nat j))) \<le> 9"
    using Cons.prems by (intro dec_digits_length) auto
  ultimately have "int (length (line_of e j)) \<le> len (items e ! nat j) + format_size"
    by (simp add: format_size_def)
  with Cons show ?case by (auto simp: total_of_def js_ok_def)
qed (simp add: total_of_def)

lemma text_too_long:
  "js_ok e js \<Longrightarrow> (\<forall>j\<in>set js. 10 ^ 9 \<le> timeStamp (items e ! nat j)) \<Longrightarrow>
     total_of e js + int (length js) \<le> int (length (concat (map (line_of e) js)))"
proof (induction js)
  case (Cons j js)
  then have "int (length (line_of e j)) = len (items e ! nat j) + 37 + int (length (dec_digits (timeStamp (items e ! nat j))))"
    by (intro length_line_of) (auto simp: js_ok_def)
  moreover have "9 < length (dec_digits (timeStamp (items e ! nat j)))"
    using Cons.prems by (intro dec_digits_length_ge) auto
  ultimately have "len (items e ! nat j) + format_size + 1 \<le> int (length (line_of e j))"
    by (simp add: format_size_def)
  with Cons show ?case by (auto simp: total_of_def js_ok_def)
qed (simp add: total_of_def)

lemma total_pos: "js_ok e js \<Longrightarrow> js \<noteq> [] \<Longrightarrow> 0 < total_of e js"
proof (induction js)
  case (Cons j js)
  have "0 < len (items e ! nat j) + format_size"
    using Cons.prems by (auto simp: js_ok_def item_ok_def format_size_def)
  with Cons show ?case by (cases "js = []") (auto simp: total_of_def js_ok_def)
qed simp

lemma log_text_nonzero: "ring_ok e \<Longrightarrow> 0 \<notin> set (log_text e)"
  using js_ok_order[of e] by (auto simp: log_text_def js_ok_def dest: line_of_nonzero)

lemma line_of_length: "39 \<le> length (line_of e j)" if "0 \<le> j"
proof -
  have "dec_digits n \<noteq> []" for n by (subst dec_digits.simps) simp
  then have "1 \<le> length (dec_digits n)" for n by (cases "dec_digits n") auto
  from this[of "nat j"] this[of "timeStamp (items e ! nat j)"] that show ?thesis
    by (simp add: line_of_def fmt_line_def printf_d_def)
qed

lemma to_string_eq:
  assumes "ring_ok e" and "0 < cursor e" and "total_of e (order (cursor e)) < int_max"
  shows "msg_to_string' True e =
    (if int (length (log_text e)) \<le> total_of e (order (cursor e))
     then Some (Inr (int (length (log_text e)), Some (log_text e @
       replicate (nat (total_of e (order (cursor e)) + 1) - length (log_text e)) 0)))
     else Some (Inl Write_oob))"
proof -
  let ?js = "order (cursor e)"
  let ?k = "nat (total_of e ?js + 1)"
  have e: "0 \<le> cursor e" "length (items e) = 3" using assms(1) by (auto simp: ring_ok_def)
  have ok: "js_ok e ?js" using assms(1) by (rule js_ok_order)
  have ne: "?js \<noteq> []" using assms(2) by (auto simp: order_def)
  note pos = total_pos[OF ok ne]
  have "\<forall>j\<in>set ?js. 0 \<le> len (items e ! nat j)" using ok by (auto simp: js_ok_def item_ok_def)
  then have "total_loop e (head_pos e) (head_pos e) 0 = Some (Inr (total_of e ?js))"
    using total_loop_eq[OF visits_order[OF e(1)], of 0] e(2) ok assms(3)
    by (auto simp: js_ok_def total_of_def)
  moreover have "lines_loop e (head_pos e) (head_pos e) ([] @ replicate ?k 0) =
      (if length (log_text e) < ?k then Some (Inr ([] @ log_text e @ replicate (?k - length (log_text e)) 0))
       else Some (Inl Write_oob))"
    unfolding log_text_def using ok pos
    by (intro lines_loop_eq[OF visits_order[OF e(1)] _ e(2)]) (auto simp: js_ok_def)
  moreover have "strlen (log_text e @ replicate (?k - length (log_text e)) 0) 0 = Inr (length (log_text e))"
    if "length (log_text e) < ?k"
  proof -
    from that obtain d where "?k - length (log_text e) = Suc d" by (metis Suc_diff_Suc)
    then show ?thesis using strlen_text[OF log_text_nonzero[OF assms(1)]] by simp
  qed
  moreover have "chk (total_of e ?js + 1) = Inr (total_of e ?js + 1)"
    using pos assms(3) by (simp add: chk_def int_min_def)
  ultimately show ?thesis using pos assms(3) by (auto simp: msg_to_string'_def int_of_size_in)
qed

text \<open>
  As long as the times of the messages have at most nine digits, msg_to_string writes the
  lines of the messages, oldest first, and returns their length, when the buffer announced as
  having n bytes is that long and n is enough; the space computed fits an int.
\<close>

theorem msg_to_string_text:
  assumes "ring_ok e" and "0 < cursor e" and "\<forall>(t, s)\<in>set (recent_msgs e). t < 10 ^ 9"
    and "length (log_text e) \<le> n" and "n \<le> length buf" and "total_of e (order (cursor e)) < int_max"
  shows "msg_to_string True (Some e) (Some buf) (int n) =
    Some (Inr (int (length (log_text e)),
      Some (log_text e @ replicate (n - length (log_text e)) 0 @ drop n buf)))"
proof -
  let ?js = "order (cursor e)"
  have "\<forall>j\<in>set ?js. timeStamp (items e ! nat j) < 10 ^ 9"
    using assms(3) by (auto simp: recent_msgs_def)
  from text_fits[OF js_ok_order[OF assms(1)] this] have fit: "int (length (log_text e)) \<le> total_of e ?js"
    by (simp add: log_text_def)
  obtain j js where js: "?js = j # js" "0 \<le> j"
    using assms(2) order_range[of "cursor e"] by (cases ?js) (auto simp: order_def split: if_splits)
  then have len: "0 < length (log_text e)" using line_of_length[OF js(2), of e] by (auto simp: log_text_def)
  have str: "strncpy_bytes (log_text e @ r) (length (log_text e)) = log_text e" for r
    using log_text_nonzero[OF assms(1)] by (simp add: strncpy_bytes_def takeWhile_id)
  have "wrs buf 0 (replicate n 0) = Inr (replicate n 0 @ drop n buf)"
    using assms(5) wrs_in[of 0 "replicate n 0" buf] by simp
  moreover have "wrs (replicate n 0 @ drop n buf) 0 (log_text e) =
      Inr (log_text e @ replicate (n - length (log_text e)) 0 @ drop n buf)"
    using assms(4) wrs_in[of 0 "log_text e" "replicate n 0 @ drop n buf"] by simp
  ultimately show ?thesis
    using to_string_eq[OF assms(1,2,6)] fit len assms(4) str less_le_trans[OF len assms(4)] by (simp add: msg_to_string_def)
qed

text \<open>
  Since September 2001 the time has ten digits.  Each line is then one byte longer than the
  space computed for it, and msg_to_string writes past the block it allocated, for any number of
  messages.
\<close>

theorem msg_to_string_overflow:
  assumes "ring_ok e" and "0 < cursor e" and "\<forall>(t, s)\<in>set (recent_msgs e). 10 ^ 9 \<le> t" and "0 < n"
    and "total_of e (order (cursor e)) < int_max"
  shows "msg_to_string True (Some e) (Some buf) n = Some (Inl Write_oob)"
proof -
  let ?js = "order (cursor e)"
  have "\<forall>j\<in>set ?js. 10 ^ 9 \<le> timeStamp (items e ! nat j)"
    using assms(3) by (auto simp: recent_msgs_def)
  from text_too_long[OF js_ok_order[OF assms(1)] this] have "total_of e ?js + int (length ?js) \<le> int (length (log_text e))"
    by (simp add: log_text_def)
  moreover have "0 < length ?js" using assms(2) by (auto simp: order_def)
  ultimately have "\<not> int (length (log_text e)) \<le> total_of e ?js" by linarith
  then show ?thesis using to_string_eq[OF assms(1,2,5)] assms(4) by (simp add: msg_to_string_def)
qed

definition one_msg :: "nat \<Rightarrow> entity" where
  "one_msg t = \<lparr>cursor = 1, items = [new_item t [65], \<lparr>timeStamp = 0, msg = None, len = 0\<rparr>,
     \<lparr>timeStamp = 0, msg = None, len = 0\<rparr>]\<rparr>"

lemma one_msg_total: "total_of (one_msg t) (order (cursor (one_msg t))) < int_max"
  by (simp add: one_msg_def order_def total_of_def new_item_def format_size_def int_max_def)

lemma one_msg: "ring_ok (one_msg t)" "recent_msgs (one_msg t) = [(t, [65])]" "cursor (one_msg t) = 1"
  using new_item_ok[of "[65]" t]
  by (simp_all add: one_msg_def ring_ok_def order_def recent_msgs_def) (simp_all add: new_item_def)

theorem msg_to_string_text_witness:
  "msg_to_string True (Some (one_msg 5)) (Some (replicate 60 9)) 50 =
    Some (Inr (int (length (log_text (one_msg 5))),
      Some (log_text (one_msg 5) @ replicate (50 - length (log_text (one_msg 5))) 0 @ replicate 10 9)))"
proof -
  have "int (length (log_text (one_msg 5))) \<le> total_of (one_msg 5) (order 1)"
    using text_fits[OF js_ok_order[OF one_msg(1)[of 5]]] one_msg(3)[of 5]
    by (simp add: log_text_def order_def one_msg_def new_item_def)
  also have "\<dots> = 48" by (simp add: total_of_def order_def one_msg_def new_item_def format_size_def)
  finally have "length (log_text (one_msg 5)) \<le> 50" by simp
  then show ?thesis
    using msg_to_string_text[of "one_msg 5" 50 "replicate 60 9"] one_msg[of 5] one_msg_total[of 5] by simp
qed

theorem msg_to_string_overflow_witness:
  "msg_to_string True (Some (one_msg 1577880953)) (Some (replicate 60 9)) 60 = Some (Inl Write_oob)"
  using msg_to_string_overflow[of "one_msg 1577880953" 60] one_msg[of 1577880953] one_msg_total[of 1577880953] by simp

section \<open>The program\<close>

text \<open>
  The main function adds three messages to the entity it is given, prints them, clears the entity and prints it
  again; the times are those of the three additions.
\<close>

definition print_string :: "mem option \<Rightarrow> byte list c" where
  "print_string buf =
     (case buf of None \<Rightarrow> Inl Null_deref
      | Some b \<Rightarrow> cbind (strlen b 0) (\<lambda>k. Inr (ascii ''String:'' @ take k b @ [10])))"

definition ring_main :: "nat \<Rightarrow> nat \<Rightarrow> nat \<Rightarrow> byte list c option" where
  "ring_main t1 t2 t3 =
     obind (Some (getActionOutMsgEntity True None)) (\<lambda>(repo, mgr).
     case mgr of None \<Rightarrow> Some (Inl Null_deref)
     | Some m \<Rightarrow>
       let e = Some (case repo of InRepo \<Rightarrow> actionInRepo m | OutRepo \<Rightarrow> actionOutRepo m) in
       obind (Some (msg_add True t1 e (Some (ascii ''aaaa'' @ [0])))) (\<lambda>(_, e).
       obind (Some (msg_add True t2 e (Some (ascii ''bbbb'' @ [0])))) (\<lambda>(_, e).
       obind (Some (msg_add True t3 e (Some (ascii ''cccc'' @ [0])))) (\<lambda>(_, e).
       obind (msg_to_string True e (Some (replicate 1024 0)) 1024) (\<lambda>(msgLen, msgStr).
       obind (Some (print_string msgStr)) (\<lambda>o1.
       obind (msg_to_string True (msg_clear e) msgStr 1024) (\<lambda>(msgLen, msgStr).
       obind (Some (print_string msgStr)) (\<lambda>o2. Some (Inr (o1 @ o2))))))))))"

definition three_msgs :: "nat \<Rightarrow> nat \<Rightarrow> nat \<Rightarrow> entity" where
  "three_msgs t1 t2 t3 = \<lparr>cursor = 3, items = [new_item t1 (ascii ''aaaa''), new_item t2 (ascii ''bbbb''), new_item t3 (ascii ''cccc'')]\<rparr>"

lemma ring_main_adds:
  "ring_main t1 t2 t3 =
     obind (msg_to_string True (Some (three_msgs t1 t2 t3)) (Some (replicate 1024 0)) 1024) (\<lambda>(msgLen, msgStr).
     obind (Some (print_string msgStr)) (\<lambda>o1.
     obind (msg_to_string True (msg_clear (Some (three_msgs t1 t2 t3))) msgStr 1024) (\<lambda>(msgLen, msgStr).
     obind (Some (print_string msgStr)) (\<lambda>o2. Some (Inr (o1 @ o2))))))"
proof -
  have z: "0 \<notin> set (ascii ''aaaa'')" "0 \<notin> set (ascii ''bbbb'')" "0 \<notin> set (ascii ''cccc'')" by (simp_all add: ascii_def)
  note add = msg_add_eq[OF c_strI[OF z(1), of "[]"]] msg_add_eq[OF c_strI[OF z(2), of "[]"]] msg_add_eq[OF c_strI[OF z(3), of "[]"]]
  have l: "length (ascii ''aaaa'') = 4" "length (ascii ''bbbb'') = 4" "length (ascii ''cccc'') = 4"
    by (simp_all add: ascii_def)
  have "replicate 3 x = [x, x, x]" for x :: item by (simp add: numeral_3_eq_3)
  then show ?thesis
    by (simp add: ring_main_def getActionOutMsgEntity_def getActionMsgInstance_def init_msg_entity_def zero_entity_def Let_def
        add l int_max_def slot_def three_msgs_def)
qed

lemma new_item_time [simp]: "timeStamp (new_item t s) = t"
  by (simp add: new_item_def)

lemma three_msgs:
  "ring_ok (three_msgs t1 t2 t3)" "0 < cursor (three_msgs t1 t2 t3)"
  "recent_msgs (three_msgs t1 t2 t3) = [(t1, ascii ''aaaa''), (t2, ascii ''bbbb''), (t3, ascii ''cccc'')]"
  "log_text (three_msgs t1 t2 t3) = fmt_line 0 t1 (ascii ''aaaa'') @ fmt_line 1 t2 (ascii ''bbbb'') @ fmt_line 2 t3 (ascii ''cccc'')"
proof -
  have z: "0 \<notin> set (ascii ''aaaa'')" "0 \<notin> set (ascii ''bbbb'')" "0 \<notin> set (ascii ''cccc'')" by (simp_all add: ascii_def)
  note new_item_ok[OF z(1)] new_item_ok[OF z(2)] new_item_ok[OF z(3)]
  then show "ring_ok (three_msgs t1 t2 t3)" "0 < cursor (three_msgs t1 t2 t3)"
    "recent_msgs (three_msgs t1 t2 t3) = [(t1, ascii ''aaaa''), (t2, ascii ''bbbb''), (t3, ascii ''cccc'')]"
    "log_text (three_msgs t1 t2 t3) = fmt_line 0 t1 (ascii ''aaaa'') @ fmt_line 1 t2 (ascii ''bbbb'') @ fmt_line 2 t3 (ascii ''cccc'')"
    by (simp_all add: ring_ok_def recent_msgs_def log_text_def line_of_def order_def three_msgs_def)
qed

lemma three_msgs_total: "total_of (three_msgs t1 t2 t3) (order (cursor (three_msgs t1 t2 t3))) < int_max"
  by (simp add: total_of_def order_def three_msgs_def new_item_def format_size_def ascii_def int_max_def)

lemma cleared_to_string:
  assumes "length buf = 1024"
  shows "msg_to_string True (msg_clear (Some e)) (Some buf) 1024 = Some (Inr (-1, Some (replicate 1024 0)))"
proof -
  let ?e = "e\<lparr>items := map clear_item (items e), cursor := 0\<rparr>"
  have "total_loop ?e (head_pos ?e) (head_pos ?e) 0 = Some (Inr 0)"
    by (subst total_loop.simps) (simp add: head_pos_def MAX_MSG_ITEMS_def)
  moreover have "wrs buf 0 (replicate 1024 0) = Inr (replicate 1024 0)"
    using assms wrs_in[of 0 "replicate 1024 0" buf] by simp
  ultimately show ?thesis by (simp add: msg_clear_def msg_to_string_def msg_to_string'_def)
qed

lemma three_msgs_length:
  assumes "t1 < 10 ^ 9" and "t2 < 10 ^ 9" and "t3 < 10 ^ 9"
  shows "length (log_text (three_msgs t1 t2 t3)) < 1024"
proof -
  let ?e = "three_msgs t1 t2 t3"
  have "\<forall>j\<in>set (order (cursor ?e)). timeStamp (items ?e ! nat j) < 10 ^ 9"
    using assms by (simp add: three_msgs_def order_def new_item_def)
  from text_fits[OF js_ok_order[OF three_msgs(1)] this] have "int (length (log_text ?e)) \<le> total_of ?e (order (cursor ?e))"
    by (simp add: log_text_def)
  also have "\<dots> < 1024" by (simp add: total_of_def order_def three_msgs_def new_item_def format_size_def ascii_def)
  finally show ?thesis by simp
qed

text \<open>
  C20.  The program prints the lines of its three messages and, after the entity is cleared, nothing, as it did when
  the time had nine digits; since September 2001 it writes past the block it allocates.
\<close>

theorem ring_program:
  "(t1 < 10 ^ 9 \<and> t2 < 10 ^ 9 \<and> t3 < 10 ^ 9 \<longrightarrow> ring_main t1 t2 t3 = Some (Inr (
     ascii ''String:'' @ fmt_line 0 t1 (ascii ''aaaa'') @ fmt_line 1 t2 (ascii ''bbbb'') @ fmt_line 2 t3 (ascii ''cccc'') @ [10] @
     ascii ''String:'' @ [10]))) \<and>
   (10 ^ 9 \<le> t1 \<and> 10 ^ 9 \<le> t2 \<and> 10 ^ 9 \<le> t3 \<longrightarrow> ring_main t1 t2 t3 = Some (Inl Write_oob))"
proof -
  let ?e = "three_msgs t1 t2 t3" and ?l = "log_text (three_msgs t1 t2 t3)"
  note e = three_msgs[of t1 t2 t3]
  have over: "ring_main t1 t2 t3 = Some (Inl Write_oob)" if "10 ^ 9 \<le> t1 \<and> 10 ^ 9 \<le> t2 \<and> 10 ^ 9 \<le> t3"
    using msg_to_string_overflow[OF e(1,2), of 1024] e(3) that three_msgs_total by (simp add: ring_main_adds)
  show ?thesis
  proof (intro conjI impI)
    assume t: "t1 < 10 ^ 9 \<and> t2 < 10 ^ 9 \<and> t3 < 10 ^ 9"
    then have l: "length ?l < 1024" by (intro three_msgs_length) simp_all
    have "msg_to_string True (Some ?e) (Some (replicate 1024 0)) (int 1024) =
        Some (Inr (int (length ?l), Some (?l @ replicate (1024 - length ?l) 0 @ drop 1024 (replicate 1024 0))))"
      by (rule msg_to_string_text[OF e(1,2)]) (use t l e(3) three_msgs_total in simp_all)
    then have s: "msg_to_string True (Some ?e) (Some (replicate 1024 0)) 1024 = Some (Inr (int (length ?l), Some (?l @ replicate (1024 - length ?l) 0)))"
      by simp
    obtain k where k: "1024 - length ?l = Suc k" using l by (metis Suc_diff_Suc)
    have "print_string (Some (?l @ replicate (1024 - length ?l) 0)) = Inr (ascii ''String:'' @ ?l @ [10])"
      unfolding k using strlen_text[OF log_text_nonzero[OF e(1)]] by (simp add: print_string_def)
    moreover have "print_string (Some (replicate 1024 0)) = Inr (ascii ''String:'' @ [10])"
      using strlen_text[of "[]" "replicate 1023 0"] by (simp add: print_string_def flip: replicate_Suc)
    ultimately show "ring_main t1 t2 t3 = Some (Inr (
       ascii ''String:'' @ fmt_line 0 t1 (ascii ''aaaa'') @ fmt_line 1 t2 (ascii ''bbbb'') @ fmt_line 2 t3 (ascii ''cccc'') @ [10] @
       ascii ''String:'' @ [10]))"
      using s cleared_to_string[of "?l @ replicate (1024 - length ?l) 0" ?e] l by (simp add: ring_main_adds e(4))
  qed (use over in simp)
qed

theorem ring_program_witness:
  "ring_main 999999999 999999999 999999999 \<noteq> Some (Inl Write_oob) \<and>
   ring_main 1577880953 1577880954 1577880955 = Some (Inl Write_oob)"
  using ring_program[of 999999999 999999999 999999999] ring_program[of 1577880953 1577880954 1577880955] by simp

end
