(* ===== verification/Nat_Check.thy ===== *)
theory Nat_Check
  imports C_Prelude
begin

text \<open>
  The client of the NAT test, P2P/natcheck.c: the state machine that talks to three servers and
  collects the public addresses they report.  What the system calls return is input: each step has
  the results of its calls as arguments, and a loop that runs until a call would block has the list
  of the results before that.  Addresses and ports are byte lists in network order.  The
  diagnostics on stderr are not represented.
\<close>

section \<open>State\<close>

record sockaddr =
  saddr :: "byte list"
  sport :: "byte list"

definition INADDR_ANY :: "byte list" where
  "INADDR_ANY = [0, 0, 0, 0]"

definition any_addr :: sockaddr where
  "any_addr = \<lparr>saddr = INADDR_ANY, sport = [0, 0]\<rparr>"

text \<open>The magic numbers as they stand in a message, after htonl.\<close>

definition REQMAGIC :: "byte list" where "REQMAGIC = [0x76, 0x84, 0x92, 0x68]"
definition REPLMAGIC :: "byte list" where "REPLMAGIC = [0x01, 0x96, 0x72, 0x93]"
definition LOOPMAGIC :: "byte list" where "LOOPMAGIC = [0x86, 0x83, 0x61, 0x73]"

text \<open>\<open>sizeof\<close> of \<open>struct request\<close> and of \<open>struct reply\<close>, with its padding.\<close>

definition sizeof_rq :: nat where "sizeof_rq = 4"
definition sizeof_rp :: nat where "sizeof_rp = 12"

record natst =
  rfds :: "int set"
  wfds :: "int set"
  maxsock :: int
  tcp0 :: int
  tcp1 :: int
  tcp2 :: int
  tcp3 :: int
  tcp4 :: int
  udp1 :: int
  udp2 :: int
  incb :: int
  inloop :: int
  sin1 :: sockaddr
  sin2 :: sockaddr
  sin3 :: sockaddr
  myt1 :: sockaddr
  myt2 :: sockaddr
  myt3 :: sockaddr
  myu1 :: sockaddr
  myu2 :: sockaddr
  myu3 :: sockaddr
  tcploop :: bool
  udploop :: bool
  t3toosoon :: bool

text \<open>Results of connect, send and recv.  \<open>Data\<close> holds what the peer sent, before it is cut to the buffer.\<close>

datatype conn = Conn_ok | Conn_block | Conn_done | Conn_inuse | Conn_err
datatype sent = Sent | Send_block | Send_err
datatype recvd = Data "byte list" | Recv_block | Recv_err

section \<open>Checked calls\<close>

text \<open>
  The helpers that end the program when a call fails.  The arguments are the results of the calls:
  of gethostbyname (with its first address), of socket, of setsockopt for the two options, and of
  fcntl with F_GETFL and F_SETFL.
\<close>

definition getaddr :: "byte list option \<Rightarrow> byte list c" where
  "getaddr h = (case h of None \<Rightarrow> Inl (Exit 1) | Some a \<Rightarrow> Inr a)"

definition SERVPORT :: "byte list" where "SERVPORT = [0x26, 0x80]"

definition lookup :: "byte list option \<Rightarrow> sockaddr c" where
  "lookup h = cbind (getaddr h) (\<lambda>a. Inr \<lparr>saddr = a, sport = SERVPORT\<rparr>)"

definition mksock :: "int \<Rightarrow> int c" where
  "mksock sock = (if sock < 0 then Inl (Exit 1) else Inr sock)"

definition setreuse :: "int \<times> int \<Rightarrow> unit c" where
  "setreuse r = (if fst r < 0 \<or> snd r < 0 then Inl (Exit 1) else Inr ())"

definition setnonblock :: "int \<times> int \<Rightarrow> unit c" where
  "setnonblock r = (if fst r < 0 \<or> snd r < 0 then Inl (Exit 1) else Inr ())"

fun each :: "('a \<Rightarrow> unit c) \<Rightarrow> 'a list \<Rightarrow> unit c" where
  "each f [] = Inr ()"
| "each f (x # xs) = cbind (f x) (\<lambda>_. each f xs)"

section \<open>Incoming connections\<close>

text \<open>\<open>FD_SET (fd, &set); maxsock = max (maxsock, fd)\<close>\<close>

definition fd_set_r :: "int \<Rightarrow> natst \<Rightarrow> natst" where
  "fd_set_r fd s = s\<lparr>rfds := insert fd (rfds s), maxsock := max (maxsock s) fd\<rparr>"

definition fd_set_w :: "int \<Rightarrow> natst \<Rightarrow> natst" where
  "fd_set_w fd s = s\<lparr>wfds := insert fd (wfds s), maxsock := max (maxsock s) fd\<rparr>"

text \<open>One accepted socket with its peer, or a hard error.\<close>

datatype accepted = Accepted int sockaddr | Accept_err

definition take_conn :: "natst \<Rightarrow> int \<Rightarrow> sockaddr \<Rightarrow> natst" where
  "take_conn s rc sin =
     (if saddr sin = saddr (sin3 s) \<and> sport sin = sport (sin3 s) then
        (if incb s < 0 then fd_set_r rc (s\<lparr>incb := rc\<rparr>) else s)
      else
        (if inloop s < 0 then fd_set_r rc (s\<lparr>inloop := rc\<rparr>) else s))"

fun listentcp :: "accepted list \<Rightarrow> natst \<Rightarrow> natst c" where
  "listentcp [] s = Inr s"
| "listentcp (Accept_err # _) s = Inl (Exit 1)"
| "listentcp (Accepted rc sin # rest) s = listentcp rest (take_conn s rc sin)"

section \<open>TCP servers\<close>

text \<open>
  \<open>checktcp\<close> is called on four pairs of a socket variable and an address variable; \<open>chan\<close> names
  the pair.
\<close>

datatype chan = T1 | T2 | T3 | CB

fun sock_of :: "chan \<Rightarrow> natst \<Rightarrow> int" where
  "sock_of T1 s = tcp1 s" | "sock_of T2 s = tcp2 s" | "sock_of T3 s = tcp3 s" | "sock_of CB s = incb s"

fun drop_sock :: "chan \<Rightarrow> natst \<Rightarrow> natst" where
  "drop_sock T1 s = s\<lparr>tcp1 := -1\<rparr>" | "drop_sock T2 s = s\<lparr>tcp2 := -1\<rparr>"
| "drop_sock T3 s = s\<lparr>tcp3 := -1\<rparr>" | "drop_sock CB s = s\<lparr>incb := -1\<rparr>"

fun my_of :: "chan \<Rightarrow> natst \<Rightarrow> sockaddr" where
  "my_of T1 s = myt1 s" | "my_of T2 s = myt2 s" | "my_of T3 s = myt3 s" | "my_of CB s = myt3 s"

fun set_my :: "chan \<Rightarrow> sockaddr \<Rightarrow> natst \<Rightarrow> natst" where
  "set_my T1 a s = s\<lparr>myt1 := a\<rparr>" | "set_my T2 a s = s\<lparr>myt2 := a\<rparr>"
| "set_my T3 a s = s\<lparr>myt3 := a\<rparr>" | "set_my CB a s = s\<lparr>myt3 := a\<rparr>"

record tcpenv =
  e_conn :: conn   \<comment> \<open>the retried connect\<close>
  e_send :: sent
  e_recv :: recvd
  e_conn3 :: conn  \<comment> \<open>connect to server 3\<close>
  e_conn4 :: conn  \<comment> \<open>connect to the own public address\<close>

definition closeit :: "chan \<Rightarrow> natst \<Rightarrow> natst" where
  "closeit ch s = drop_sock ch (s\<lparr>rfds := rfds s - {sock_of ch s}\<rparr>)"

text \<open>What \<open>checktcp\<close> does when server 2 has answered.\<close>

definition server2_answered :: "tcpenv \<Rightarrow> natst \<Rightarrow> natst c" where
  "server2_answered env s =
     (let s1 = (if e_conn3 env = Conn_inuse then s
                else if e_conn3 env \<noteq> Conn_ok \<and> e_conn3 env \<noteq> Conn_block then s
                else fd_set_w (tcp3 s) s)
      in if e_conn4 env \<noteq> Conn_ok \<and> e_conn4 env \<noteq> Conn_block then Inl (Exit 1)
         else Inr (fd_set_w (tcp4 s1) s1))"

text \<open>From the assignments to \<open>mysin\<close> on.\<close>

definition record_answer :: "int \<Rightarrow> chan \<Rightarrow> tcpenv \<Rightarrow> sockaddr \<Rightarrow> natst \<Rightarrow> natst c" where
  "record_answer servn ch env a s =
     cbind (if servn = 2 then server2_answered env (set_my ch a s) else Inr (set_my ch a s))
       (\<lambda>s2. Inr (closeit ch s2))"

definition checktcp :: "int \<Rightarrow> chan \<Rightarrow> tcpenv \<Rightarrow> natst \<Rightarrow> natst c" where
  "checktcp servn ch env s =
     (let sock = sock_of ch s in
      if sock < 0 then Inr s
      else if sock \<in> wfds s then
        (case e_conn env of
           Conn_block \<Rightarrow> Inr s
         | Conn_inuse \<Rightarrow> Inl (Exit 1)
         | Conn_err \<Rightarrow> Inl (Exit 1)
         | _ \<Rightarrow> (case e_send env of Send_block \<Rightarrow> Inr s | Send_err \<Rightarrow> Inl (Exit 1)
             | Sent \<Rightarrow> Inr (s\<lparr>wfds := wfds s - {sock}, rfds := insert sock (rfds s)\<rparr>)))
      else if sock \<notin> rfds s then Inr s
      else (case e_recv env of
          Recv_block \<Rightarrow> Inr s
        | Recv_err \<Rightarrow> Inl (Exit 1)
        | Data d \<Rightarrow>
            (let rp = take sizeof_rp d in
             if length rp < sizeof_rp then Inr (closeit ch s)
             else if take 4 rp \<noteq> REPLMAGIC then Inr (closeit ch s)
             else if saddr (my_of ch s) \<noteq> INADDR_ANY then Inr (closeit ch s)
             else record_answer servn ch env \<lparr>saddr = take 4 (drop 4 rp), sport = take 2 (drop 8 rp)\<rparr> s)))"

section \<open>UDP servers\<close>

text \<open>The buffer \<open>rp\<close> is indeterminate at first; a datagram overwrites its first bytes.\<close>

type_synonym rpbuf = "byte option list"

definition rp_bytes :: "rpbuf \<Rightarrow> nat \<Rightarrow> nat \<Rightarrow> byte list c" where
  "rp_bytes rp a n = (if None \<in> set (take n (drop a rp)) then Inl Uninit
     else Inr (map the (take n (drop a rp))))"

definition rp_store :: "rpbuf \<Rightarrow> byte list \<Rightarrow> rpbuf" where
  "rp_store rp d = map Some (take sizeof_rp d) @ drop (length (take sizeof_rp d)) rp"

text \<open>The variables of one server: the address it has, and the address it reported.\<close>

definition checkudp :: "sockaddr \<Rightarrow> sockaddr \<Rightarrow> sockaddr \<Rightarrow> sockaddr \<Rightarrow> bool \<times> sockaddr" where
  "checkudp rp sin servsin mysin =
     (if saddr sin \<noteq> saddr servsin \<or> sport sin \<noteq> sport servsin then (False, mysin)
      else if saddr mysin \<noteq> INADDR_ANY then (True, mysin)
      else (True, \<lparr>saddr = saddr rp, sport = sport rp\<rparr>))"

text \<open>The three calls, joined with \<open>&&\<close>.\<close>

definition checkudps :: "sockaddr \<Rightarrow> sockaddr \<Rightarrow> natst \<Rightarrow> natst" where
  "checkudps rp sin s =
     (let (r1, m1) = checkudp rp sin (sin1 s) (myu1 s); s1 = s\<lparr>myu1 := m1\<rparr> in
      if r1 then s1
      else let (r2, m2) = checkudp rp sin (sin2 s1) (myu2 s1); s2 = s1\<lparr>myu2 := m2\<rparr> in
      if r2 then s2
      else let (r3, m3) = checkudp rp sin (sin3 s2) (myu3 s2) in s2\<lparr>myu3 := m3\<rparr>)"

datatype dgram = Dgram "byte list" sockaddr | Dgram_err

text \<open>
  After a hard error \<open>rc\<close> is -1, which as an unsigned number is not less than the size of a reply,
  so the loop goes on with what is in \<open>rp\<close> and \<open>sin\<close>.
\<close>

definition udp_reply :: "rpbuf \<Rightarrow> sockaddr option \<Rightarrow> natst \<Rightarrow> natst c" where
  "udp_reply rp sin s =
     cbind (rp_bytes rp 0 4) (\<lambda>magic.
       if magic \<noteq> REPLMAGIC then Inr s
       else case sin of None \<Rightarrow> Inl Uninit
         | Some a \<Rightarrow> cbind (rp_bytes rp 4 4) (\<lambda>ad. cbind (rp_bytes rp 8 2) (\<lambda>po.
             Inr (checkudps \<lparr>saddr = ad, sport = po\<rparr> a s))))"

fun recvudp_loop :: "dgram list \<Rightarrow> rpbuf \<Rightarrow> sockaddr option \<Rightarrow> natst \<Rightarrow> natst c" where
  "recvudp_loop [] rp sin s = Inr s"
| "recvudp_loop (Dgram_err # ds) rp sin s = cbind (udp_reply rp sin s) (recvudp_loop ds rp sin)"
| "recvudp_loop (Dgram d a # ds) rp sin s =
     (let rp' = rp_store rp d; rc = length (take sizeof_rp d) in
      if rc = sizeof_rq \<and> map Some LOOPMAGIC = take 4 rp' then recvudp_loop ds rp' (Some a) (s\<lparr>udploop := True\<rparr>)
      else if rc < sizeof_rp then recvudp_loop ds rp' (Some a) s
      else cbind (udp_reply rp' (Some a) s) (recvudp_loop ds rp' (Some a)))"

definition recvudp :: "dgram list \<Rightarrow> natst \<Rightarrow> natst c" where
  "recvudp ds s = recvudp_loop ds (replicate sizeof_rp None) None s"

section \<open>Loopback\<close>

definition checkloopback :: "conn \<Rightarrow> sent \<Rightarrow> recvd \<Rightarrow> natst \<Rightarrow> natst c" where
  "checkloopback cn sd rv s =
     cbind
       (if tcp4 s \<ge> 0 \<and> tcp4 s \<in> wfds s then
          (case cn of Conn_block \<Rightarrow> Inr s | Conn_inuse \<Rightarrow> Inl (Exit 1) | Conn_err \<Rightarrow> Inl (Exit 1)
           | _ \<Rightarrow> if sd = Send_block then Inr s else Inr (s\<lparr>wfds := wfds s - {tcp4 s}, tcp4 := -1\<rparr>))
        else Inr s)
       (\<lambda>s. if inloop s \<ge> 0 then
              (case rv of
                 Data d \<Rightarrow>
                   (let s1 = (if length (take sizeof_rq d) = sizeof_rq \<and> take 4 d = LOOPMAGIC
                              then s\<lparr>tcploop := True\<rparr> else s)
                    in Inr (s1\<lparr>rfds := rfds s1 - {inloop s1}, inloop := -1\<rparr>))
               | _ \<Rightarrow> Inr s)
            else Inr s)"

section \<open>The main program\<close>

text \<open>
  Results of the calls of the set-up phase: the sockets, the ports they were bound to, and whether
  bind, listen and getsockname succeeded.  \<open>u_tries\<close> are the UDP sockets, tried until the port
  differs from the TCP port; \<open>u_reuse\<close> and \<open>u_block\<close> have an entry for each socket.
\<close>

record setup_env =
  u_tcp0 :: int
  u_bind0 :: bool
  u_tport :: "byte list"
  u_tries :: "(int \<times> bool \<times> byte list) list"
  u_tcp1 :: int
  u_tcp2 :: int
  u_tcp3 :: int
  u_tcp4 :: int
  u_udp2 :: int
  u_reuse :: "(int \<times> int) list"
  u_block :: "(int \<times> int) list"
  u_bind :: bool
  u_conn1 :: conn
  u_conn2 :: conn

text \<open>\<open>None\<close>: the search for a UDP port did not end with the attempts given.\<close>

fun pick_udp :: "byte list \<Rightarrow> (int \<times> bool \<times> byte list) list \<Rightarrow> int c option" where
  "pick_udp tport [] = None"
| "pick_udp tport ((sock, ok, port) # rest) =
     (if sock < 0 \<or> \<not> ok then Some (Inl (Exit 1))
      else if port = [0, 0] then Some (Inl Abort)
      else if port = tport then pick_udp tport rest
      else Some (Inr sock))"

text \<open>The first socket, bound to a port that the system chose.\<close>

definition bind_tcp0 :: "setup_env \<Rightarrow> int c" where
  "bind_tcp0 u = cbind (mksock (u_tcp0 u)) (\<lambda>t0.
     if \<not> u_bind0 u then Inl (Exit 1) else if u_tport u = [0, 0] then Inl Abort else Inr t0)"

text \<open>The global variables before the first connect.\<close>

definition clear_state :: "int \<Rightarrow> int \<Rightarrow> int \<Rightarrow> int \<Rightarrow> int \<Rightarrow> int \<Rightarrow> int \<Rightarrow> sockaddr \<Rightarrow> sockaddr \<Rightarrow> sockaddr \<Rightarrow> natst" where
  "clear_state t0 ud1 t1 t2 t3 t4 ud2 a1 a2 a3 =
     \<lparr>rfds = {t0, ud1}, wfds = {}, maxsock = max (max 0 t0) ud1,
      tcp0 = t0, tcp1 = t1, tcp2 = t2, tcp3 = t3, tcp4 = t4, udp1 = ud1, udp2 = ud2,
      incb = -1, inloop = -1, sin1 = a1, sin2 = a2, sin3 = a3,
      myt1 = any_addr, myt2 = any_addr, myt3 = any_addr, myu1 = any_addr, myu2 = any_addr, myu3 = any_addr,
      tcploop = False, udploop = False, t3toosoon = False\<rparr>"

definition connect_server :: "conn \<Rightarrow> int \<Rightarrow> natst \<Rightarrow> natst c" where
  "connect_server cn sock s =
     (if cn \<noteq> Conn_ok \<and> cn \<noteq> Conn_block then Inl (Exit 1)
      else Inr (fd_set_w sock s))"

definition main_setup :: "setup_env \<Rightarrow> sockaddr \<Rightarrow> sockaddr \<Rightarrow> sockaddr \<Rightarrow> natst c option" where
  "main_setup u a1 a2 a3 =
     obind (Some (bind_tcp0 u)) (\<lambda>t0.
     obind (pick_udp (u_tport u) (u_tries u)) (\<lambda>ud1. Some (
       cbind (mksock (u_tcp1 u)) (\<lambda>t1. cbind (mksock (u_tcp2 u)) (\<lambda>t2.
       cbind (mksock (u_tcp3 u)) (\<lambda>t3. cbind (mksock (u_tcp4 u)) (\<lambda>t4.
       cbind (mksock (u_udp2 u)) (\<lambda>ud2.
       cbind (each setreuse (u_reuse u)) (\<lambda>_. cbind (each setnonblock (u_block u)) (\<lambda>_.
         if \<not> u_bind u then Inl (Exit 1)
         else cbind (connect_server (u_conn1 u) t1 (clear_state t0 ud1 t1 t2 t3 t4 ud2 a1 a2 a3))
           (connect_server (u_conn2 u) t2)))))))))))"

text \<open>One pass of the inner loop; the first result says whether select timed out.\<close>

record pass =
  r_select :: int
  r_accept :: "accepted list"
  r_t1 :: tcpenv
  r_t2 :: tcpenv
  r_t3 :: tcpenv
  r_cb :: tcpenv
  r_conn :: conn
  r_send :: sent
  r_recv :: recvd
  r_udp :: "dgram list"

definition note_early :: "natst \<Rightarrow> natst" where
  "note_early s = (if sport (myt3 s) \<noteq> [0, 0] \<and> sport (myt2 s) = [0, 0] then s\<lparr>t3toosoon := True\<rparr> else s)"

definition main_round :: "pass \<Rightarrow> natst \<Rightarrow> (bool \<times> natst) c" where
  "main_round r s =
     (if r_select r < 0 then Inl (Exit 1)
      else cbind (listentcp (r_accept r) s) (\<lambda>s.
           cbind (checktcp 1 T1 (r_t1 r) s) (\<lambda>s.
           cbind (checktcp 2 T2 (r_t2 r) s) (\<lambda>s.
           cbind (checktcp 3 T3 (r_t3 r) s) (\<lambda>s.
           cbind (checktcp 3 CB (r_cb r) s) (\<lambda>s.
           cbind (checkloopback (r_conn r) (r_send r) (r_recv r) (note_early s)) (\<lambda>s.
           cbind (recvudp (r_udp r) s) (\<lambda>s. Inr (r_select r = 0, s)))))))))"

text \<open>The inner loop, over the rounds up to one that times out.\<close>

fun main_rounds :: "pass list \<Rightarrow> natst \<Rightarrow> natst c" where
  "main_rounds [] s = Inr s"
| "main_rounds (r # rs) s = cbind (main_round r s) (\<lambda>(timeout, s).
     if timeout then Inr s else main_rounds rs s)"

text \<open>One request: whether the three sendto calls succeed, and the rounds that follow.\<close>

definition main_try :: "(bool \<times> bool \<times> bool) \<times> pass list \<Rightarrow> natst \<Rightarrow> natst c" where
  "main_try t s =
     (case t of ((ok1, ok2, ok3), rs) \<Rightarrow>
        if \<not> ok1 \<or> \<not> ok2 then Inl (Exit 1)
        else if saddr (myu2 s) \<noteq> INADDR_ANY \<and> \<not> ok3 then Inl (Exit 1)
        else main_rounds rs s)"

definition NTRIES :: nat where "NTRIES = 20"

fun main_tries :: "((bool \<times> bool \<times> bool) \<times> pass list) list \<Rightarrow> natst \<Rightarrow> natst c" where
  "main_tries [] s = Inr s"
| "main_tries (t # ts) s = cbind (main_try t s) (main_tries ts)"

text \<open>The answers printed at the end; \<open>True\<close> is YES.\<close>

record report =
  tcp_consistent :: bool
  tcp_simultaneous :: bool
  tcp_loopback :: bool
  tcp_filtered :: bool
  udp_consistent :: bool
  udp_loopback :: bool
  udp_filtered :: bool

definition main_report :: "natst \<Rightarrow> report c" where
  "main_report s =
     (if saddr (myt1 s) = INADDR_ANY \<or> saddr (myt2 s) = INADDR_ANY \<or>
         saddr (myu1 s) = INADDR_ANY \<or> saddr (myu2 s) = INADDR_ANY then Inl (Exit 1)
      else Inr
       \<lparr>tcp_consistent = (saddr (myt1 s) = saddr (myt2 s) \<and> sport (myt1 s) = sport (myt2 s)),
        tcp_simultaneous = (sport (myt3 s) \<noteq> [0, 0]),
        tcp_loopback = tcploop s,
        tcp_filtered = (\<not> t3toosoon s),
        udp_consistent = (saddr (myu1 s) = saddr (myu2 s) \<and> sport (myu1 s) = sport (myu2 s)),
        udp_loopback = udploop s,
        udp_filtered = (saddr (myu3 s) = INADDR_ANY)\<rparr>)"

text \<open>The arguments after the program name; the result is \<open>verbose\<close>.\<close>

definition natcheck_args :: "byte list list \<Rightarrow> bool c" where
  "natcheck_args args = (if list_all (\<lambda>a. a = [45, 118]) args then Inr (args \<noteq> []) else Inl (Exit 1))"

definition natcheck_main :: "byte list list \<Rightarrow> byte list option \<Rightarrow> byte list option \<Rightarrow> byte list option \<Rightarrow>
    setup_env \<Rightarrow> ((bool \<times> bool \<times> bool) \<times> pass list) list \<Rightarrow> report c option" where
  "natcheck_main args h1 h2 h3 u ts =
     obind (Some (natcheck_args args)) (\<lambda>_.
     obind (Some (lookup h1)) (\<lambda>a1. obind (Some (lookup h2)) (\<lambda>a2. obind (Some (lookup h3)) (\<lambda>a3.
     obind (main_setup u a1 a2 a3) (\<lambda>s.
       if length ts = NTRIES then Some (cbind (main_tries ts s) main_report) else None)))))"

section \<open>What every step preserves\<close>

text \<open>
  \<open>grows s s'\<close>: an address that a server has reported is not changed any more, the flags are not
  taken back, and the addresses of the servers and the local sockets for UDP stay.
\<close>

definition kept :: "sockaddr \<Rightarrow> sockaddr \<Rightarrow> bool" where
  "kept a b \<longleftrightarrow> saddr a \<noteq> INADDR_ANY \<longrightarrow> b = a"

definition grows :: "natst \<Rightarrow> natst \<Rightarrow> bool" where
  "grows s s' \<longleftrightarrow> kept (myt1 s) (myt1 s') \<and> kept (myt2 s) (myt2 s') \<and> kept (myt3 s) (myt3 s') \<and>
     kept (myu1 s) (myu1 s') \<and> kept (myu2 s) (myu2 s') \<and> kept (myu3 s) (myu3 s') \<and>
     (tcploop s \<longrightarrow> tcploop s') \<and> (udploop s \<longrightarrow> udploop s') \<and> (t3toosoon s \<longrightarrow> t3toosoon s') \<and>
     sin1 s' = sin1 s \<and> sin2 s' = sin2 s \<and> sin3 s' = sin3 s"

text \<open>Every socket that select is asked to watch is below the bound given to select.\<close>

definition watched :: "natst \<Rightarrow> bool" where
  "watched s \<longleftrightarrow> (\<forall>fd. fd \<in> rfds s \<or> fd \<in> wfds s \<longrightarrow> fd \<le> maxsock s)"

definition step_ok :: "natst \<Rightarrow> natst \<Rightarrow> bool" where
  "step_ok s s' \<longleftrightarrow> grows s s' \<and> (watched s \<longrightarrow> watched s')"

lemma kept_refl [simp]: "kept a a"
  by (simp add: kept_def)

lemma step_ok_refl [simp]: "step_ok s s"
  by (simp add: step_ok_def grows_def)

lemma kept_trans: "kept a b \<Longrightarrow> kept b c \<Longrightarrow> kept a c"
  by (auto simp: kept_def)

lemma step_ok_trans: "step_ok s t \<Longrightarrow> step_ok t u \<Longrightarrow> step_ok s u"
  unfolding step_ok_def grows_def by (blast intro: kept_trans trans)

lemma step_ok_bind: "cbind x f = Inr u \<Longrightarrow> (\<And>t. x = Inr t \<Longrightarrow> step_ok s t) \<Longrightarrow>
    (\<And>t. f t = Inr u \<Longrightarrow> step_ok t u) \<Longrightarrow> step_ok s u"
  by (auto elim!: cbindE intro: step_ok_trans)

lemma step_fd_set_w: "step_ok s (fd_set_w fd s)"
  by (auto simp: fd_set_w_def step_ok_def grows_def watched_def le_max_iff_disj)

lemma step_fd_set_r: "step_ok s (fd_set_r fd s)"
  by (auto simp: fd_set_r_def step_ok_def grows_def watched_def le_max_iff_disj)

lemma step_locals:
  "step_ok s (s\<lparr>incb := a\<rparr>)" "step_ok s (s\<lparr>inloop := a\<rparr>)" "step_ok s (s\<lparr>tcp4 := a\<rparr>)"
  "step_ok s (drop_sock ch s)" "step_ok s (s\<lparr>udploop := True\<rparr>)" "step_ok s (s\<lparr>tcploop := True\<rparr>)"
  "step_ok s (s\<lparr>t3toosoon := True\<rparr>)"
  by (simp_all add: step_ok_def grows_def watched_def) (cases ch; simp)

lemma step_clear: "step_ok s (s\<lparr>rfds := rfds s - A\<rparr>)" "step_ok s (s\<lparr>wfds := wfds s - A\<rparr>)"
  by (simp_all add: step_ok_def grows_def watched_def)

lemma step_take_conn: "step_ok s (take_conn s rc sin)"
  unfolding take_conn_def
  by (auto intro: step_ok_trans[OF step_locals(1) step_fd_set_r] step_ok_trans[OF step_locals(2) step_fd_set_r])

lemma step_listentcp: "listentcp as s = Inr s' \<Longrightarrow> step_ok s s'"
  by (induction as s rule: listentcp.induct) (auto intro: step_ok_trans[OF step_take_conn])

lemma step_closeit: "step_ok s (closeit ch s)"
  unfolding closeit_def by (rule step_ok_trans[OF step_clear(1) step_locals(4)])

lemma step_set_my: "saddr (my_of ch s) = INADDR_ANY \<Longrightarrow> step_ok s (set_my ch a s)"
  by (cases ch) (simp_all add: step_ok_def grows_def watched_def, simp_all add: kept_def)

lemma step_server2: "server2_answered env s = Inr s' \<Longrightarrow> step_ok s s'"
  by (auto simp: server2_answered_def Let_def split: if_splits
      intro: step_fd_set_w step_ok_trans[OF step_fd_set_w step_fd_set_w])

lemma step_connected: "sock \<in> wfds s \<Longrightarrow> step_ok s (s\<lparr>wfds := wfds s - {sock}, rfds := insert sock (rfds s)\<rparr>)"
  by (simp add: step_ok_def grows_def watched_def)

lemma step_record_answer:
  assumes "saddr (my_of ch s) = INADDR_ANY" and "record_answer servn ch env a s = Inr s'"
  shows "step_ok s s'"
proof -
  obtain s2 where s2: "(if servn = 2 then server2_answered env (set_my ch a s) else Inr (set_my ch a s)) = Inr s2"
    "s' = closeit ch s2"
    using assms(2) by (auto simp: record_answer_def elim!: cbindE)
  then have "step_ok (set_my ch a s) s2" by (auto split: if_splits dest: step_server2)
  with step_set_my[OF assms(1)] s2(2) step_closeit show ?thesis by (blast intro: step_ok_trans)
qed

lemma step_checktcp: "checktcp servn ch env s = Inr s' \<Longrightarrow> step_ok s s'"
  unfolding checktcp_def Let_def
  by (auto split: if_split_asm conn.split_asm sent.split_asm recvd.split_asm
      intro: step_closeit step_connected step_record_answer)

lemma step_note_early: "step_ok s (note_early s)"
  by (simp add: note_early_def step_locals)

lemma checkudp_kept: "kept m (snd (checkudp rp sin servsin m))"
  by (simp add: checkudp_def kept_def)

lemma step_checkudps: "step_ok s (checkudps rp sin s)"
  using checkudp_kept
  by (simp add: checkudps_def Let_def step_ok_def grows_def watched_def case_prod_unfold)

lemma step_udp_reply: "udp_reply rp sin s = Inr s' \<Longrightarrow> step_ok s s'"
  by (auto simp: udp_reply_def intro: step_checkudps elim!: cbindE split: if_splits option.splits)

lemma step_recvudp_loop: "recvudp_loop ds rp sin s = Inr s' \<Longrightarrow> step_ok s s'"
proof (induction ds rp sin s rule: recvudp_loop.induct)
  case (2 ds rp sin s)
  then show ?case by (auto elim!: cbindE intro: step_ok_trans step_udp_reply)
next
  case (3 d a ds rp sin s)
  let ?rp = "rp_store rp d" and ?rc = "length (take sizeof_rp d)"
  show ?case
  proof (cases "?rc = sizeof_rq \<and> map Some LOOPMAGIC = take 4 ?rp")
    case True
    with 3(1)[OF refl refl True] 3(4) show ?thesis
      by (auto simp: Let_def intro: step_ok_trans[OF step_locals(5)])
  next
    case False
    with 3 show ?thesis
      by (auto simp: Let_def elim!: cbindE intro: step_ok_trans step_udp_reply split: if_splits)
  qed
qed simp

lemma step_recvudp: "recvudp ds s = Inr s' \<Longrightarrow> step_ok s s'"
  by (simp add: recvudp_def step_recvudp_loop)

lemma step_checkloopback: "checkloopback cn sd rv s = Inr s' \<Longrightarrow> step_ok s s'"
  unfolding checkloopback_def
proof (erule step_ok_bind)
  fix t
  assume "(if tcp4 s \<ge> 0 \<and> tcp4 s \<in> wfds s then
          (case cn of Conn_block \<Rightarrow> Inr s | Conn_inuse \<Rightarrow> Inl (Exit 1) | Conn_err \<Rightarrow> Inl (Exit 1)
           | _ \<Rightarrow> if sd = Send_block then Inr s else Inr (s\<lparr>wfds := wfds s - {tcp4 s}, tcp4 := -1\<rparr>))
        else Inr s) = Inr t"
  then show "step_ok s t"
    using step_ok_trans[OF step_clear(2)[of s "{tcp4 s}"] step_locals(3)]
    by (auto split: if_split_asm conn.split_asm)
next
  fix t
  assume t: "(if inloop t \<ge> 0 then
              (case rv of
                 Data d \<Rightarrow>
                   (let s1 = (if length (take sizeof_rq d) = sizeof_rq \<and> take 4 d = LOOPMAGIC
                              then t\<lparr>tcploop := True\<rparr> else t)
                    in Inr (s1\<lparr>rfds := rfds s1 - {inloop s1}, inloop := -1\<rparr>))
               | _ \<Rightarrow> Inr t)
            else Inr t) = Inr s'"
  have close: "step_ok u (u\<lparr>rfds := rfds u - {inloop u}, inloop := -1\<rparr>)" for u
    using step_ok_trans[OF step_clear(1)[of u "{inloop u}"] step_locals(2)[of _ "-1"]] by simp
  from t show "step_ok t s'"
    using close[of t] step_ok_trans[OF step_locals(6) close]
    by (auto simp: Let_def split: if_split_asm recvd.split_asm)
qed

lemma step_main_round:
  assumes "main_round r s = Inr (b, s')"
  shows "step_ok s s'"
proof -
  obtain s1 s2 s3 s4 s5 s6 where
    "listentcp (r_accept r) s = Inr s1" "checktcp 1 T1 (r_t1 r) s1 = Inr s2" "checktcp 2 T2 (r_t2 r) s2 = Inr s3"
    "checktcp 3 T3 (r_t3 r) s3 = Inr s4" "checktcp 3 CB (r_cb r) s4 = Inr s5"
    "checkloopback (r_conn r) (r_send r) (r_recv r) (note_early s5) = Inr s6" "recvudp (r_udp r) s6 = Inr s'"
    using assms by (auto simp: main_round_def elim!: cbindE split: if_splits)
  then have "step_ok s s1" "step_ok s1 s2" "step_ok s2 s3" "step_ok s3 s4" "step_ok s4 s5"
    "step_ok (note_early s5) s6" "step_ok s6 s'"
    by (blast dest: step_listentcp step_checktcp step_checkloopback step_recvudp)+
  with step_note_early[of s5] show ?thesis by (blast intro: step_ok_trans)
qed

lemma step_main_rounds: "main_rounds rs s = Inr s' \<Longrightarrow> step_ok s s'"
  by (induction rs s rule: main_rounds.induct)
    (auto elim!: cbindE intro: step_main_round step_ok_trans split: if_splits)

lemma step_main_tries: "main_tries ts s = Inr s' \<Longrightarrow> step_ok s s'"
proof (induction ts s rule: main_tries.induct)
  case (2 t ts s)
  then obtain u where u: "main_try t s = Inr u" "main_tries ts u = Inr s'" by (auto elim: cbindE)
  then have "step_ok s u" by (auto simp: main_try_def intro: step_main_rounds split: if_splits prod.splits)
  then show ?case using 2(1)[OF u(1,2)] by (rule step_ok_trans)
qed simp

lemma obindE: "obind x f = Some (Inr z) \<Longrightarrow> (\<And>y. x = Some (Inr y) \<Longrightarrow> f y = Some (Inr z) \<Longrightarrow> P) \<Longrightarrow> P"
  by (auto simp: obind_def split: option.splits sum.splits)

lemma main_setup_ok: "main_setup u a1 a2 a3 = Some (Inr s) \<Longrightarrow> watched s \<and> sin1 s = a1 \<and> sin2 s = a2 \<and> sin3 s = a3"
proof -
  assume "main_setup u a1 a2 a3 = Some (Inr s)"
  then obtain t0 ud1 t1 t2 t3 t4 ud2 where
    "cbind (connect_server (u_conn1 u) t1 (clear_state t0 ud1 t1 t2 t3 t4 ud2 a1 a2 a3)) (connect_server (u_conn2 u) t2) = Inr s"
    unfolding main_setup_def by (elim obindE cbindE) (auto elim!: cbindE split: if_splits)
  then show ?thesis
    by (auto simp: connect_server_def clear_state_def fd_set_w_def watched_def split: if_splits elim!: cbindE)
qed

text \<open>
  C2.  Through the whole run of natcheck every socket given to select stays below the bound given
  to select, and from any point on an address that a server has reported is never changed again,
  no flag is taken back, and the addresses of the servers stay what was looked up.
\<close>

theorem natcheck_invariant:
  assumes "main_setup u a1 a2 a3 = Some (Inr s0)" and "main_tries ts s0 = Inr s1"
    and "main_tries ts' s1 = Inr s2"
  shows "watched s1 \<and> watched s2 \<and> grows s1 s2 \<and> sin1 s2 = a1 \<and> sin2 s2 = a2 \<and> sin3 s2 = a3"
  using main_setup_ok[OF assms(1)] step_main_tries[OF assms(2)] step_main_tries[OF assms(3)]
  by (simp add: step_ok_def grows_def)

definition some_setup :: setup_env where
  "some_setup = \<lparr>u_tcp0 = 3, u_bind0 = True, u_tport = [1, 2], u_tries = [(4, True, [1, 3])], u_tcp1 = 5, u_tcp2 = 6,
     u_tcp3 = 7, u_tcp4 = 8, u_udp2 = 9, u_reuse = [(0, 0)], u_block = [(2, 0)], u_bind = True,
     u_conn1 = Conn_block, u_conn2 = Conn_block\<rparr>"

theorem natcheck_invariant_witness:
  "\<exists>s0. main_setup some_setup any_addr any_addr any_addr = Some (Inr s0) \<and> watched s0 \<and>
     sin1 s0 = any_addr"
proof -
  obtain s0 where s0: "main_setup some_setup any_addr any_addr any_addr = Some (Inr s0)"
    by (simp add: main_setup_def some_setup_def connect_server_def bind_tcp0_def mksock_def setreuse_def setnonblock_def)
  with natcheck_invariant[OF s0, of "[]" s0 "[]" s0] show ?thesis by simp
qed

section \<open>Where the UDP addresses come from\<close>

definition reply_of :: "byte list \<Rightarrow> sockaddr" where
  "reply_of d = \<lparr>saddr = take 4 (drop 4 d), sport = take 2 (drop 8 d)\<rparr>"

text \<open>A full reply with the magic number, sent from the address \<open>srv\<close>, that reports \<open>m\<close>.\<close>

definition replied :: "sockaddr \<Rightarrow> dgram list \<Rightarrow> sockaddr \<Rightarrow> bool" where
  "replied srv ds m \<longleftrightarrow> (\<exists>d a. Dgram d a \<in> set ds \<and> saddr a = saddr srv \<and> sport a = sport srv \<and>
     sizeof_rp \<le> length d \<and> take 4 d = REPLMAGIC \<and> m = reply_of d)"

definition from_servers :: "natst \<Rightarrow> dgram list \<Rightarrow> natst \<Rightarrow> bool" where
  "from_servers s ds s' \<longleftrightarrow> (myu1 s' = myu1 s \<or> replied (sin1 s) ds (myu1 s')) \<and>
     (myu2 s' = myu2 s \<or> replied (sin2 s) ds (myu2 s')) \<and> (myu3 s' = myu3 s \<or> replied (sin3 s) ds (myu3 s')) \<and>
     sin1 s' = sin1 s \<and> sin2 s' = sin2 s \<and> sin3 s' = sin3 s"

lemma replied_Cons: "replied srv ds m \<Longrightarrow> replied srv (x # ds) m"
  by (auto simp: replied_def)

lemma replied_single: "replied srv [x] m \<Longrightarrow> replied srv (x # ds) m"
  by (auto simp: replied_def)

lemma from_servers_refl: "from_servers s ds s"
  by (simp add: from_servers_def)

lemma from_servers_step:
  "from_servers s [x] s1 \<Longrightarrow> from_servers s1 ds s2 \<Longrightarrow> from_servers s (x # ds) s2"
  by (auto simp: from_servers_def intro: replied_Cons replied_single)

lemma rp_store_full: "sizeof_rp \<le> length d \<Longrightarrow> length rp = sizeof_rp \<Longrightarrow> rp_store rp d = map Some (take sizeof_rp d)"
  by (simp add: rp_store_def)

lemma length_rp_store: "length rp = sizeof_rp \<Longrightarrow> length (rp_store rp d) = sizeof_rp"
  by (auto simp: rp_store_def)

lemma rp_bytes_full: "rp_bytes (map Some xs) a n = Inr (take n (drop a xs))"
  by (simp add: rp_bytes_def take_map drop_map comp_def)

lemma udp_reply_full:
  assumes "sizeof_rp \<le> length d"
  shows "udp_reply (map Some (take sizeof_rp d)) (Some a) s =
    Inr (if take 4 d = REPLMAGIC then checkudps (reply_of d) a s else s)"
proof -
  have "take 4 (take sizeof_rp d) = take 4 d" "take 4 (drop 4 (take sizeof_rp d)) = take 4 (drop 4 d)"
    "take 2 (drop 8 (take sizeof_rp d)) = take 2 (drop 8 d)"
    by (simp_all add: sizeof_rp_def drop_take min_def)
  then show ?thesis by (simp add: udp_reply_def rp_bytes_full reply_of_def)
qed

lemma checkudps_from:
  assumes "sizeof_rp \<le> length d" and "take 4 d = REPLMAGIC"
  shows "from_servers s [Dgram d a] (checkudps (reply_of d) a s)"
  using assms
  by (auto simp: checkudps_def checkudp_def Let_def from_servers_def replied_def reply_of_def split: if_splits)

lemma recvudp_loop_from:
  "Dgram_err \<notin> set ds \<Longrightarrow> length rp = sizeof_rp \<Longrightarrow>
     \<exists>s'. recvudp_loop ds rp sin s = Inr s' \<and> from_servers s ds s'"
proof (induction ds arbitrary: rp sin s)
  case Nil
  then show ?case by (simp add: from_servers_refl)
next
  case (Cons x ds)
  then obtain d a where x: "x = Dgram d a" by (cases x) auto
  let ?rp = "rp_store rp d" and ?rc = "length (take sizeof_rp d)"
  have IH: "\<exists>s'. recvudp_loop ds ?rp (Some a) t = Inr s' \<and> from_servers t ds s'" for t
    using Cons.prems by (intro Cons.IH) (auto simp: length_rp_store)
  have step: "\<exists>s'. recvudp_loop ds ?rp (Some a) t = Inr s' \<and> from_servers s (x # ds) s'"
    if "from_servers s [x] t" for t
    using IH[of t] from_servers_step[OF that] by blast
  consider "?rc = sizeof_rq \<and> map Some LOOPMAGIC = take 4 ?rp" | "\<not> (?rc = sizeof_rq \<and> map Some LOOPMAGIC = take 4 ?rp)" "?rc < sizeof_rp"
    | "\<not> (?rc = sizeof_rq \<and> map Some LOOPMAGIC = take 4 ?rp)" "sizeof_rp \<le> length d" by fastforce
  then show ?case
  proof cases
    case 1
    have "from_servers s [x] (s\<lparr>udploop := True\<rparr>)" by (simp add: from_servers_def)
    from step[OF this] show ?thesis
      unfolding x recvudp_loop.simps Let_def if_P[OF 1] .
  next
    case 2
    from step[OF from_servers_refl] show ?thesis
      unfolding x recvudp_loop.simps Let_def if_not_P[OF 2(1)] if_P[OF 2(2)] .
  next
    case 3
    let ?t = "if take 4 d = REPLMAGIC then checkudps (reply_of d) a s else s"
    have "udp_reply ?rp (Some a) s = Inr ?t"
      using udp_reply_full[OF 3(2)] rp_store_full[OF 3(2) Cons.prems(2)] by simp
    moreover have "from_servers s [x] ?t"
      using checkudps_from[OF 3(2)] by (simp add: x from_servers_refl)
    moreover have "\<not> ?rc < sizeof_rp" using 3(2) by simp
    ultimately show ?thesis using step[of ?t] unfolding x recvudp_loop.simps Let_def if_not_P[OF 3(1)]
      by (simp only: if_False cbind.simps)
  qed
qed

text \<open>
  What is left of it when recvfrom can fail: a server whose address is recorded sent some datagram, be it
  a runt that only replaced a part of an older reply.
\<close>

definition senders :: "dgram list \<Rightarrow> sockaddr list" where
  "senders ds = concat (map (\<lambda>x. case x of Dgram d a \<Rightarrow> [a] | Dgram_err \<Rightarrow> []) ds)"

definition spoke :: "sockaddr \<Rightarrow> sockaddr list \<Rightarrow> bool" where
  "spoke srv as \<longleftrightarrow> list_ex (\<lambda>a. saddr a = saddr srv \<and> sport a = sport srv) as"

definition heard :: "sockaddr list \<Rightarrow> natst \<Rightarrow> natst \<Rightarrow> bool" where
  "heard as s s' \<longleftrightarrow> (myu1 s' = myu1 s \<or> spoke (sin1 s) as) \<and> (myu2 s' = myu2 s \<or> spoke (sin2 s) as) \<and>
     (myu3 s' = myu3 s \<or> spoke (sin3 s) as) \<and> sin1 s' = sin1 s \<and> sin2 s' = sin2 s \<and> sin3 s' = sin3 s"

definition last_sender :: "sockaddr option \<Rightarrow> sockaddr list" where
  "last_sender sin = (case sin of None \<Rightarrow> [] | Some a \<Rightarrow> [a])"

lemma last_sender_simps [simp]: "last_sender None = []" "last_sender (Some a) = [a]"
  by (simp_all add: last_sender_def)

lemma senders_simps [simp]:
  "senders [] = []" "senders (Dgram d a # ds) = a # senders ds" "senders (Dgram_err # ds) = senders ds"
  by (simp_all add: senders_def)

lemma heard_refl: "heard as s s"
  by (simp add: heard_def)

lemma heard_trans: "heard as s s1 \<Longrightarrow> heard bs s1 s2 \<Longrightarrow> set as \<subseteq> set cs \<Longrightarrow> set bs \<subseteq> set cs \<Longrightarrow> heard cs s s2"
  by (auto simp: heard_def spoke_def list_ex_iff)

lemma checkudps_heard: "heard [a] s (checkudps rp a s)"
  by (simp add: checkudps_def checkudp_def Let_def heard_def spoke_def)

lemma udp_reply_heard: "udp_reply rp sin s = Inr s' \<Longrightarrow> heard (last_sender sin) s s'"
  by (auto simp: udp_reply_def cbind_Inr_iff checkudps_heard heard_refl split: if_splits option.splits)

lemma udp_reply_fault: "udp_reply rp sin s = Inl f \<Longrightarrow> f = Uninit"
  by (auto simp: udp_reply_def rp_bytes_def split: if_splits option.splits)

lemma recvudp_loop_heard:
  "case recvudp_loop ds rp sin s of Inl f \<Rightarrow> f = Uninit | Inr s' \<Rightarrow> heard (last_sender sin @ senders ds) s s'"
proof (induction ds arbitrary: rp sin s)
  case Nil
  then show ?case by (simp add: heard_refl)
next
  case (Cons x ds)
  have reply: "case cbind (udp_reply rp sin s) (recvudp_loop ds rp sin) of Inl f \<Rightarrow> f = Uninit
      | Inr s' \<Rightarrow> heard (last_sender sin @ senders ds) s s'" for rp sin
  proof (cases "udp_reply rp sin s")
    case (Inl f)
    then show ?thesis by (simp add: udp_reply_fault)
  next
    case (Inr t)
    with Cons.IH[where rp = rp and sin = sin and s = t] udp_reply_heard[OF Inr] show ?thesis
      by (auto split: sum.splits elim: heard_trans)
  qed
  have skip: "case recvudp_loop ds rp (Some a) t of Inl f \<Rightarrow> f = Uninit
      | Inr s' \<Rightarrow> heard (last_sender sin @ a # senders ds) s s'" if "heard [] s t" for rp a t
  proof (cases "recvudp_loop ds rp (Some a) t")
    case (Inl f)
    then show ?thesis using Cons.IH[where rp = rp and sin = "Some a" and s = t] by simp
  next
    case (Inr s')
    then have "heard (a # senders ds) t s'" using Cons.IH[where rp = rp and sin = "Some a" and s = t] by simp
    from heard_trans[OF that this, of "last_sender sin @ a # senders ds"] show ?thesis by (auto simp: Inr)
  qed
  have new: "heard (a # senders ds) s s' \<Longrightarrow> heard (last_sender sin @ a # senders ds) s s'" for a s'
    by (erule heard_trans[OF _ heard_refl]) auto
  show ?case
  proof (cases x)
    case (Dgram d a)
    have "heard [] s (s\<lparr>udploop := True\<rparr>)" by (simp add: heard_def)
    note one = skip[OF this, where rp = "rp_store rp d" and a = a] skip[OF heard_refl, where rp = "rp_store rp d" and a = a]
    have "case cbind (udp_reply (rp_store rp d) (Some a) s) (recvudp_loop ds (rp_store rp d) (Some a)) of Inl f \<Rightarrow> f = Uninit
        | Inr s' \<Rightarrow> heard (last_sender sin @ a # senders ds) s s'"
      using reply[where rp = "rp_store rp d" and sin = "Some a"] new[of a] by (auto split: sum.splits)
    with one show ?thesis
      unfolding Dgram recvudp_loop.simps Let_def senders_simps by (simp only: split: if_split) blast
  next
    case Dgram_err
    show ?thesis
      unfolding Dgram_err recvudp_loop.simps senders_simps by (rule reply)
  qed
qed

text \<open>
  C24.  As long as recvfrom reports no hard error, recvudp returns, and the address recorded for
  a server either stays or is taken from a full reply with the right magic number that came from
  the address of that server.  After a hard error it can stop at a reply that is not there, and otherwise
  what is recorded for a server need not be a reply, but that server has sent some datagram.
\<close>

theorem recvudp_only_servers:
  "case recvudp ds s of
     Inl f \<Rightarrow> f = Uninit \<and> Dgram_err \<in> set ds
   | Inr s' \<Rightarrow> heard (senders ds) s s' \<and> (Dgram_err \<notin> set ds \<longrightarrow> from_servers s ds s')"
proof -
  have l: "length (replicate sizeof_rp (None :: byte option)) = sizeof_rp" by simp
  show ?thesis
  proof (cases "Dgram_err \<in> set ds")
    case True
    with recvudp_loop_heard[where ds = ds and rp = "replicate sizeof_rp None" and sin = None and s = s] show ?thesis
      by (simp add: recvudp_def split: sum.splits)
  next
    case False
    with recvudp_loop_heard[where ds = ds and rp = "replicate sizeof_rp None" and sin = None and s = s] recvudp_loop_from[OF False l, of None s] show ?thesis
      by (auto simp: recvudp_def)
  qed
qed

theorem recvudp_only_servers_witness:
  "\<exists>s s'. recvudp [Dgram (REPLMAGIC @ [8, 8, 8, 8, 0, 53, 0, 0]) \<lparr>saddr = [1, 2, 3, 4], sport = [4, 210]\<rparr>] s = Inr s' \<and>
     from_servers s [Dgram (REPLMAGIC @ [8, 8, 8, 8, 0, 53, 0, 0]) \<lparr>saddr = [1, 2, 3, 4], sport = [4, 210]\<rparr>] s' \<and>
     myu1 s = any_addr \<and> myu1 s' = \<lparr>saddr = [8, 8, 8, 8], sport = [0, 53]\<rparr>"
proof -
  fix t :: natst
  let ?a = "\<lparr>saddr = [1, 2, 3, 4], sport = [4, 210]\<rparr> :: sockaddr" and ?d = "REPLMAGIC @ [8, 8, 8, 8, 0, 53, 0, 0]"
  let ?s = "t\<lparr>sin1 := ?a, myu1 := any_addr\<rparr>"
  have d: "sizeof_rp \<le> length ?d" "take 4 ?d = REPLMAGIC" "reply_of ?d = \<lparr>saddr = [8, 8, 8, 8], sport = [0, 53]\<rparr>" by code_simp+
  have "\<not> length (take sizeof_rp ?d) < sizeof_rp" "length (take sizeof_rp ?d) \<noteq> sizeof_rq" by code_simp+
  then have r: "recvudp [Dgram ?d ?a] ?s = Inr (checkudps (reply_of ?d) ?a ?s)"
    using udp_reply_full[OF d(1), of ?a ?s] d(2) rp_store_full[OF d(1), of "replicate sizeof_rp None"]
    by (simp add: recvudp_def Let_def del: append.simps)
  moreover have "myu1 (checkudps (reply_of ?d) ?a ?s) = \<lparr>saddr = [8, 8, 8, 8], sport = [0, 53]\<rparr>"
    unfolding d(3) by (simp add: checkudps_def checkudp_def any_addr_def)
  moreover have "from_servers ?s [Dgram ?d ?a] (checkudps (reply_of ?d) ?a ?s)"
    using recvudp_only_servers[of "[Dgram ?d ?a]" ?s] unfolding r by simp
  ultimately show ?thesis by (intro exI[of _ ?s] exI[of _ "checkudps (reply_of ?d) ?a ?s"]) simp
qed

text \<open>
  A hard error of recvfrom before any datagram makes recvudp look at the reply buffer, which
  is indeterminate: the length -1 is compared as an unsigned number and passes as a full reply.
\<close>

theorem recvudp_error_uninit: "recvudp (Dgram_err # ds) s = Inl Uninit"
  by (simp add: recvudp_def udp_reply_def rp_bytes_def sizeof_rp_def)

end
