(* ===== verification/Nat_Server.thy ===== *)
theory Nat_Server
  imports Nat_Check
begin

text \<open>
  The servers of the NAT test, P2P/natserver.c: the answers of the regular servers 1 and 2 and of
  the bounce server 3 to TCP and UDP requests.  The results of the system calls of one request are
  input; the calls that have an effect outside the process are output, in their order, together
  with how the handler ends.  The address in a received datagram is what the call left in \<open>sin\<close>.
\<close>

section \<open>Effects\<close>

text \<open>A message of type \<open>struct reply\<close>: magic number, address and port.\<close>

record message =
  m_magic :: "byte list"
  m_addr :: "byte list"
  m_port :: "byte list"

datatype act =
    Close int
  | Connect int sockaddr
  | Bind int "byte list"
  | Write int message
  | Await int
  | Sendto int message sockaddr
  | Sleep nat

datatype fin = Returned | Ended fault

type_synonym run = "act list \<times> fin"

text \<open>An effect before the rest of a run, and a run after one that may end the process.\<close>

definition emit :: "act \<Rightarrow> run \<Rightarrow> run" where
  "emit a r = (a # fst r, snd r)"

definition seq :: "run \<Rightarrow> run \<Rightarrow> run" where
  "seq r r' = (if snd r = Returned then (fst r @ fst r', snd r') else r)"

abbreviation stop :: "fault \<Rightarrow> run" where
  "stop e \<equiv> ([], Ended e)"

abbreviation ret :: run where
  "ret \<equiv> ([], Returned)"

definition reply_msg :: "byte list \<Rightarrow> sockaddr \<Rightarrow> message" where
  "reply_msg magic a = \<lparr>m_magic = magic, m_addr = saddr a, m_port = sport a\<rparr>"

definition PRIVPORT :: "byte list" where "PRIVPORT = [0x26, 0x81]"

section \<open>Servers 1 and 2\<close>

datatype acc = Acc_block | Acc_err | Acc int sockaddr

record tcpreq =
  v_accept :: acc
  v_fork :: int
  v_opts :: bool       \<comment> \<open>the option calls succeed\<close>
  v_read :: recvd
  v_s3sock :: int
  v_conn3 :: bool
  v_write3 :: bool
  v_read3 :: bool
  v_write :: bool

text \<open>
  From the comment "In the child" on.  A failed read gives -1, which the assertion compares as an
  unsigned number.
\<close>

definition tcp_child :: "int \<Rightarrow> sockaddr \<Rightarrow> tcpreq \<Rightarrow> int \<Rightarrow> sockaddr \<Rightarrow> run" where
  "tcp_child server s3 v clisock sin =
     (if \<not> v_opts v then stop (Exit 1)
      else case v_read v of
        Recv_block \<Rightarrow> stop Abort
      | Recv_err \<Rightarrow> stop Abort
      | Data d \<Rightarrow>
        (let rq = take sizeof_rq d in
         if length rq < sizeof_rq then stop (Exit 0)
         else if rq \<noteq> REQMAGIC then stop (Exit 0)
         else
           seq
            (if server = 2 then
               (if v_s3sock v < 0 then stop (Exit 1)
                else if \<not> v_conn3 v then stop (Exit 1)
                else emit (Connect (v_s3sock v) s3)
                  (if \<not> v_write3 v then stop (Exit 1)
                   else emit (Write (v_s3sock v) (reply_msg REQMAGIC sin))
                     (emit (Await (v_s3sock v))
                       (if \<not> v_read3 v then stop (Exit 1) else ([Close (v_s3sock v)], Returned)))))
             else ret)
            (if \<not> v_write v then stop (Exit 1)
             else ([Write clisock (reply_msg REPLMAGIC sin), Close clisock], Ended (Exit 0)))))"

text \<open>The source takes the branch "In the parent" when fork returns 0.\<close>

definition servetcp :: "int \<Rightarrow> sockaddr \<Rightarrow> tcpreq \<Rightarrow> run" where
  "servetcp server s3 v =
     (case v_accept v of
        Acc_block \<Rightarrow> ret
      | Acc_err \<Rightarrow> stop (Exit 1)
      | Acc clisock sin \<Rightarrow>
          if v_fork v < 0 then stop (Exit 1)
          else if v_fork v = 0 then ([Close clisock], Returned)
          else tcp_child server s3 v clisock sin)"

datatype udpreq = Udp "byte list" sockaddr | Udp_block | Udp_err

definition serveudp :: "int \<Rightarrow> sockaddr \<Rightarrow> int \<Rightarrow> udpreq \<Rightarrow> run" where
  "serveudp server s3 udpsock u =
     (case u of
        Udp_block \<Rightarrow> ret
      | Udp_err \<Rightarrow> ret
      | Udp d sin \<Rightarrow>
        (let rq = take sizeof_rq d in
         if length rq < sizeof_rq then ret
         else if rq \<noteq> REQMAGIC then ret
         else emit (Sendto udpsock (reply_msg REPLMAGIC sin) sin)
           (if server = 2 then ([Sendto udpsock (reply_msg REQMAGIC sin) s3], Returned) else ret)))"

text \<open>One pass of the endless loop of \<open>servemain\<close>; collecting the children has no effect here.\<close>

definition serve_round :: "int \<Rightarrow> sockaddr \<Rightarrow> int \<Rightarrow> int \<Rightarrow> tcpreq \<Rightarrow> udpreq \<Rightarrow> run" where
  "serve_round server s3 udpsock rc v u =
     (if rc < 0 then stop (Exit 1) else seq (servetcp server s3 v) (serveudp server s3 udpsock u))"

fun serve_loop :: "int \<Rightarrow> sockaddr \<Rightarrow> int \<Rightarrow> (int \<times> tcpreq \<times> udpreq) list \<Rightarrow> run" where
  "serve_loop server s3 udpsock [] = ret"
| "serve_loop server s3 udpsock ((rc, v, u) # rest) =
     seq (serve_round server s3 udpsock rc v u) (serve_loop server s3 udpsock rest)"

section \<open>Server 3\<close>

record bouncereq =
  b_accept :: acc
  b_fork :: int
  b_opts :: bool
  b_read :: recvd
  b_sock :: int
  b_setup :: bool      \<comment> \<open>setting the options and bind succeed\<close>
  b_conn :: conn
  b_select1 :: int
  b_isset1 :: bool
  b_select2 :: int
  b_isset2 :: bool
  b_write :: bool

text \<open>
  From "In the child" on.  There is no assertion here: after a failed read the length -1 passes
  the comparison and the indeterminate request is read.
\<close>

definition bounce_child :: "bouncereq \<Rightarrow> int \<Rightarrow> run" where
  "bounce_child v clisock =
     (if \<not> b_opts v then stop (Exit 1)
      else case b_read v of
        Recv_block \<Rightarrow> stop Uninit
      | Recv_err \<Rightarrow> stop Uninit
      | Data d \<Rightarrow>
        (let rp = take sizeof_rp d; dst = \<lparr>saddr = take 4 (drop 4 rp), sport = take 2 (drop 8 rp)\<rparr> in
         if length rp < sizeof_rp then stop (Exit 0)
         else if take 4 rp \<noteq> REQMAGIC then stop (Exit 0)
         else if b_sock v < 0 \<or> \<not> b_setup v then stop (Exit 1)
         else emit (Bind (b_sock v) SERVPORT)
           (emit (Connect (b_sock v) dst)
             (if b_conn v \<noteq> Conn_ok \<and> b_conn v \<noteq> Conn_block then stop (Exit 1)
              else if b_select1 v < 0 then stop (Exit 1)
              else
                seq
                 (if b_isset1 v then ret
                  else emit (Close clisock)
                    (if b_select2 v < 0 then stop (Exit 1)
                     else if \<not> b_isset2 v then stop Abort else ret))
                 (if \<not> b_write v then stop (Exit 1)
                  else emit (Write (b_sock v) (reply_msg REPLMAGIC dst))
                    (seq (if b_isset1 v then ([Sleep 5, Close clisock], Returned) else ret)
                      ([Close (b_sock v)], Ended (Exit 0))))))))"

definition bouncetcp :: "bouncereq \<Rightarrow> run" where
  "bouncetcp v =
     (case b_accept v of
        Acc_block \<Rightarrow> ret
      | Acc_err \<Rightarrow> stop (Exit 1)
      | Acc clisock sin \<Rightarrow>
          if b_fork v < 0 then stop (Exit 1)
          else if b_fork v = 0 then ([Close clisock], Returned)
          else bounce_child v clisock)"

text \<open>A hard error of recvfrom ends the process here, unlike in \<open>serveudp\<close>.\<close>

definition bounceudp :: "int \<Rightarrow> udpreq \<Rightarrow> run" where
  "bounceudp udpsock u =
     (case u of
        Udp_block \<Rightarrow> ret
      | Udp_err \<Rightarrow> stop (Exit 1)
      | Udp d sin \<Rightarrow>
        (let rp = take sizeof_rp d; dst = \<lparr>saddr = take 4 (drop 4 rp), sport = take 2 (drop 8 rp)\<rparr> in
         if length rp < sizeof_rp then ret
         else if take 4 rp \<noteq> REQMAGIC then ret
         else ([Sendto udpsock (reply_msg REPLMAGIC dst) dst], Returned)))"

definition bounce_round :: "int \<Rightarrow> int \<Rightarrow> bouncereq \<Rightarrow> udpreq \<Rightarrow> run" where
  "bounce_round udpsock rc v u = (if rc < 0 then stop (Exit 1) else seq (bouncetcp v) (bounceudp udpsock u))"

fun bounce_loop :: "int \<Rightarrow> (int \<times> bouncereq \<times> udpreq) list \<Rightarrow> run" where
  "bounce_loop udpsock [] = ret"
| "bounce_loop udpsock ((rc, v, u) # rest) =
     seq (bounce_round udpsock rc v u) (bounce_loop udpsock rest)"

section \<open>Start-up\<close>

text \<open>
  \<open>ok\<close>: the calls of the set-up (name lookup, socket, bind, fcntl, listen) succeed; \<open>pid\<close>: what
  the fork that makes the process a daemon returns.
\<close>

definition become_daemon :: "bool \<Rightarrow> int \<Rightarrow> run \<Rightarrow> run" where
  "become_daemon ok pid loop = (if \<not> ok then stop (Exit 1)
     else if pid < 0 then stop (Exit 1) else if pid \<noteq> 0 then stop (Exit 0) else loop)"

definition servemain :: "bool \<Rightarrow> int \<Rightarrow> int \<Rightarrow> byte list \<Rightarrow> int \<Rightarrow> (int \<times> tcpreq \<times> udpreq) list \<Rightarrow> run" where
  "servemain ok pid server s3addr udpsock evs =
     become_daemon ok pid (serve_loop server \<lparr>saddr = s3addr, sport = PRIVPORT\<rparr> udpsock evs)"

definition bouncemain :: "bool \<Rightarrow> int \<Rightarrow> int \<Rightarrow> (int \<times> bouncereq \<times> udpreq) list \<Rightarrow> run" where
  "bouncemain ok pid udpsock evs = become_daemon ok pid (bounce_loop udpsock evs)"

datatype command = Usage | Serve bool int | Bounce bool

text \<open>The arguments after the program name.\<close>

definition natserver_args :: "byte list list \<Rightarrow> command" where
  "natserver_args args =
     (let (verbose, rest) = (case args of a # r \<Rightarrow> if a = [45, 118] then (True, r) else (False, args)
          | [] \<Rightarrow> (False, args))
      in case rest of
           [n] \<Rightarrow> (let server = atoi n in
              if server < 1 \<or> server > 3 then Usage
              else if server < 3 then Serve verbose server else Bounce verbose)
         | _ \<Rightarrow> Usage)"

section \<open>Properties\<close>

lemma seq_ret [simp]: "seq ret r = r" "seq (stop e) r = stop e"
  by (simp_all add: seq_def)

lemma seq_ended: "snd r \<noteq> Returned \<Longrightarrow> seq r r' = r"
  by (simp add: seq_def)

lemma emit_simp [simp]: "emit a (as, f) = (a # as, f)"
  by (simp add: emit_def)

lemma tcp_child_served:
  assumes "v_opts v" and "v_read v = Data (REQMAGIC @ d)" and "v_write v"
    and "server = 2 \<Longrightarrow> 0 \<le> v_s3sock v \<and> v_conn3 v \<and> v_write3 v \<and> v_read3 v"
  shows "tcp_child server s3 v clisock sin =
    ((if server = 2 then [Connect (v_s3sock v) s3, Write (v_s3sock v) (reply_msg REQMAGIC sin), Await (v_s3sock v),
        Close (v_s3sock v)] else []) @ [Write clisock (reply_msg REPLMAGIC sin), Close clisock], Ended (Exit 0))"
proof -
  have "take sizeof_rq (REQMAGIC @ d) = REQMAGIC" by (simp add: sizeof_rq_def REQMAGIC_def)
  with assms show ?thesis
    by (cases "server = 2") (simp_all add: tcp_child_def seq_def, simp_all add: sizeof_rq_def REQMAGIC_def)
qed

text \<open>
  A valid TCP request is answered with the address it came from; server 2 first has server 3
  call back and waits for it to close the connection.  But the code takes the two results of fork
  for each other: the process that gets a positive result, the parent, serves the request and then
  ends, whatever would come next in its loop, and the child goes on with the loop.
\<close>

theorem tcp_request_ends_parent:
  assumes "v_accept v = Acc clisock sin" and "0 < v_fork v" and "0 \<le> rc"
    and "v_opts v" and "v_read v = Data (REQMAGIC @ d)" and "v_write v"
    and "server = 2 \<longrightarrow> 0 \<le> v_s3sock v \<and> v_conn3 v \<and> v_write3 v \<and> v_read3 v"
  shows "serve_loop server s3 udpsock ((rc, v, u) # rest) =
      ((if server = 2 then [Connect (v_s3sock v) s3, Write (v_s3sock v) (reply_msg REQMAGIC sin), Await (v_s3sock v),
        Close (v_s3sock v)] else []) @ [Write clisock (reply_msg REPLMAGIC sin), Close clisock], Ended (Exit 0)) \<and>
    serve_loop server s3 udpsock ((rc, v\<lparr>v_fork := 0\<rparr>, u) # rest) =
      emit (Close clisock) (seq (serveudp server s3 udpsock u) (serve_loop server s3 udpsock rest))"
proof -
  have "servetcp server s3 v = tcp_child server s3 v clisock sin"
    using assms(1,2) by (simp add: servetcp_def)
  moreover have "servetcp server s3 (v\<lparr>v_fork := 0\<rparr>) = ([Close clisock], Returned)"
    using assms(1) by (simp add: servetcp_def)
  moreover have "seq (emit a r) r' = emit a (seq r r')" for a r r'
    by (cases r) (simp add: seq_def)
  ultimately show ?thesis
    using tcp_child_served[of v d server s3 clisock sin] assms
    by (simp add: serve_round_def seq_def emit_def split_beta)
qed

definition some_req :: tcpreq where
  "some_req = \<lparr>v_accept = Acc 7 any_addr, v_fork = 100, v_opts = True, v_read = Data REQMAGIC, v_s3sock = 8,
     v_conn3 = True, v_write3 = True, v_read3 = True, v_write = True\<rparr>"

theorem tcp_request_ends_parent_witness:
  "serve_loop 1 any_addr 5 [(1, some_req, Udp_block), (1, some_req, Udp_block)] =
     ([Write 7 (reply_msg REPLMAGIC any_addr), Close 7], Ended (Exit 0))"
  using tcp_request_ends_parent[of some_req 7 any_addr 1 "[]" 1 any_addr 5 Udp_block "[(1, some_req, Udp_block)]"]
  by (simp add: some_req_def)

text \<open>A message as it stands in memory, with the two bytes of padding.\<close>

definition msg_bytes :: "message \<Rightarrow> byte list \<Rightarrow> byte list" where
  "msg_bytes m pad = m_magic m @ m_addr m @ m_port m @ pad"

lemma msg_bytes_fields:
  assumes "length (saddr a) = 4" "length (sport a) = 2" "length pad = 2" "length magic = 4"
  shows "length (msg_bytes (reply_msg magic a) pad) = sizeof_rp" "take 4 (msg_bytes (reply_msg magic a) pad) = magic"
    "reply_of (msg_bytes (reply_msg magic a) pad) = a"
    "take sizeof_rp (msg_bytes (reply_msg magic a) pad) = msg_bytes (reply_msg magic a) pad"
  using assms by (simp_all add: msg_bytes_def reply_msg_def sizeof_rp_def reply_of_def)

lemma bounceudp_reply:
  assumes "length (saddr a) = 4" "length (sport a) = 2" "length pad = 2"
  shows "bounceudp sock (Udp (msg_bytes (reply_msg REQMAGIC a) pad) from) =
    ([Sendto sock (reply_msg REPLMAGIC a) a], Returned)"
proof -
  note f = msg_bytes_fields[OF assms, of REQMAGIC]
  have "length REQMAGIC = 4" by (simp add: REQMAGIC_def)
  from f[OF this] show ?thesis by (simp add: bounceudp_def reply_of_def)
qed

lemma recvudp_loop_reply:
  assumes "length d = sizeof_rp" "take 4 d = REPLMAGIC" "length rp = sizeof_rp"
  shows "recvudp_loop (Dgram d a # ds) rp sin s = recvudp_loop ds (map Some d) (Some a) (checkudps (reply_of d) a s)"
proof -
  have full: "rp_store rp d = map Some d" "length (take sizeof_rp d) = sizeof_rp"
    using rp_store_full[of d rp] assms by simp_all
  have "udp_reply (map Some d) (Some a) s = Inr (checkudps (reply_of d) a s)"
    using udp_reply_full[of d a s] assms by simp
  moreover have "\<not> (sizeof_rp = sizeof_rq \<and> map Some LOOPMAGIC = take 4 (map Some d))"
    by (simp add: sizeof_rp_def sizeof_rq_def)
  ultimately show ?thesis
    unfolding recvudp_loop.simps Let_def full by (simp only: if_False simp_thms less_irrefl cbind.simps)
qed

lemma checkudp_other: "srv \<noteq> sin \<Longrightarrow> checkudp rp sin srv m = (False, m)"
  for rp sin srv m :: sockaddr
  by (cases sin; cases srv) (auto simp: checkudp_def)

lemma checkudp_own: "saddr m = INADDR_ANY \<Longrightarrow> checkudp rp sin sin m = (True, rp)"
  for rp sin m :: sockaddr
  by (simp add: checkudp_def)

lemma recvudp_two:
  assumes "length (saddr a) = 4" "length (sport a) = 2" "length p = 2" "length q = 2"
    and "sin1 s \<noteq> sin2 s" "sin1 s \<noteq> sin3 s" "sin2 s \<noteq> sin3 s"
    and "saddr (myu2 s) = INADDR_ANY" "saddr (myu3 s) = INADDR_ANY"
  shows "recvudp [Dgram (msg_bytes (reply_msg REPLMAGIC a) p) (sin2 s), Dgram (msg_bytes (reply_msg REPLMAGIC a) q) (sin3 s)] s =
    Inr (s\<lparr>myu2 := a, myu3 := a\<rparr>)"
proof -
  have l: "length REPLMAGIC = 4" by (simp add: REPLMAGIC_def)
  note fp = msg_bytes_fields[OF assms(1,2,3) l] and fq = msg_bytes_fields[OF assms(1,2,4) l]
  let ?d = "msg_bytes (reply_msg REPLMAGIC a) p" and ?e = "msg_bytes (reply_msg REPLMAGIC a) q"
  let ?s = "s\<lparr>myu2 := a\<rparr>"
  have one: "checkudps (reply_of ?d) (sin2 s) s = ?s"
    using assms(5,8) fp(3) by (simp add: checkudps_def checkudp_other checkudp_own)
  have two: "checkudps (reply_of ?e) (sin3 s) ?s = s\<lparr>myu2 := a, myu3 := a\<rparr>"
    using assms(6,7,9) fq(3) by (simp add: checkudps_def checkudp_other checkudp_own)
  have "recvudp [Dgram ?d (sin2 s), Dgram ?e (sin3 s)] s =
      recvudp_loop [Dgram ?e (sin3 s)] (map Some ?d) (Some (sin2 s)) ?s"
    unfolding recvudp_def one[symmetric] by (rule recvudp_loop_reply[OF fp(1,2)]) simp
  also have "\<dots> = recvudp_loop [] (map Some ?e) (Some (sin3 s)) (s\<lparr>myu2 := a, myu3 := a\<rparr>)"
    unfolding two[symmetric] by (rule recvudp_loop_reply[OF fq(1,2)]) (simp add: fp(1))
  finally show ?thesis by simp
qed

text \<open>
  C23.  The UDP part of the test fits together: a valid request that server 2 receives from the
  address A makes server 2 reply to A and server 3, when the message reaches it, reply to A as
  well, and a client that gets the two replies from the addresses of the two servers records A as
  its address for both.
\<close>

theorem udp_test_end_to_end:
  assumes "length (saddr a) = 4" "length (sport a) = 2" "length p = 2" "length q = 2" "length r = 2"
    and "sin1 s \<noteq> sin2 s" "sin1 s \<noteq> sin3 s" "sin2 s \<noteq> sin3 s"
    and "saddr (myu2 s) = INADDR_ANY" "saddr (myu3 s) = INADDR_ANY"
  shows "\<exists>reply bounce. serveudp 2 s3 sock2 (Udp (REQMAGIC @ d) a) = ([Sendto sock2 reply a, Sendto sock2 bounce s3], Returned) \<and>
    bounceudp sock3 (Udp (msg_bytes bounce p) from) = ([Sendto sock3 reply a], Returned) \<and>
    recvudp [Dgram (msg_bytes reply q) (sin2 s), Dgram (msg_bytes reply r) (sin3 s)] s = Inr (s\<lparr>myu2 := a, myu3 := a\<rparr>)"
proof -
  have "take sizeof_rq (REQMAGIC @ d) = REQMAGIC" "\<not> length REQMAGIC < sizeof_rq"
    by (simp_all add: sizeof_rq_def REQMAGIC_def)
  then have "serveudp 2 s3 sock2 (Udp (REQMAGIC @ d) a) =
      ([Sendto sock2 (reply_msg REPLMAGIC a) a, Sendto sock2 (reply_msg REQMAGIC a) s3], Returned)"
    by (simp add: serveudp_def Let_def)
  with bounceudp_reply[OF assms(1,2,3)] recvudp_two[OF assms(1,2,4,5) assms(6-10)] show ?thesis by blast
qed

definition some_client :: natst where
  "some_client = \<lparr>rfds = {3, 4}, wfds = {5, 6}, maxsock = 6, tcp0 = 3, tcp1 = 5, tcp2 = 6, tcp3 = 7, tcp4 = 8,
     udp1 = 4, udp2 = 9, incb = -1, inloop = -1,
     sin1 = \<lparr>saddr = [192, 168, 1, 137], sport = SERVPORT\<rparr>, sin2 = \<lparr>saddr = [192, 168, 1, 138], sport = SERVPORT\<rparr>,
     sin3 = \<lparr>saddr = [192, 168, 1, 139], sport = SERVPORT\<rparr>,
     myt1 = any_addr, myt2 = any_addr, myt3 = any_addr, myu1 = any_addr, myu2 = any_addr, myu3 = any_addr,
     tcploop = False, udploop = False, t3toosoon = False\<rparr>"

lemma some_client:
  "sin1 some_client \<noteq> sin2 some_client" "sin1 some_client \<noteq> sin3 some_client" "sin2 some_client \<noteq> sin3 some_client"
  "saddr (myu2 some_client) = INADDR_ANY" "saddr (myu3 some_client) = INADDR_ANY"
  by (simp_all add: some_client_def any_addr_def)

theorem udp_test_end_to_end_witness:
  "\<exists>reply. recvudp [Dgram (msg_bytes reply [0, 0]) (sin2 some_client), Dgram (msg_bytes reply [0, 0]) (sin3 some_client)] some_client =
     Inr (some_client\<lparr>myu2 := \<lparr>saddr = [10, 0, 0, 1], sport = [1, 2]\<rparr>, myu3 := \<lparr>saddr = [10, 0, 0, 1], sport = [1, 2]\<rparr>\<rparr>)"
  using udp_test_end_to_end[OF _ _ _ _ _ some_client, of "\<lparr>saddr = [10, 0, 0, 1], sport = [1, 2]\<rparr>" "[0, 0]" "[0, 0]" "[0, 0]"
      any_addr 1 "[]" 2 any_addr]
  by auto

end
