(* ===== verification/Cdecl_FSM.thy ===== *)
theory Cdecl_FSM
  imports C_Prelude
begin

text \<open>
  The declaration reader of FSM/cAnalizeFsm.c: a scanner on the standard input and a state machine
  whose states are the six functions that \<open>nextstate\<close> points to.  At the end of the input getchar
  returns EOF, which becomes the character 0xFF.  The machine need not end, so it is partial.
\<close>

section \<open>Tokens\<close>

text \<open>\<open>ttype\<close> is the field of type char: one of the three tags or the character itself.\<close>

record token =
  ttype :: byte
  tstr :: "byte list"

definition IDENTIFIER :: byte where "IDENTIFIER = 0"
definition QUALIFIER :: byte where "QUALIFIER = 1"
definition TYPE_TAG :: byte where "TYPE_TAG = 2"

definition MAXTOKENS :: nat where "MAXTOKENS = 100"
definition MAXTOKENLEN :: nat where "MAXTOKENLEN = 64"

datatype state = Initialize | Get_array | Get_parms | Get_lparen | Get_ptr_part | Get_type

text \<open>The head of \<open>stack\<close> is its top; \<open>out\<close> is what was printed.\<close>

record fsm =
  input :: "byte list"
  this :: token
  stack :: "token list"
  out :: "byte list"
  nextstate :: "state option"

definition isalnum :: "byte \<Rightarrow> bool" where
  "isalnum b \<longleftrightarrow> 48 \<le> b \<and> b \<le> 57 \<or> 65 \<le> b \<and> b \<le> 90 \<or> 97 \<le> b \<and> b \<le> 122"

definition type_words :: "byte list list" where
  "type_words = map ascii [''void'', ''char'', ''signed'', ''unsigned'', ''short'', ''int'', ''long'',
     ''float'', ''double'', ''struct'', ''union'', ''enum'']"

text \<open>The tag, and the string, which is replaced for \<open>const\<close>.\<close>

definition classify_string :: "byte list \<Rightarrow> byte \<times> byte list" where
  "classify_string s =
     (if s = ascii ''const'' then (QUALIFIER, ascii ''readonly'')
      else if s = ascii ''volatile'' then (QUALIFIER, s)
      else if s \<in> set type_words then (TYPE_TAG, s)
      else (IDENTIFIER, s))"

text \<open>
  The scanner.  The first character that is not part of a word is stored too before it is given
  back, so a word needs one byte more than its length.  The character 0xFF cannot be given back.
\<close>

definition gettoken :: "fsm \<Rightarrow> fsm c" where
  "gettoken s =
     (case dropWhile (\<lambda>b. b = 32) (input s) of
        [] \<Rightarrow> Inr (s\<lparr>input := [], this := \<lparr>ttype = 0xFF, tstr = [0xFF]\<rparr>\<rparr>)
      | b # rest \<Rightarrow>
          if isalnum b then
            (let w = b # takeWhile isalnum rest; rest' = dropWhile isalnum rest;
                 (ty, str) = classify_string w in
             if length w < MAXTOKENLEN then
               Inr (s\<lparr>input := (case rest' of [] \<Rightarrow> [] | e # r \<Rightarrow> if e = 0xFF then r else rest'),
                      this := \<lparr>ttype = ty, tstr = str\<rparr>\<rparr>)
             else Inl Write_oob)
          else Inr (s\<lparr>input := rest, this := \<lparr>ttype = b, tstr = (if b = 0 then [] else [b])\<rparr>\<rparr>))"

definition print :: "byte list \<Rightarrow> fsm \<Rightarrow> fsm" where
  "print t s = s\<lparr>out := out s @ t\<rparr>"

section \<open>States\<close>

lemma gettoken_stack: "gettoken s = Inr s' \<Longrightarrow> stack s' = stack s \<and> out s' = out s \<and> nextstate s' = nextstate s"
  by (auto simp: gettoken_def Let_def split: list.splits if_splits prod.splits)

function init_loop :: "fsm \<Rightarrow> fsm c" where
  "init_loop s =
     (if ttype (this s) \<noteq> IDENTIFIER then
        (if length (stack s) < MAXTOKENS then
           cbind (gettoken (s\<lparr>stack := this s # stack s\<rparr>)) init_loop
         else Inl Write_oob)
      else Inr s)"
  by pat_completeness auto

termination
proof (relation "measure (\<lambda>s. MAXTOKENS - length (stack s))", simp)
  fix s z :: fsm
  assume "length (stack s) < MAXTOKENS" "gettoken (s\<lparr>stack := this s # stack s\<rparr>) = Inr z"
  then show "(z, s) \<in> measure (\<lambda>s. MAXTOKENS - length (stack s))"
    by (auto dest: gettoken_stack)
qed

declare init_loop.simps [simp del]

definition initialize :: "fsm \<Rightarrow> fsm c" where
  "initialize s =
     cbind (gettoken s) (\<lambda>s. cbind (init_loop s) (\<lambda>s.
     cbind (gettoken (print (tstr (this s) @ ascii '' is '') s)) (\<lambda>s.
       Inr (s\<lparr>nextstate := Some Get_array\<rparr>))))"

lemma gettoken_shrinks:
  assumes "gettoken s = Inr s'"
  shows "length (input s') \<le> length (input s) \<and> (ttype (this s') = 91 \<longrightarrow> length (input s') < length (input s))"
proof -
  have le: "length (dropWhile (\<lambda>b. b = 32) (input s)) \<le> length (input s)" by (rule length_dropWhile_le)
  show ?thesis
  proof (cases "dropWhile (\<lambda>b. b = 32) (input s)")
    case Nil
    with assms show ?thesis by (auto simp: gettoken_def)
  next
    case (Cons b rest)
    have "length (dropWhile isalnum rest) \<le> length rest" by (rule length_dropWhile_le)
    with assms Cons le show ?thesis
      by (auto simp: gettoken_def Let_def split: if_splits prod.splits list.splits)
  qed
qed

lemma print_simps [simp]:
  "input (print t s) = input s" "this (print t s) = this s" "stack (print t s) = stack s"
  "nextstate (print t s) = nextstate s" "out (print t s) = out s @ t"
  by (simp_all add: print_def)

function array_loop :: "fsm \<Rightarrow> fsm c" where
  "array_loop s =
     (if ttype (this s) = 91 then
        cbind (gettoken (print (ascii ''array '') s)) (\<lambda>s1.
        cbind (if (case tstr (this s1) of [] \<Rightarrow> False | b # _ \<Rightarrow> is_digit b)
               then gettoken (print (ascii ''0..'' @ printf_d (atoi (tstr (this s1)) - 1) @ [32]) s1)
               else Inr s1) (\<lambda>s2.
        cbind (gettoken s2) (\<lambda>s3.
          array_loop ((print (ascii ''of '') s3)\<lparr>nextstate := Some Get_lparen\<rparr>))))
      else Inr s)"
  by pat_completeness auto

termination
proof (relation "measure (\<lambda>s. 2 * length (input s) + (if ttype (this s) = 91 then 1 else 0))", simp)
  fix s s1 s2 s3 :: fsm
  assume "ttype (this s) = 91" and 1: "gettoken (print (ascii ''array '') s) = Inr s1"
    and 2: "(if (case tstr (this s1) of [] \<Rightarrow> False | b # _ \<Rightarrow> is_digit b)
               then gettoken (print (ascii ''0..'' @ printf_d (atoi (tstr (this s1)) - 1) @ [32]) s1)
               else Inr s1) = Inr s2"
    and 3: "gettoken s2 = Inr s3"
  moreover have "length (input s2) \<le> length (input s1)"
    using 2 gettoken_shrinks by (fastforce split: if_splits)
  moreover note gettoken_shrinks[OF 1] gettoken_shrinks[OF 3]
  ultimately show "((print (ascii ''of '') s3)\<lparr>nextstate := Some Get_lparen\<rparr>, s) \<in>
      measure (\<lambda>s. 2 * length (input s) + (if ttype (this s) = 91 then 1 else 0))"
    by auto
qed

declare array_loop.simps [simp del]

definition get_array :: "fsm \<Rightarrow> fsm c" where
  "get_array s = array_loop (s\<lparr>nextstate := Some Get_parms\<rparr>)"

partial_function (option) parms_loop :: "fsm \<Rightarrow> fsm c option" where
  "parms_loop s =
     (if ttype (this s) \<noteq> 41 then (case gettoken s of Inl e \<Rightarrow> Some (Inl e) | Inr s' \<Rightarrow> parms_loop s')
      else Some (Inr s))"

definition get_parms :: "fsm \<Rightarrow> fsm c option" where
  "get_parms s =
     (let s = s\<lparr>nextstate := Some Get_lparen\<rparr> in
      if ttype (this s) = 40 then
        obind (parms_loop s) (\<lambda>s. Some (cbind (gettoken s) (\<lambda>s.
          Inr (print (ascii ''function returning '') s))))
      else Some (Inr s))"

definition get_lparen :: "fsm \<Rightarrow> fsm c" where
  "get_lparen s =
     (let s = s\<lparr>nextstate := Some Get_ptr_part\<rparr> in
      case stack s of [] \<Rightarrow> Inr s
      | t # ts \<Rightarrow> if ttype t = 40 then
            cbind (gettoken (s\<lparr>stack := ts\<rparr>)) (\<lambda>s. Inr (s\<lparr>nextstate := Some Get_array\<rparr>))
          else Inr s)"

text \<open>The top of the stack is read without asking whether there is one.\<close>

definition get_ptr_part :: "fsm \<Rightarrow> fsm c" where
  "get_ptr_part s =
     (let s = s\<lparr>nextstate := Some Get_type\<rparr> in
      case stack s of [] \<Rightarrow> Inl Read_oob
      | t # ts \<Rightarrow>
          if ttype t = 42 then Inr ((print (ascii ''point to '') s)\<lparr>stack := ts, nextstate := Some Get_lparen\<rparr>)
          else if ttype t = QUALIFIER then
            Inr ((print (tstr t @ [32]) s)\<lparr>stack := ts, nextstate := Some Get_lparen\<rparr>)
          else Inr s)"

fun type_loop :: "token list \<Rightarrow> byte list" where
  "type_loop [] = []"
| "type_loop (t # ts) = tstr t @ [32] @ type_loop ts"

definition get_type :: "fsm \<Rightarrow> fsm c" where
  "get_type s = Inr ((print (type_loop (stack s) @ [10]) s)\<lparr>stack := [], nextstate := None\<rparr>)"

fun fsm_step :: "state \<Rightarrow> fsm \<Rightarrow> fsm c option" where
  "fsm_step Initialize s = Some (initialize s)"
| "fsm_step Get_array s = Some (get_array s)"
| "fsm_step Get_parms s = get_parms s"
| "fsm_step Get_lparen s = Some (get_lparen s)"
| "fsm_step Get_ptr_part s = Some (get_ptr_part s)"
| "fsm_step Get_type s = Some (get_type s)"

partial_function (option) fsm_run :: "fsm \<Rightarrow> fsm c option" where
  "fsm_run s =
     (case nextstate s of None \<Rightarrow> Some (Inr s)
      | Some q \<Rightarrow> (case fsm_step q s of None \<Rightarrow> None
          | Some (Inl e) \<Rightarrow> Some (Inl e) | Some (Inr s') \<Rightarrow> fsm_run s'))"

definition fsm_start :: "byte list \<Rightarrow> fsm" where
  "fsm_start inp = \<lparr>input = inp, this = \<lparr>ttype = 0, tstr = []\<rparr>, stack = [], out = [], nextstate = Some Initialize\<rparr>"

definition fsm_main :: "byte list \<Rightarrow> byte list c option" where
  "fsm_main inp = obind (fsm_run (fsm_start inp)) (\<lambda>s. Some (Inr (out s)))"

section \<open>Reading a declaration\<close>

lemma gettoken_word:
  assumes "dropWhile (\<lambda>b. b = 32) (input s) = w @ c # z" and "w \<noteq> []" and "list_all isalnum w"
    and "length w < MAXTOKENLEN" and "\<not> isalnum c" and "c \<noteq> 0xFF"
  shows "gettoken s = Inr (s\<lparr>input := c # z, this := \<lparr>ttype = fst (classify_string w), tstr = snd (classify_string w)\<rparr>\<rparr>)"
proof -
  obtain b u where w: "w = b # u" using assms(2) by (cases w) auto
  have "takeWhile isalnum (u @ c # z) = u" "dropWhile isalnum (u @ c # z) = c # z"
    using assms(3,5) by (simp_all add: w list_all_iff)
  with assms w show ?thesis by (simp add: gettoken_def Let_def split_beta)
qed

lemma gettoken_char:
  "dropWhile (\<lambda>b. b = 32) (input s) = b # z \<Longrightarrow> \<not> isalnum b \<Longrightarrow> b \<noteq> 0 \<Longrightarrow>
     gettoken s = Inr (s\<lparr>input := z, this := \<lparr>ttype = b, tstr = [b]\<rparr>\<rparr>)"
  by (simp add: gettoken_def)

definition star :: token where
  "star = \<lparr>ttype = 42, tstr = [42]\<rparr>"

lemma marks: "\<not> isalnum 42" "\<not> isalnum 59" "\<not> isalnum 32"
  by (simp_all add: isalnum_def)

lemma word_not_space: "list_all isalnum w \<Longrightarrow> w \<noteq> [] \<Longrightarrow> dropWhile (\<lambda>b. b = 32) (w @ r) = w @ r"
  by (cases w) (auto simp: isalnum_def)

definition name_ok :: "byte list \<Rightarrow> bool" where
  "name_ok w \<longleftrightarrow> w \<noteq> [] \<and> list_all isalnum w \<and> length w < MAXTOKENLEN \<and> classify_string w = (IDENTIFIER, w)"

lemma init_loop_stars:
  "dropWhile (\<lambda>b. b = 32) (input s) = replicate n 42 @ name @ 59 # z \<Longrightarrow> name_ok name \<Longrightarrow>
   ttype (this s) \<noteq> IDENTIFIER \<Longrightarrow> length (stack s) + n < MAXTOKENS \<Longrightarrow>
   init_loop s = Inr (s\<lparr>input := 59 # z, this := \<lparr>ttype = IDENTIFIER, tstr = name\<rparr>,
     stack := replicate n star @ this s # stack s\<rparr>)"
proof (induction n arbitrary: s)
  case 0
  then have "gettoken (s\<lparr>stack := this s # stack s\<rparr>) =
      Inr (s\<lparr>stack := this s # stack s, input := 59 # z, this := \<lparr>ttype = IDENTIFIER, tstr = name\<rparr>\<rparr>)"
    using gettoken_word[of "s\<lparr>stack := this s # stack s\<rparr>" name 59 z] by (simp add: name_ok_def marks)
  with 0 show ?case
    by (subst init_loop.simps) (simp add: init_loop.simps[of "_ :: fsm"])
next
  case (Suc n)
  let ?s = "s\<lparr>stack := this s # stack s, input := replicate n 42 @ name @ 59 # z, this := star\<rparr>"
  have "gettoken (s\<lparr>stack := this s # stack s\<rparr>) = Inr ?s"
    using gettoken_char[of "s\<lparr>stack := this s # stack s\<rparr>" 42] Suc.prems(1) by (simp add: marks star_def)
  moreover have "dropWhile (\<lambda>b. b = 32) (input ?s) = replicate n 42 @ name @ 59 # z"
    using word_not_space[of name] Suc.prems(2) by (cases n) (simp_all add: name_ok_def)
  then have "init_loop ?s = Inr (?s\<lparr>input := 59 # z, this := \<lparr>ttype = IDENTIFIER, tstr = name\<rparr>,
      stack := replicate n star @ this ?s # stack ?s\<rparr>)"
    using Suc.prems by (intro Suc.IH) (simp_all add: star_def IDENTIFIER_def)
  ultimately show ?case
    using Suc.prems by (subst init_loop.simps) (simp add: replicate_app_Cons_same)
qed

lemma fsm_run_step: "nextstate s = Some q \<Longrightarrow> fsm_step q s = Some (Inr s') \<Longrightarrow> fsm_run s = fsm_run s'"
  by (subst fsm_run.simps) simp

lemma fsm_run_unwind:
  "nextstate s = Some Get_lparen \<Longrightarrow> stack s = replicate n star @ [\<lparr>ttype = TYPE_TAG, tstr = w\<rparr>] \<Longrightarrow>
   \<exists>s'. fsm_run s = Some (Inr s') \<and> out s' = out s @ concat (replicate n (ascii ''point to '')) @ w @ [32, 10]"
proof (induction n arbitrary: s)
  case 0
  have "fsm_run s = fsm_run (s\<lparr>nextstate := Some Get_ptr_part\<rparr>)"
    using 0 by (intro fsm_run_step[of _ Get_lparen]) (simp_all add: get_lparen_def TYPE_TAG_def Let_def)
  also have "\<dots> = fsm_run (s\<lparr>nextstate := Some Get_type\<rparr>)"
    using 0 by (intro fsm_run_step[of _ Get_ptr_part]) (simp_all add: get_ptr_part_def TYPE_TAG_def QUALIFIER_def Let_def)
  also have "\<dots> = fsm_run ((print (type_loop (stack s) @ [10]) s)\<lparr>stack := [], nextstate := None\<rparr>)"
    by (rule fsm_run_step[of _ Get_type]) (simp_all add: get_type_def print_def)
  also have "\<dots> = Some (Inr ((print (type_loop (stack s) @ [10]) s)\<lparr>stack := [], nextstate := None\<rparr>))"
    by (subst fsm_run.simps) simp
  finally show ?case using 0 by simp
next
  case (Suc n)
  let ?s = "(print (ascii ''point to '') s)\<lparr>stack := replicate n star @ [\<lparr>ttype = TYPE_TAG, tstr = w\<rparr>],
    nextstate := Some Get_lparen\<rparr>"
  have "fsm_run s = fsm_run (s\<lparr>nextstate := Some Get_ptr_part\<rparr>)"
    using Suc.prems by (intro fsm_run_step[of _ Get_lparen]) (simp_all add: get_lparen_def star_def Let_def)
  also have "\<dots> = fsm_run ?s"
    using Suc.prems by (intro fsm_run_step[of _ Get_ptr_part]) (simp_all add: get_ptr_part_def star_def print_def Let_def)
  finally show ?case using Suc.IH[of ?s] by simp
qed

lemma type_words_ok:
  "w \<in> set type_words \<Longrightarrow> w \<noteq> [] \<and> list_all isalnum w \<and> length w < MAXTOKENLEN \<and> classify_string w = (TYPE_TAG, w)"
proof -
  have "\<forall>w\<in>set type_words. w \<noteq> [] \<and> list_all isalnum w \<and> length w < MAXTOKENLEN \<and> classify_string w = (TYPE_TAG, w)"
    by code_simp
  then show "w \<in> set type_words \<Longrightarrow> ?thesis" by blast
qed

text \<open>
  C38.  The machine reads a declaration of a pointer aright: for a type word, any number of stars
  up to the size of the stack, a name and a semicolon it prints the name, "is", one "point to" for
  each star and the type.
\<close>

theorem fsm_reads_pointers:
  assumes "w \<in> set type_words" and "name_ok name" and "n < MAXTOKENS"
  shows "fsm_main (w @ 32 # replicate n 42 @ name @ 59 # z) =
    Some (Inr (name @ ascii '' is '' @ concat (replicate n (ascii ''point to '')) @ w @ [32, 10]))"
proof -
  let ?inp = "w @ 32 # replicate n 42 @ name @ 59 # z" and ?t = "\<lparr>ttype = TYPE_TAG, tstr = w\<rparr>"
  note w = type_words_ok[OF assms(1)]
  let ?s1 = "(fsm_start ?inp)\<lparr>input := 32 # replicate n 42 @ name @ 59 # z, this := ?t\<rparr>"
  have 1: "gettoken (fsm_start ?inp) = Inr ?s1"
    using gettoken_word[of "fsm_start ?inp" w 32] w word_not_space[of w] by (simp add: fsm_start_def marks)
  have "dropWhile (\<lambda>b. b = 32) (input ?s1) = replicate n 42 @ name @ 59 # z"
    using word_not_space[of name] assms(2) by (cases n) (simp_all add: name_ok_def)
  from init_loop_stars[OF this assms(2)] assms(3)
  have 2: "init_loop ?s1 = Inr (?s1\<lparr>input := 59 # z, this := \<lparr>ttype = IDENTIFIER, tstr = name\<rparr>, stack := replicate n star @ [?t]\<rparr>)"
    by (simp add: fsm_start_def TYPE_TAG_def IDENTIFIER_def)
  let ?s2 = "?s1\<lparr>input := z, this := \<lparr>ttype = 59, tstr = [59]\<rparr>, stack := replicate n star @ [?t],
    out := name @ ascii '' is ''\<rparr>"
  have init: "initialize (fsm_start ?inp) = Inr (?s2\<lparr>nextstate := Some Get_array\<rparr>)"
    by (simp add: initialize_def 1 2) (simp add: gettoken_def print_def fsm_start_def marks)
  have "fsm_run (fsm_start ?inp) = fsm_run (?s2\<lparr>nextstate := Some Get_array\<rparr>)"
    by (rule fsm_run_step[of _ Initialize]) (simp add: fsm_start_def, simp only: fsm_step.simps init)
  also have "\<dots> = fsm_run (?s2\<lparr>nextstate := Some Get_parms\<rparr>)"
    by (rule fsm_run_step[of _ Get_array]) (simp_all add: get_array_def array_loop.simps)
  also have "\<dots> = fsm_run (?s2\<lparr>nextstate := Some Get_lparen\<rparr>)"
    by (rule fsm_run_step[of _ Get_parms]) (simp_all add: get_parms_def Let_def)
  finally have run: "fsm_run (fsm_start ?inp) = fsm_run (?s2\<lparr>nextstate := Some Get_lparen\<rparr>)" .
  from fsm_run_unwind[of "?s2\<lparr>nextstate := Some Get_lparen\<rparr>" n w] show ?thesis
    by (auto simp: fsm_main_def run)
qed

theorem fsm_reads_pointers_witness:
  "fsm_main (ascii ''char'' @ 32 # replicate 2 42 @ ascii ''p'' @ 59 # []) =
    Some (Inr (ascii ''p is point to point to char '' @ [10]))"
proof -
  have "ascii ''char'' \<in> set type_words" "name_ok (ascii ''p'')" "2 < MAXTOKENS"
    by code_simp+
  from fsm_reads_pointers[OF this, of "[]"] show ?thesis
    by (simp add: ascii_def numeral_2_eq_2)
qed

lemma gettoken_no_paren:
  assumes "gettoken s = Inr s'" and "41 \<notin> set (input s)"
  shows "41 \<notin> set (input s') \<and> ttype (this s') \<noteq> 41"
proof -
  have sub: "set (dropWhile P xs) \<subseteq> set xs" for P and xs :: "byte list" by (auto dest: set_dropWhileD)
  show ?thesis
  proof (cases "dropWhile (\<lambda>b. b = 32) (input s)")
    case Nil
    with assms show ?thesis by (auto simp: gettoken_def)
  next
    case (Cons b rest)
    then have "b \<noteq> 41" "41 \<notin> set rest" using sub[of "\<lambda>b. b = 32" "input s"] assms(2) by auto
    moreover have "41 \<notin> set (dropWhile isalnum rest)" using sub[of isalnum rest] calculation by auto
    moreover have "fst (classify_string x) \<noteq> 41" for x
      by (simp add: classify_string_def QUALIFIER_def TYPE_TAG_def IDENTIFIER_def)
    ultimately show ?thesis
      using assms(1) Cons
      by (auto simp: gettoken_def Let_def split_beta split: if_splits list.splits)
  qed
qed

lemma parms_loop_result:
  assumes "parms_loop s = Some x"
  shows "x = Inr r \<longrightarrow> ttype (this s) = 41 \<or> 41 \<in> set (input s)"
proof (rule parms_loop.raw_induct [where P = "\<lambda>s x. x = Inr r \<longrightarrow> ttype (this s) = 41 \<or> 41 \<in> set (input s)", OF _ assms])
  fix f s x
  assume IH: "\<And>s x. f s = Some x \<Longrightarrow> x = Inr r \<longrightarrow> ttype (this s) = 41 \<or> 41 \<in> set (input s)"
    and body: "(if ttype (this s) \<noteq> 41 then (case gettoken s of Inl e \<Rightarrow> Some (Inl e) | Inr s' \<Rightarrow> f s')
      else Some (Inr s)) = Some x"
  show "x = Inr r \<longrightarrow> ttype (this s) = 41 \<or> 41 \<in> set (input s)"
  proof (cases "ttype (this s) = 41")
    case False
    with body show ?thesis
      using IH gettoken_no_paren[of s] by (cases "gettoken s") auto
  qed simp
qed

lemma parms_loop_paren: "parms_loop s = Some (Inr r) \<Longrightarrow> ttype (this s) = 41 \<or> 41 \<in> set (input s)"
  using parms_loop_result[of s "Inr r" r] by simp

text \<open>
  When no closing parenthesis follows an opening one, get_parms never returns: at the end of
  the input the scanner gives the same token for ever.
\<close>

theorem get_parms_unclosed:
  assumes "ttype (this s) = 40" and "41 \<notin> set (input s)"
  shows "get_parms s \<noteq> Some (Inr r)"
proof -
  have "parms_loop (s\<lparr>nextstate := Some Get_lparen\<rparr>) \<noteq> Some (Inr r')" for r'
    using parms_loop_paren[of "s\<lparr>nextstate := Some Get_lparen\<rparr>" r'] assms by auto
  then show ?thesis using assms(1)
    by (cases "parms_loop (s\<lparr>nextstate := Some Get_lparen\<rparr>)") (auto simp: get_parms_def obind_def split: sum.splits)
qed

theorem get_parms_unclosed_witness:
  "get_parms ((fsm_start [65])\<lparr>this := \<lparr>ttype = 40, tstr = [40]\<rparr>\<rparr>) \<noteq> Some (Inr (fsm_start []))"
  using get_parms_unclosed[of "(fsm_start [65])\<lparr>this := \<lparr>ttype = 40, tstr = [40]\<rparr>\<rparr>"] by (simp add: fsm_start_def)

end
