(* ===== verification/Array_Practice.thy ===== *)
theory Array_Practice
  imports C_Prelude
begin

text \<open>
  The array exercises of Practice/while.c: the printers of arrays and matrices, the rotation of an
  array in place along its cycles, and the reversal of a part of an array.  What the functions print
  is part of their result; a matrix is the list of its cells row by row.
\<close>

section \<open>Printers\<close>

definition put_int :: "int \<Rightarrow> byte list" where
  "put_int v = printf_d v @ [32]"

definition printfArray :: "int list option \<Rightarrow> int \<Rightarrow> byte list c" where
  "printfArray arr n =
     (case arr of None \<Rightarrow> Inr []
      | Some a \<Rightarrow> if n > 0 then
            cbind (for_n (nat n) 0 (\<lambda>i out. cbind (rd a i) (\<lambda>v. Inr (out @ put_int v))) (ascii ''[ ''))
              (\<lambda>out. Inr (out @ ascii '' ]'' @ [10]))
          else Inr [])"

text \<open>The pointer is cast to an array of rows of three cells, whatever \<open>m\<close> is.\<close>

definition printfMatrix :: "int list option \<Rightarrow> int \<Rightarrow> int \<Rightarrow> byte list c" where
  "printfMatrix arr n m =
     (case arr of None \<Rightarrow> Inr []
      | Some a \<Rightarrow> if n > 0 \<and> m > 0 then
            cbind (for_n (nat n) 0 (\<lambda>i out.
                cbind (for_n (nat m) 0 (\<lambda>j out. cbind (rd a (3 * i + j)) (\<lambda>v. Inr (out @ put_int v))) (out @ ascii ''[ ''))
                  (\<lambda>out. Inr (out @ ascii '']'' @ [10]))) [])
              (\<lambda>out. Inr (out @ [10]))
          else Inr [])"

definition normal :: "int \<Rightarrow> int \<Rightarrow> byte list c" where
  "normal n m =
     cbind (for_n (nat n) 0 (\<lambda>i (num, out).
         cbind (for_n (nat m) 0 (\<lambda>j (num, out).
             cbind (chk (num + 1)) (\<lambda>num. Inr (num, out @ printf_d num @ [9]))) (num, out))
           (\<lambda>(num, out). Inr (num, out @ [10]))) (0, []))
       (\<lambda>(num, out). Inr out)"

function pair_loop :: "int list \<Rightarrow> nat \<Rightarrow> nat \<Rightarrow> byte list \<Rightarrow> byte list c" where
  "pair_loop data l r out =
     (if l < r then cbind (rd data l) (\<lambda>x. cbind (rd data r) (\<lambda>y.
        pair_loop data (l + 1) (r - 1) (out @ printf_d x @ ascii ''--><--'' @ put_int y)))
      else Inr out)"
  by pat_completeness auto
termination
  by (relation "measure (\<lambda>(data, l, r, out). r - l)") auto

declare pair_loop.simps [simp del]

definition nine :: "int list" where
  "nine = [1, 2, 3, 4, 5, 6, 7, 8, 9]"

definition twoPointer :: "byte list c" where
  "twoPointer =
     cbind (printfArray (Some nine) 9) (\<lambda>a.
     for_n 9 0 (\<lambda>i out.
       cbind (pair_loop nine (i + 1) 8 (out @ ascii ''['' @ printf_d (int i) @ ascii ''] ''))
         (\<lambda>out. Inr (out @ [10])))
       (ascii ''In: '' @ a @ ascii ''Out: '' @ [10]))"

text \<open>The loops over a matrix of \<open>m\<close> columns that print a cell each, with \<open>close\<close> after a row.\<close>

definition grid :: "nat \<Rightarrow> nat \<Rightarrow> int list \<Rightarrow> byte list \<Rightarrow> (nat \<Rightarrow> nat \<Rightarrow> int \<Rightarrow> byte list) \<Rightarrow> byte list \<Rightarrow> byte list c" where
  "grid n m data close cell =
     for_n n 0 (\<lambda>i out.
       cbind (for_n m 0 (\<lambda>j out. cbind (rd data (m * i + j)) (\<lambda>v. Inr (out @ cell i j v))) (out @ ascii ''[ ''))
         (\<lambda>out. Inr (out @ close)))"

definition row_end :: "byte list" where "row_end = ascii '']'' @ [10]"
definition row_end' :: "byte list" where "row_end' = ascii '' ]'' @ [10]"

definition mat3 :: "int list" where
  "mat3 = [1, 3, 5, 2, 4, 6, 7, 8, 9]"

definition mat5 :: "int list" where
  "mat5 = [1, 3, 5, 7, 8, 2, 4, 6, 0, 4, 1, 2, 3, 4, 5, 7, 8, 9, 1, 3, 9, 8, 7, 6, 5]"

definition mat8 :: "int list" where
  "mat8 = replicate 64 1"

definition MatrixPointPrint :: "int \<Rightarrow> byte list c" where
  "MatrixPointPrint md =
     cbind (printfMatrix (Some mat3) 3 3) (\<lambda>out.
     cbind (for_n 3 0 (\<lambda>i (cnt, out).
         cbind (for_n 3 0 (\<lambda>j (cnt, out).
             cbind (rd mat3 (3 * i + j)) (\<lambda>v.
               Inr (cnt + 1, out @ (if (cnt + 1) mod 2 = md then put_int v else [32, 32])))) (cnt, out @ ascii ''[ ''))
           (\<lambda>(cnt, out). Inr (cnt, out @ row_end))) (0 :: int, out))
       (\<lambda>(cnt, out). Inr out))"

definition MatrixPointPrint1 :: "int \<Rightarrow> byte list c" where
  "MatrixPointPrint1 md =
     cbind (printfMatrix (Some mat5) 5 5)
       (grid 5 5 mat5 row_end (\<lambda>i j v. if int (j mod 2) = md then put_int v else [32, 32]))"

definition MatrixPointPrint2 :: "int \<Rightarrow> byte list c" where
  "MatrixPointPrint2 md =
     cbind (printfMatrix (Some mat3) 3 3)
       (grid 3 3 mat3 row_end (\<lambda>i j v. if int (i mod 2) = md then [32, 32] else put_int v))"

definition MatrixPointPrint3 :: "byte list c" where
  "MatrixPointPrint3 =
     cbind (printfMatrix (Some mat8) 8 8)
       (grid 8 8 mat8 row_end (\<lambda>i j v. if i mod 2 = 0 \<and> j mod 2 = 0 then put_int v else ascii ''- ''))"

definition MatrixPointPrint4 :: "byte list c" where
  "MatrixPointPrint4 =
     cbind (printfMatrix (Some mat8) 8 8)
       (grid 8 8 mat8 row_end' (\<lambda>i j v. if i mod 2 = 1 \<and> j mod 2 = 1 then put_int v else ascii ''- ''))"

definition printfDiagonal :: "byte list c" where
  "printfDiagonal =
     cbind (printfMatrix (Some mat8) 8 8)
       (grid 8 8 mat8 row_end' (\<lambda>i j v. if i = j \<or> j = 8 - 1 - i then put_int v else ascii ''- ''))"

text \<open>A printer whose reads stay inside the object prints the cells in order.\<close>

lemma printfArray_total:
  assumes "0 < n" and "n \<le> length a"
  shows "printfArray (Some a) (int n) =
    Inr (fold (\<lambda>i out. out @ put_int (a ! i)) [0..<n] (ascii ''[ '') @ ascii '' ]'' @ [10])"
proof -
  have "for_n n 0 (\<lambda>i out. cbind (rd a i) (\<lambda>v. Inr (out @ put_int v))) s =
      Inr (fold (\<lambda>i out. out @ put_int (a ! i)) [0..<n] s)" for s
    using for_n_total[of 0 n "\<lambda>i out. cbind (rd a i) (\<lambda>v. Inr (out @ put_int v))" "\<lambda>i out. out @ put_int (a ! i)" s] assms(2)
    by simp
  with assms(1) show ?thesis by (simp add: printfArray_def)
qed

section \<open>Rotation in place\<close>

record rot =
  rdata :: "int list"
  history :: "int list"
  rcount :: nat
  rout :: "byte list"

definition rot_display :: "nat \<Rightarrow> rot \<Rightarrow> byte list c" where
  "rot_display n s =
     for_n n 0 (\<lambda>k out. cbind (rd (history s) k) (\<lambda>h. cbind (rd (rdata s) k) (\<lambda>v.
       Inr (out @ (if h = 1 then put_int v else ascii ''- ''))))) (ascii ''[ '')"

text \<open>The body of the inner loop: the new \<open>cur\<close>, the new \<open>prev\<close> and the arrays.\<close>

definition rot_step :: "nat \<Rightarrow> nat \<Rightarrow> nat \<Rightarrow> int \<Rightarrow> rot \<Rightarrow> (nat \<times> int \<times> rot) c" where
  "rot_step n k cur prev s =
     (let next = (cur + k) mod n in
      cbind (rd (rdata s) next) (\<lambda>tmp.
      cbind (wr (rdata s) next prev) (\<lambda>d.
      cbind (wr (history s) next 1) (\<lambda>h.
        let s1 = s\<lparr>rdata := d, history := h, rcount := rcount s + 1\<rparr> in
        cbind (rot_display n s1) (\<lambda>out.
          Inr (next, tmp, s1\<lparr>rout := rout s @ out @ ascii '' ] pos['' @ printf_d (int next) @ ascii ''] temp['' @
            printf_d tmp @ ascii ''] loop['' @ printf_d (int (rcount s1)) @ ascii '']'' @ [10]\<rparr>))))))"

partial_function (option) rot_cycle :: "nat \<Rightarrow> nat \<Rightarrow> nat \<Rightarrow> nat \<Rightarrow> int \<Rightarrow> rot \<Rightarrow> rot c option" where
  "rot_cycle n k i cur prev s =
     (case rot_step n k cur prev s of Inl e \<Rightarrow> Some (Inl e)
      | Inr (cur, prev, s) \<Rightarrow> if i \<noteq> cur then rot_cycle n k i cur prev s else Some (Inr s))"

partial_function (option) rot_loop :: "nat \<Rightarrow> nat \<Rightarrow> nat \<Rightarrow> rot \<Rightarrow> rot c option" where
  "rot_loop n k i s =
     (if rcount s < n then
        (case rd (rdata s) i of Inl e \<Rightarrow> Some (Inl e)
         | Inr prev \<Rightarrow> (case rot_cycle n k i i prev s of None \<Rightarrow> None
             | Some (Inl e) \<Rightarrow> Some (Inl e) | Some (Inr s) \<Rightarrow> rot_loop n k (i + 1) s))
      else Some (Inr s))"

text \<open>The constants of the source, an array of 9 cells and 15 places, are arguments here.\<close>

definition array_rotate :: "int list \<Rightarrow> nat \<Rightarrow> rot c option" where
  "array_rotate data md =
     rot_loop (length data) (md mod length data) 0
       \<lparr>rdata = data, history = replicate (length data) (-1), rcount = 0, rout = []\<rparr>"

definition ArrayRotate :: "byte list c option" where
  "ArrayRotate =
     obind (Some (printfArray (Some nine) 9)) (\<lambda>a.
     obind (array_rotate nine 15) (\<lambda>s.
     Some (cbind (printfArray (Some (rdata s)) 9) (\<lambda>b. Inr
       ([10] @ ascii ''>>>>>> ArrayRotate mod[6] <<<<<<<'' @ [10, 0xE6, 0x97, 0x8B, 0xE8, 0xBD, 0xAC, 0xE6, 0x95, 0xB0, 0xE7, 0xBB, 0x84, 10] @ a @ rout s @ b)))))"

text \<open>
  While a cycle from \<open>i\<close> runs, \<open>C\<close> holds the positions it has written: the successors of \<open>i\<close> and of
  all positions in \<open>C\<close> but the current one.  \<open>V\<close> holds what earlier cycles wrote.  Every position
  written holds the value of its predecessor, every other its own.
\<close>

definition rotated :: "int list \<Rightarrow> nat \<Rightarrow> nat set \<Rightarrow> int list \<Rightarrow> bool" where
  "rotated old k V d \<longleftrightarrow> length d = length old \<and> (\<forall>p < length old.
     d ! ((p + k) mod length old) = (if (p + k) mod length old \<in> V then old ! p else old ! ((p + k) mod length old)))"

definition closed :: "nat \<Rightarrow> nat \<Rightarrow> nat set \<Rightarrow> bool" where
  "closed n k V \<longleftrightarrow> V \<subseteq> {..<n} \<and> (\<forall>p<n. (p + k) mod n \<in> V \<longleftrightarrow> p \<in> V)"

definition orbit :: "nat \<Rightarrow> nat \<Rightarrow> nat \<Rightarrow> nat set" where
  "orbit n k i = {q. \<exists>t. q = (i + t * k) mod n}"

definition cycle_ok :: "nat \<Rightarrow> nat \<Rightarrow> nat \<Rightarrow> nat \<Rightarrow> nat set \<Rightarrow> bool" where
  "cycle_ok n k i cur C \<longleftrightarrow> C \<subseteq> {..<n} \<inter> orbit n k i \<and> cur \<in> insert i C \<and> i \<notin> C \<and>
     (\<forall>p<n. (p + k) mod n \<in> C \<longleftrightarrow> p \<in> insert i C \<and> p \<noteq> cur)"

definition rot_inv :: "int list \<Rightarrow> nat \<Rightarrow> nat set \<Rightarrow> rot \<Rightarrow> bool" where
  "rot_inv old k V s \<longleftrightarrow> rotated old k V (rdata s) \<and> length (history s) = length old \<and> rcount s = card V"

lemma shift_inj:
  assumes "p < n" and "q < n" and "(p + k) mod n = (q + k) mod n"
  shows "p = (q :: nat)"
proof -
  have aux: "x = y" if "x \<le> y" "y < n" "(x + k) mod n = (y + k) mod n" for x y
  proof -
    have "n dvd (y + k) - (x + k)"
      using that mod_eq_dvd_iff_nat[of "x + k" "y + k" n] by auto
    then have "n dvd y - x" by simp
    then show ?thesis using that by (auto dest: dvd_imp_le)
  qed
  show ?thesis using aux[of p q] aux[of q p] assms by (cases "p \<le> q") auto
qed

lemma mod_shift: "((a + b) mod n + k) mod n = (a + (b + k)) mod (n :: nat)"
  by (metis add.assoc mod_add_left_eq)

lemma predecessor:
  fixes i n k :: nat
  assumes "i < n"
  shows "\<exists>p<n. (p + k) mod n = i"
proof -
  let ?f = "\<lambda>p. (p + k) mod n"
  have "inj_on ?f {..<n}"
  proof (rule inj_onI)
    fix x y
    assume "x \<in> {..<n}" "y \<in> {..<n}" "?f x = ?f y"
    then show "x = y" using shift_inj[of x n y k] by simp
  qed
  moreover have "?f ` {..<n} \<subseteq> {..<n}" using assms by auto
  ultimately have "?f ` {..<n} = {..<n}" by (intro endo_inj_surj) auto
  with assms have "i \<in> ?f ` {..<n}" by simp
  then obtain p where "p < n" "i = ?f p" by auto
  then show ?thesis by blast
qed

lemma orbit_step: "q \<in> orbit n k i \<Longrightarrow> (q + k) mod n \<in> orbit n k i"
proof -
  assume "q \<in> orbit n k i"
  then obtain t where "q = (i + t * k) mod n" by (auto simp: orbit_def)
  then have "(q + k) mod n = (i + Suc t * k) mod n" using mod_shift[of i "t * k" n k] by (simp add: add.commute)
  then show ?thesis unfolding orbit_def by blast
qed

lemma orbit_refl: "i < n \<Longrightarrow> i \<in> orbit n k i"
  by (auto simp: orbit_def intro: exI[of _ 0])

lemma rot_display_total:
  "length (rdata s) = n \<Longrightarrow> length (history s) = n \<Longrightarrow> \<exists>out. rot_display n s = Inr out"
  unfolding rot_display_def
  by (subst for_n_total [where g = "\<lambda>k out. out @ (if history s ! k = 1 then put_int (rdata s ! k) else ascii ''- '')"]) auto

lemma rot_step_total:
  assumes "length (rdata s) = n" and "length (history s) = n" and "0 < n"
  shows "\<exists>s'. rot_step n k cur prev s = Inr ((cur + k) mod n, rdata s ! ((cur + k) mod n), s') \<and>
    rdata s' = (rdata s)[(cur + k) mod n := prev] \<and> length (history s') = n \<and> rcount s' = rcount s + 1"
proof -
  let ?next = "(cur + k) mod n"
  let ?s = "s\<lparr>rdata := (rdata s)[?next := prev], history := (history s)[?next := 1], rcount := rcount s + 1\<rparr>"
  obtain out where "rot_display n ?s = Inr out"
    using rot_display_total[of ?s n] assms by auto
  with assms show ?thesis by (simp add: rot_step_def Let_def)
qed

lemma cycle_ok_next:
  assumes "cycle_ok n k i cur C" and "closed n k V" and "i < n" and "i \<notin> V" and "C \<inter> V = {}"
  shows "(cur + k) mod n \<notin> C" "(cur + k) mod n \<notin> V"
    "(cur + k) mod n = i \<Longrightarrow> closed n k (V \<union> insert i C)"
    "(cur + k) mod n \<noteq> i \<Longrightarrow> cycle_ok n k i ((cur + k) mod n) (insert ((cur + k) mod n) C)"
proof -
  let ?next = "(cur + k) mod n"
  have cur: "cur < n" and step: "\<And>p. p < n \<Longrightarrow> (p + k) mod n \<in> C \<longleftrightarrow> p \<in> insert i C \<and> p \<noteq> cur"
    and C: "C \<subseteq> {..<n}" "cur \<in> insert i C" "i \<notin> C" "C \<subseteq> orbit n k i"
    using assms(1,3) by (auto simp: cycle_ok_def)
  have orb: "?next \<in> orbit n k i"
    using C(2,4) orbit_step[of cur n k i] orbit_refl[OF assms(3)] by auto
  have V: "V \<subseteq> {..<n}" "\<And>p. p < n \<Longrightarrow> (p + k) mod n \<in> V \<longleftrightarrow> p \<in> V"
    using assms(2) by (auto simp: closed_def)
  have eq: "(p + k) mod n = ?next \<longleftrightarrow> p = cur" if "p < n" for p
    using shift_inj[OF that cur] by blast
  show new: "?next \<notin> C" using step[OF cur] by simp
  show "?next \<notin> V" using V(2)[OF cur] C(2) assms(4,5) by auto
  show "closed n k (V \<union> insert i C)" if "?next = i"
    using V C assms(3) step eq that unfolding closed_def by auto
  show "cycle_ok n k i ?next (insert ?next C)" if "?next \<noteq> i"
    using C step eq new that assms(3) orb unfolding cycle_ok_def by auto
qed

lemma rotated_write:
  assumes "rotated old k V d" and "cur < length old" and "(cur + k) mod length old \<notin> V"
  shows "rotated old k (insert ((cur + k) mod length old) V) (d[(cur + k) mod length old := old ! cur])"
    and "d ! ((cur + k) mod length old) = old ! ((cur + k) mod length old)"
proof -
  let ?n = "length old"
  have d: "length d = ?n" "\<And>p. p < ?n \<Longrightarrow> d ! ((p + k) mod ?n) = (if (p + k) mod ?n \<in> V then old ! p else old ! ((p + k) mod ?n))"
    using assms(1) by (auto simp: rotated_def)
  show "d ! ((cur + k) mod ?n) = old ! ((cur + k) mod ?n)" using d(2)[OF assms(2)] assms(3) by simp
  let ?d = "d[(cur + k) mod ?n := old ! cur]"
  have "?d ! ((p + k) mod ?n) = (if (p + k) mod ?n \<in> insert ((cur + k) mod ?n) V then old ! p else old ! ((p + k) mod ?n))"
    if p: "p < ?n" for p
  proof (cases "p = cur")
    case True
    have "(cur + k) mod ?n < length d" using assms(2) d(1) by (simp only:) (intro mod_less_divisor, linarith)
    with True show ?thesis by simp
  next
    case False
    then have "(p + k) mod ?n \<noteq> (cur + k) mod ?n" using shift_inj[OF p assms(2), of k] by blast
    then show ?thesis using d(2)[OF p] by simp
  qed
  with d(1) show "rotated old k (insert ((cur + k) mod ?n) V) ?d" by (simp add: rotated_def)
qed

lemma rot_cycle_total:
  assumes "cycle_ok (length old) k i cur C" and "closed (length old) k V" and "i < length old" and "i \<notin> V" and "C \<inter> V = {}"
    and "rot_inv old k (V \<union> C) s"
  shows "\<exists>s' W. rot_cycle (length old) k i cur (old ! cur) s = Some (Inr s') \<and> rot_inv old k W s' \<and>
    closed (length old) k W \<and> insert i V \<subseteq> W \<and> W \<subseteq> V \<union> orbit (length old) k i"
  using assms
proof (induction "length old - card C" arbitrary: cur C s rule: less_induct)
  case less
  let ?n = "length old" let ?next = "(cur + k) mod ?n"
  note nx = cycle_ok_next[OF less.prems(1-5)]
  have inv: "rotated old k (V \<union> C) (rdata s)" "length (history s) = ?n" "rcount s = card (V \<union> C)"
    using less.prems(6) by (auto simp: rot_inv_def)
  have cur: "cur < ?n" and C: "C \<subseteq> {..<?n}" and V: "V \<subseteq> {..<?n}"
    using less.prems(1-3) by (auto simp: cycle_ok_def closed_def)
  then have fin: "finite C" "finite V" by (auto intro: finite_subset)
  obtain s' where s': "rot_step ?n k cur (old ! cur) s = Inr (?next, rdata s ! ?next, s')"
      "rdata s' = (rdata s)[?next := old ! cur]" "length (history s') = ?n" "rcount s' = rcount s + 1"
  proof -
    have "length (rdata s) = ?n" "0 < ?n" using inv(1) cur by (simp only: rotated_def, linarith)
    from rot_step_total[OF this(1) inv(2) this(2)] show thesis using that by blast
  qed
  note w = rotated_write[OF inv(1) cur]
  have new: "?next \<notin> V \<union> C" using nx(1,2) by simp
  have inv': "rot_inv old k (V \<union> insert ?next C) s'"
    using w(1)[OF new] s' inv(3) new fin by (simp add: rot_inv_def)
  show ?case
  proof (cases "?next = i")
    case True
    then have "rot_cycle ?n k i cur (old ! cur) s = Some (Inr s')"
      by (subst rot_cycle.simps) (simp add: s'(1))
    moreover have "V \<union> insert ?next C = V \<union> insert i C" using True by simp
    moreover have "insert i V \<subseteq> V \<union> insert i C" by auto
    moreover have "V \<union> insert i C \<subseteq> V \<union> orbit ?n k i"
      using less.prems(1) orbit_refl[OF less.prems(3), of k] by (auto simp: cycle_ok_def)
    ultimately show ?thesis using inv' nx(3)[OF True] by metis
  next
    case False
    have "?next < ?n" using less.prems(3) by (intro mod_less_divisor) linarith
    then have "card (insert ?next C) \<le> card {..<?n}" using C by (intro card_mono) auto
    then have dec: "?n - card (insert ?next C) < ?n - card C" using nx(1) fin by simp
    have dis: "insert ?next C \<inter> V = {}" using new less.prems(5) by auto
    have "rot_cycle ?n k i cur (old ! cur) s = rot_cycle ?n k i ?next (old ! ?next) s'"
      using False w(2)[OF new] by (subst rot_cycle.simps) (simp add: s'(1))
    then show ?thesis using less.hyps[OF dec nx(4)[OF False] less.prems(2-4) dis inv'] by simp
  qed
qed

lemma closed_iter: "closed n k V \<Longrightarrow> q \<in> V \<Longrightarrow> (q + t * k) mod n \<in> V"
proof (induction t)
  case 0
  then show ?case by (auto simp: closed_def)
next
  case (Suc t)
  then have "0 < n" by (auto simp: closed_def)
  then have "(q + t * k) mod n < n" by simp
  with Suc have "((q + t * k) mod n + k) mod n \<in> V" by (simp add: closed_def)
  then show ?case using mod_shift[of q "t * k" n k] by (simp add: add.commute)
qed

text \<open>A start position that an earlier cycle has written means that the cycles have written all.\<close>

lemma start_written:
  assumes "closed n k V" and "{..<i} \<subseteq> V" and "V \<subseteq> (\<Union>j<i. orbit n k j)" and "i \<in> V"
  shows "V = {..<n}"
proof -
  obtain j t where j: "j < i" "i = (j + t * k) mod n"
    using assms(3,4) by (auto simp: orbit_def)
  have "p \<in> V" if "p < n" for p
    using that
  proof (induction p rule: less_induct)
    case (less p)
    show ?case
    proof (cases "p < i")
      case False
      let ?q = "p - i + j"
      have "?q \<in> V" using less False j(1) by simp
      then have "(?q + t * k) mod n \<in> V" by (rule closed_iter[OF assms(1)])
      also have "(?q + t * k) mod n = (p - i + (j + t * k) mod n) mod n" by (simp add: mod_add_right_eq ac_simps)
      also have "\<dots> = p" using False less.prems by (simp flip: j(2))
      finally show ?thesis .
    qed (use assms(2) in auto)
  qed
  then show ?thesis using assms(1) by (auto simp: closed_def)
qed

lemma rot_loop_total:
  assumes "rot_inv old k V s" and "closed (length old) k V" and "{..<i} \<subseteq> V"
    and "V \<subseteq> (\<Union>j<i. orbit (length old) k j)"
  shows "\<exists>s'. rot_loop (length old) k i s = Some (Inr s') \<and> rotated old k {..<length old} (rdata s')"
  using assms
proof (induction "length old - card V" arbitrary: V s i rule: less_induct)
  case less
  let ?n = "length old"
  have V: "V \<subseteq> {..<?n}" "finite V" using less.prems(2) by (auto simp: closed_def intro: finite_subset)
  have s: "rotated old k V (rdata s)" "rcount s = card V" using less.prems(1) by (auto simp: rot_inv_def)
  show ?case
  proof (cases "card V < ?n")
    case False
    then have "V = {..<?n}" using V by (intro card_subset_eq) (auto intro: le_antisym dest: card_mono[rotated])
    then show ?thesis using False s by (subst rot_loop.simps) simp
  next
    case True
    have i: "i \<notin> V" using start_written[OF less.prems(2-4)] True by auto
    have "i < ?n" using less.prems(3) True card_mono[of V "{..<i}"] V by simp
    have "cycle_ok ?n k i i {}" by (simp add: cycle_ok_def)
    from rot_cycle_total[OF this less.prems(2) \<open>i < ?n\<close> i, of s] less.prems(1)
    obtain s' W where s': "rot_cycle ?n k i i (old ! i) s = Some (Inr s')" "rot_inv old k W s'" "closed ?n k W"
        "insert i V \<subseteq> W" "W \<subseteq> V \<union> orbit ?n k i" by auto
    have W: "finite W" "W \<subseteq> {..<?n}" using s'(3) by (auto simp: closed_def intro: finite_subset)
    have "card V < card W" using s'(4) i W(1) by (intro psubset_card_mono) auto
    then have dec: "?n - card W < ?n - card V" using True by simp
    have "rdata s ! i = old ! i" "length (rdata s) = ?n"
      using predecessor[OF \<open>i < ?n\<close>, of k] s(1) i by (auto simp: rotated_def)
    then have "rot_loop ?n k i s = rot_loop ?n k (i + 1) s'"
      using True \<open>i < ?n\<close> by (subst rot_loop.simps) (simp add: s(2) s'(1))
    moreover have "{..<i + 1} \<subseteq> W" using less.prems(3) s'(4) by (auto simp: less_Suc_eq)
    moreover have "W \<subseteq> (\<Union>j<i + 1. orbit ?n k j)" using s'(5) less.prems(4) by (force simp: less_Suc_eq)
    ultimately show ?thesis using less.hyps[OF dec s'(2,3)] by simp
  qed
qed

text \<open>
  C36.  ArrayRotate, for any array that is not empty and any number of places, ends after one write for
  each position and leaves the array rotated: rotating the result back gives the array it got.
\<close>

theorem array_rotate_rotates:
  assumes "data \<noteq> []"
  shows "\<exists>s. array_rotate data md = Some (Inr s) \<and> rotate md (rdata s) = data"
proof -
  let ?n = "length data" let ?k = "md mod length data"
  let ?s = "\<lparr>rdata = data, history = replicate ?n (-1), rcount = 0, rout = []\<rparr>"
  have "rot_inv data ?k {} ?s" "closed ?n ?k {}"
    using assms by (simp_all add: rot_inv_def rotated_def closed_def)
  from rot_loop_total[OF this] obtain s where
    s: "array_rotate data md = Some (Inr s)" "rotated data ?k {..<?n} (rdata s)"
    by (auto simp: array_rotate_def)
  have pos: "x mod ?n < ?n" for x using assms by simp
  have "rotate md (rdata s) ! p = data ! p" if "p < ?n" for p
  proof -
    have "(p + ?k) mod ?n = (md + p) mod ?n" by (simp add: mod_add_right_eq add.commute)
    with that s(2) pos show ?thesis by (auto simp: rotated_def nth_rotate)
  qed
  then have "rotate md (rdata s) = data"
    using s(2) by (intro nth_equalityI) (auto simp: rotated_def)
  with s(1) show ?thesis by blast
qed

theorem array_rotate_rotates_witness:
  "\<exists>s. array_rotate nine 15 = Some (Inr s) \<and> rotate 15 (rdata s) = nine"
  using array_rotate_rotates[of nine 15] by (simp add: nine_def)

section \<open>Reversal\<close>

text \<open>
  With \<open>s \<ge> 0\<close> only the sum in the first line can leave the range of int; with a negative \<open>s\<close> the
  first access is outside the array.
\<close>

function rev_loop :: "int \<Rightarrow> int \<Rightarrow> int \<Rightarrow> int \<Rightarrow> int list \<Rightarrow> byte list \<Rightarrow> (int list \<times> byte list) c" where
  "rev_loop s e m i arr out =
     (if i \<le> m then
        cbind (rdi arr i) (\<lambda>temp.
        cbind (rdi arr (e - i + s - 1)) (\<lambda>v.
        cbind (wri arr i v) (\<lambda>arr.
        cbind (wri arr (e - i + s - 1) temp) (\<lambda>arr.
        cbind (printfArray (Some arr) 10) (\<lambda>t.
          rev_loop s e m (i + 1) arr (out @ t))))))
      else Inr (arr, out))"
  by pat_completeness auto
termination
  by (relation "measure (\<lambda>(s, e, m, i, arr, out). nat (m - i + 1))") auto

declare rev_loop.simps [simp del]

definition reverse :: "int list \<Rightarrow> int \<Rightarrow> int \<Rightarrow> int \<Rightarrow> (int list \<times> byte list) c" where
  "reverse arr s e n =
     (if e > n then Inr (arr, [])
      else cbind (chk (s + e)) (\<lambda>t. cbind (cdiv t 2) (\<lambda>m. rev_loop s e m s arr [])))"

text \<open>The main program; its last part works on an array of its own.\<close>

definition main_reverse :: "byte list c" where
  "main_reverse =
     (let data = nine @ [10] in
      cbind (printfArray (Some data) 10) (\<lambda>a.
      cbind (reverse data 0 9 10) (\<lambda>(data, out).
      cbind (printfArray (Some data) 10) (\<lambda>b. Inr (a @ out @ b)))))"

definition while_main :: "byte list c option" where
  "while_main =
     obind (Some (normal 10 10)) (\<lambda>x1.
     obind (Some twoPointer) (\<lambda>x2.
     obind (Some (MatrixPointPrint 1)) (\<lambda>x3.
     obind (Some (MatrixPointPrint1 0)) (\<lambda>x4.
     obind (Some (MatrixPointPrint2 0)) (\<lambda>x5.
     obind (Some MatrixPointPrint3) (\<lambda>x6.
     obind (Some MatrixPointPrint4) (\<lambda>x7.
     obind (Some printfDiagonal) (\<lambda>x8.
     obind (ArrayRotate) (\<lambda>x9.
     obind (Some main_reverse) (\<lambda>z.
     Some (Inr
       (ascii ''>>>> Normal scan <<<<'' @ [10, 0xE6, 0x99, 0xAE, 0xE9, 0x80, 0x9A, 0xE5, 0x8F, 0x8C, 0xE5, 0xB1, 0x82, 0xE5, 0xBE, 0xAA, 0xE7, 0x8E, 0xAF, 0xE6, 0x89, 0x93, 0xE5, 0x8D, 0xB0] @ ascii '':'' @ [10] @
        x1 @
        [10] @ ascii ''>>>> 3-sum scan <<<<'' @ [10, 0xE6, 0x8E, 0x92, 0xE5, 0xA5, 0xBD, 0xE5, 0xBA, 0x8F, 0xE8, 0xA7, 0xA3, 0xE5, 0x86, 0xB3] @ ascii ''3'' @ [0xE6, 0x95, 0xB0, 0xE9, 0x97, 0xAE, 0xE9, 0xA2, 0x98] @ ascii '':'' @ [10] @
        x2 @
        [10] @ ascii ''>>>> Matrix point print <<<<'' @ [10, 0xE6, 0x89, 0x93, 0xE5, 0x8D, 0xB0, 0xE7, 0x9F, 0xA9, 0xE9, 0x98, 0xB5, 0xE4, 0xB8, 0xAD, 0xE7, 0x9A, 0x84, 0xE5, 0x81, 0xB6, 0xE6, 0x95, 0xB0, 0xE4, 0xB8, 0xAA, 0xE6, 0x95, 0xB0, 10] @
        x3 @
        [10, 10, 0xE6, 0x89, 0x93, 0xE5, 0x8D, 0xB0, 0xE7, 0x9F, 0xA9, 0xE9, 0x98, 0xB5, 0xE4, 0xB8, 0xAD, 0xE7, 0x9A, 0x84, 0xE6, 0xAF, 0x8F, 0xE4, 0xB8, 0x80, 0xE8, 0xA1, 0x8C, 0xE7, 0x9A, 0x84, 0xE7, 0xAC, 0xAC, 0xE5, 0x81, 0xB6, 0xE4, 0xB8, 0xAA, 0xE6, 0x95, 0xB0, 10] @
        x4 @
        [10, 10, 10, 0xE6, 0x89, 0x93, 0xE5, 0x8D, 0xB0, 0xE7, 0x9F, 0xA9, 0xE9, 0x98, 0xB5, 0xE4, 0xB8, 0xAD, 0xE7, 0x9A, 0x84, 0xE7, 0xAC, 0xAC, 0xE5, 0x81, 0xB6, 0xE6, 0x95, 0xB0, 0xE8, 0xA1, 0x8C, 10] @
        x5 @
        [10, 0xE6, 0x89, 0x93, 0xE5, 0x8D, 0xB0, 0xE7, 0x9F, 0xA9, 0xE9, 0x98, 0xB5, 0xE5, 0xB7, 0xA6, 0xE4, 0xB8, 0x8A, 0xE5, 0x80, 0xBC, 10] @
        x6 @
        [10, 0xE6, 0x89, 0x93, 0xE5, 0x8D, 0xB0, 0xE7, 0x9F, 0xA9, 0xE9, 0x98, 0xB5, 0xE5, 0x8F, 0xB3, 0xE4, 0xB8, 0x8B, 0xE5, 0x80, 0xBC, 10] @
        x7 @
        [10, 0xE6, 0x89, 0x93, 0xE5, 0x8D, 0xB0, 0xE7, 0x9F, 0xA9, 0xE9, 0x98, 0xB5, 0xE5, 0xAF, 0xB9, 0xE8, 0xA7, 0x92, 0xE7, 0xBA, 0xBF, 10] @
        x8 @
        x9 @
        [10] @ ascii ''>>>>> Reverse arr <<<<<'' @ [10, 0xE7, 0xBF, 0xBB, 0xE8, 0xBD, 0xAC, 0xE6, 0x8C, 0x87, 0xE5, 0xAE, 0x9A, 0xE5, 0x8C, 0xBA, 0xE5, 0x9F, 0x9F, 0xE6, 0x95, 0xB0, 0xE7, 0xBB, 0x84, 10] @
        z))))))))))))"

text \<open>The array before step \<open>i\<close>: the outer \<open>i - s\<close> cells on both sides are exchanged.\<close>

definition part_rev :: "int list \<Rightarrow> nat \<Rightarrow> nat \<Rightarrow> nat \<Rightarrow> int list \<Rightarrow> bool" where
  "part_rev old s e i arr \<longleftrightarrow> length arr = length old \<and> (\<forall>p < length old.
     arr ! p = (if s \<le> p \<and> p < i \<or> s + e - i \<le> p \<and> p < e then old ! (s + e - 1 - p) else old ! p))"

definition swap_cells :: "'a list \<Rightarrow> nat \<Rightarrow> nat \<Rightarrow> 'a list" where
  "swap_cells xs i j = xs[i := xs ! j, j := xs ! i]"

lemma rev_loop_step:
  assumes "i \<le> m" and "i < length arr" and "s + e - 1 - i < length arr" and "i < s + e" and "10 \<le> length arr"
  shows "\<exists>t. rev_loop (int s) (int e) (int m) (int i) arr out =
    rev_loop (int s) (int e) (int m) (int i + 1) (swap_cells arr i (s + e - 1 - i)) (out @ t)"
proof -
  define j where "j = s + e - 1 - i"
  have j: "int e - int i + int s - 1 = int j" using assms(4) by (simp add: j_def)
  obtain t where "printfArray (Some (swap_cells arr i j)) 10 = Inr t"
    using printfArray_total[of 10 "swap_cells arr i j"] assms(5) by (simp add: swap_cells_def)
  moreover have "j < length arr" using assms(3) by (simp add: j_def)
  ultimately show ?thesis using assms(1,2)
    unfolding rev_loop.simps[of "int s" "int e" "int m" "int i" arr out] j j_def[symmetric]
    by (simp add: swap_cells_def) blast
qed

lemma part_rev_step:
  assumes "part_rev old s e i arr" and "s \<le> i" and "2 * i + 1 < s + e" and "e \<le> length old"
  shows "part_rev old s e (i + 1) (swap_cells arr i (s + e - 1 - i))"
proof -
  have "length arr = length old" using assms(1) by (simp add: part_rev_def)
  moreover have "swap_cells arr i (s + e - 1 - i) ! p =
      (if s \<le> p \<and> p < i + 1 \<or> s + e - (i + 1) \<le> p \<and> p < e then old ! (s + e - 1 - p) else old ! p)" if "p < length old" for p
  proof -
    consider "p = i" | "p = s + e - 1 - i" | "p \<noteq> i" "p \<noteq> s + e - 1 - i" by blast
    then show ?thesis
      using assms that calculation by cases (auto simp: part_rev_def swap_cells_def nth_list_update)
  qed
  ultimately show ?thesis by (simp add: part_rev_def swap_cells_def)
qed

text \<open>The last step, at the middle \<open>m\<close>: with an even number of cells it takes back the step before.\<close>

definition reversed_range :: "int list \<Rightarrow> nat \<Rightarrow> nat \<Rightarrow> int list \<Rightarrow> bool" where
  "reversed_range old s e arr \<longleftrightarrow> length arr = length old \<and> (\<forall>p < length old.
     arr ! p = (if s \<le> p \<and> p < e \<and> \<not> (even (e - s) \<and> (p = (s + e) div 2 \<or> p + 1 = (s + e) div 2))
       then old ! (s + e - 1 - p) else old ! p))"

lemma part_rev_middle:
  assumes "part_rev old s e m arr" and m: "m = (s + e) div 2" and "s < e" and "e \<le> length old"
  shows "reversed_range old s e (swap_cells arr m (s + e - 1 - m))"
proof -
  have len: "length arr = length old" and arr: "\<And>p. p < length old \<Longrightarrow> arr ! p = (if s \<le> p \<and> p < m \<or> s + e - m \<le> p \<and> p < e
      then old ! (s + e - 1 - p) else old ! p)"
    using assms(1) by (auto simp: part_rev_def)
  show ?thesis
  proof (cases "even (e - s)")
    case True
    then have e: "s + e = 2 * m" using assms(3) m by (auto elim: evenE)
    have "swap_cells arr m (s + e - 1 - m) ! p = (if s \<le> p \<and> p < e \<and> p \<noteq> m \<and> p + 1 \<noteq> m then old ! (s + e - 1 - p) else old ! p)"
      if "p < length old" for p
    proof -
      consider "p = m" | "p + 1 = m" | "p \<noteq> m" "p + 1 \<noteq> m" by blast
      then show ?thesis
        using that assms(3,4) e arr len by cases (auto simp: swap_cells_def nth_list_update)
    qed
    then show ?thesis using True len m by (simp add: reversed_range_def swap_cells_def)
  next
    case False
    then have "s + e = 2 * m + 1" using assms(3) m by (auto elim!: oddE)
    moreover have "swap_cells arr m m = arr" by (simp add: swap_cells_def)
    moreover have "arr ! p = (if s \<le> p \<and> p < e then old ! (2 * m - p) else old ! p)" if "p < length old" for p
      using arr[OF that] calculation assms(3) by (cases "p = m") auto
    ultimately show ?thesis using False len by (auto simp: reversed_range_def)
  qed
qed

lemma rev_loop_reverses:
  assumes "part_rev old s e i arr" and "s \<le> i" and "i \<le> m" and m: "m = (s + e) div 2" and "s < e" and "e \<le> length old"
    and "10 \<le> length old"
  shows "\<exists>arr' t. rev_loop (int s) (int e) (int m) (int i) arr out = Inr (arr', t) \<and> reversed_range old s e arr'"
  using assms(1-3)
proof (induction "m - i" arbitrary: i arr out)
  case 0
  then have i: "i = m" by simp
  have len: "length arr = length old" using 0 by (simp add: part_rev_def)
  obtain t where t: "rev_loop (int s) (int e) (int m) (int i) arr out =
      rev_loop (int s) (int e) (int m) (int i + 1) (swap_cells arr i (s + e - 1 - i)) (out @ t)"
  proof -
    have "m < e" using m assms(5) by linarith
    then have "i < length arr" "s + e - 1 - i < length arr" "i < s + e" "10 \<le> length arr"
      using i len assms(6,7) "0.prems"(2) by linarith+
    from rev_loop_step[OF "0.prems"(3) this] show thesis using that by blast
  qed
  also have "\<dots> = Inr (swap_cells arr i (s + e - 1 - i), out @ t)"
    by (subst rev_loop.simps) (simp add: i)
  finally show ?case using part_rev_middle[of old s e m arr] 0 i assms(4-6) by blast
next
  case (Suc d)
  have len: "length arr = length old" using Suc.prems by (simp add: part_rev_def)
  have i: "2 * i + 1 < s + e" using Suc.hyps(2) m by linarith
  obtain t where "rev_loop (int s) (int e) (int m) (int i) arr out =
      rev_loop (int s) (int e) (int m) (int i + 1) (swap_cells arr i (s + e - 1 - i)) (out @ t)"
  proof -
    have "i < length arr" "s + e - 1 - i < length arr" "i < s + e" "10 \<le> length arr"
      using i len assms(6,7) Suc.prems(2) by linarith+
    from rev_loop_step[OF Suc.prems(3) this] show thesis using that by blast
  qed
  moreover have "part_rev old s e (i + 1) (swap_cells arr i (s + e - 1 - i))"
    using part_rev_step[OF Suc.prems(1,2) i assms(6)] .
  ultimately show ?case
    using Suc.hyps(1)[of "i + 1" "swap_cells arr i (s + e - 1 - i)" "out @ t"] Suc.hyps(2) Suc.prems(2)
    by (simp add: add.commute)
qed

text \<open>
  reverse of the cells from \<open>s\<close> up to \<open>e\<close> reverses a range with an odd number of cells; with an
  even number the two cells in the middle are exchanged twice and keep their places.
\<close>

theorem reverse_reverses:
  assumes "s < e" and "e \<le> length arr" and "int e \<le> n" and "10 \<le> length arr" and "int s + int e \<le> int_max"
  shows "\<exists>arr' out. reverse arr (int s) (int e) n = Inr (arr', out) \<and> reversed_range arr s e arr'"
proof -
  let ?m = "(s + e) div 2"
  have "chk (int s + int e) = Inr (int s + int e)" using assms(5) by (simp add: chk_def int_min_def)
  moreover have "cdiv (int s + int e) 2 = Inr (int ?m)"
  proof -
    have "0 \<le> (int s + int e) div 2" "(int s + int e) div 2 \<le> int_max" using assms(5) by linarith+
    then show ?thesis using assms(1) by (simp add: cdiv_def chk_def int_min_def zdiv_int)
  qed
  moreover have "part_rev arr s e s arr" by (auto simp: part_rev_def)
  from rev_loop_reverses[OF this _ _ refl assms(1,2,4), of "[]"] obtain arr' t where
    "rev_loop (int s) (int e) (int ?m) (int s) arr [] = Inr (arr', t)" "reversed_range arr s e arr'"
    using assms(1) by fastforce
  ultimately show ?thesis using assms(3) by (simp add: reverse_def)
qed

theorem reverse_reverses_witness:
  "\<exists>arr' out. reverse (nine @ [10]) (int 0) (int 9) 10 = Inr (arr', out) \<and> reversed_range (nine @ [10]) 0 9 arr'"
  by (rule reverse_reverses) (simp_all add: nine_def int_max_def)

lemma reverse_empty_range: "arr \<noteq> [] \<Longrightarrow> 0 \<le> n \<Longrightarrow> reverse arr 0 0 n = Inl Read_oob"
  by (simp add: reverse_def cdiv_def chk_def int_min_def int_max_def rev_loop.simps[of 0] rdi_def rd_def)

end
