(* ===== verification/Stdio.thy ===== *)
theory Stdio
  imports C_Prelude
begin

text \<open>
  The part of the C library for reading files that the file tools use: a stream is what is left of
  the file and the end-of-file mark, which is set when a call meets the end, not before.
\<close>

record stream =
  left :: "byte list"
  eof :: bool

definition fopen_r :: "byte list \<Rightarrow> stream" where
  "fopen_r content = \<lparr>left = content, eof = False\<rparr>"

definition fgetc :: "stream \<Rightarrow> byte option \<times> stream" where
  "fgetc s = (case left s of [] \<Rightarrow> (None, s\<lparr>eof := True\<rparr>) | b # r \<Rightarrow> (Some b, s\<lparr>left := r\<rparr>))"

text \<open>At most \<open>k\<close> bytes up to a newline, what is left, and whether the end was met.\<close>

fun take_line :: "nat \<Rightarrow> byte list \<Rightarrow> byte list \<times> byte list \<times> bool" where
  "take_line 0 r = ([], r, False)"
| "take_line (Suc k) [] = ([], [], True)"
| "take_line (Suc k) (b # r) =
     (if b = 10 then ([b], r, False) else let (l, r', e) = take_line k r in (b # l, r', e))"

definition fgets :: "nat \<Rightarrow> stream \<Rightarrow> byte list option \<times> stream" where
  "fgets n s = (let (l, r, e) = take_line (n - 1) (left s) in
     (if l = [] then None else Some l, s\<lparr>left := r, eof := eof s \<or> e\<rparr>))"

text \<open>What fgets stores: the line and a null byte, or nothing.\<close>

definition store_line :: "mem \<Rightarrow> byte list option \<Rightarrow> mem c" where
  "store_line m l = (case l of None \<Rightarrow> Inr m | Some l \<Rightarrow> wrs m 0 (l @ [0]))"

definition fread :: "nat \<Rightarrow> stream \<Rightarrow> byte list \<times> stream" where
  "fread n s = (take n (left s), s\<lparr>left := drop n (left s), eof := eof s \<or> length (left s) < n\<rparr>)"

text \<open>What is left to be done with a stream, for the loops that run until the end of the file.\<close>

definition todo :: "stream \<Rightarrow> nat" where
  "todo s = 2 * length (left s) + (if eof s then 0 else 1)"

lemma fgetc_todo: "\<not> eof s \<Longrightarrow> todo (snd (fgetc s)) < todo s"
  by (auto simp: fgetc_def todo_def split: list.split)

lemma take_line_length: "take_line k r = (l, r', e) \<Longrightarrow> r = l @ r' \<and> length l \<le> k \<and> (0 < k \<longrightarrow> l = [] \<longrightarrow> e)"
proof (induction k r arbitrary: l r' e rule: take_line.induct)
  case (3 k b r)
  then show ?case
    by (cases "take_line k r") (auto split: if_splits)
qed auto

lemma fgets_todo: "\<not> eof s \<Longrightarrow> 1 < n \<Longrightarrow> todo (snd (fgets n s)) < todo s"
proof -
  assume a: "\<not> eof s" "1 < n"
  obtain l r e where l: "take_line (n - 1) (left s) = (l, r, e)" by (cases "take_line (n - 1) (left s)") auto
  then have "snd (fgets n s) = s\<lparr>left := r, eof := eof s \<or> e\<rparr>" by (simp only: fgets_def Let_def prod.case snd_conv)
  with take_line_length[OF l] a show ?thesis by (cases l) (auto simp: todo_def)
qed

lemma fread_todo: "\<not> eof s \<Longrightarrow> 0 < n \<Longrightarrow> todo (snd (fread n s)) < todo s"
  by (auto simp: fread_def todo_def)

text \<open>A line without a newline inside that fits the buffer is read as a whole.\<close>

lemma take_line_line: "10 \<notin> set l \<Longrightarrow> length l < k \<Longrightarrow> take_line k (l @ 10 # r) = (l @ [10], r, False)"
proof (induction l arbitrary: k)
  case Nil
  then show ?case by (cases k) auto
next
  case (Cons b l)
  then show ?case by (cases k) auto
qed

lemma fgets_line:
  "left s = l @ 10 # r \<Longrightarrow> 10 \<notin> set l \<Longrightarrow> length l + 1 < n \<Longrightarrow> fgets n s = (Some (l @ [10]), s\<lparr>left := r\<rparr>)"
  by (simp add: fgets_def take_line_line)

lemma fgets_end: "left s = [] \<Longrightarrow> 1 < n \<Longrightarrow> fgets n s = (None, s\<lparr>eof := True\<rparr>)"
  by (cases "n - 1") (auto simp: fgets_def)

end
