(* ===== verification/Hex_Version.thy ===== *)
theory Hex_Version
  imports Stdio
begin

text \<open>
  The version reader of hexToChar (and its older copy in Analizefile): the text of a firmware file
  is searched for the line with the version, whose hexadecimal digits are turned into bytes and
  back.  A file is its content, or \<open>None\<close> when it cannot be opened.
\<close>

section \<open>Digits and bytes\<close>

text \<open>\<open>(a - 48) << 4 | (b - 48)\<close>; shifting a negative number is undefined.\<close>

definition hex_pair :: "byte \<Rightarrow> byte \<Rightarrow> byte c" where
  "hex_pair a b = (if sint a < 48 then Inl Signed_overflow else Inr (push_bit 4 (a - 48) OR (b - 48)))"

definition raw_pair :: "byte \<Rightarrow> byte \<Rightarrow> byte c" where
  "raw_pair a b = (if sint a < 0 then Inl Signed_overflow else Inr (push_bit 4 a OR b))"

text \<open>
  The expressions read \<open>*src\<close> and \<open>*++src\<close> in an order the language does not fix: \<open>lf\<close> tells
  whether the compiler evaluates the left operand first.
\<close>

definition translate_loop :: "(byte \<Rightarrow> byte \<Rightarrow> byte c) \<Rightarrow> bool \<Rightarrow> mem \<Rightarrow> nat \<Rightarrow> mem \<Rightarrow> mem c" where
  "translate_loop pair lf src n dst =
     for_n n 0 (\<lambda>k dst.
       cbind (rd src (if lf then 2 * k else 2 * k + 1)) (\<lambda>a.
       cbind (rd src (2 * k + 1)) (\<lambda>b.
       cbind (pair a b) (\<lambda>v. wr dst k v)))) dst"

definition translateHexToChars :: "bool \<Rightarrow> mem option \<Rightarrow> mem option \<Rightarrow> int \<Rightarrow> int \<Rightarrow> (int \<times> mem option) c" where
  "translateHexToChars lf src dst slen dlen =
     (case (src, dst) of
        (Some s, Some d) \<Rightarrow>
          if slen = dlen * 2 then
            cbind (strlen s 0) (\<lambda>_.
            cbind (translate_loop hex_pair lf s (nat dlen) d) (\<lambda>d. Inr (1, Some d)))
          else Inr (0, dst)
      | _ \<Rightarrow> Inr (0, dst))"

definition translateHexToChars1 :: "bool \<Rightarrow> mem option \<Rightarrow> mem option \<Rightarrow> int \<Rightarrow> int \<Rightarrow> (int \<times> mem option) c" where
  "translateHexToChars1 lf src dst slen dlen =
     (case (src, dst) of
        (Some s, Some d) \<Rightarrow>
          if slen = dlen * 2 then
            cbind (strlen s 0) (\<lambda>_.
            cbind (translate_loop raw_pair lf s (nat dlen) d) (\<lambda>d. Inr (1, Some d)))
          else Inr (0, dst)
      | _ \<Rightarrow> Inr (0, dst))"

text \<open>A negative length never becomes 0 by counting down, so the loop runs out of the source.\<close>

function from_hex_loop :: "mem \<Rightarrow> int \<Rightarrow> nat \<Rightarrow> mem \<Rightarrow> mem c" where
  "from_hex_loop src slen k dst =
     (if slen = 0 then Inr dst
      else cbind (rd src k) (\<lambda>c.
           cbind (wr dst (2 * k) ((c AND 0xF0) + 48)) (\<lambda>dst.
           cbind (wr dst (2 * k + 1) ((c AND 0x0F) + 48)) (\<lambda>dst.
             from_hex_loop src (slen - 1) (k + 1) dst))))"
  by pat_completeness auto
termination
  by (relation "measure (\<lambda>(src, slen, k, dst). length src - k)") (auto simp: rd_def split: if_splits)

declare from_hex_loop.simps [simp del]

definition getCharFromHex :: "mem \<Rightarrow> mem \<Rightarrow> int \<Rightarrow> int \<Rightarrow> (int \<times> mem) c" where
  "getCharFromHex src dst slen dlen =
     (if dlen < slen * 2 then Inr (-1, dst)
      else cbind (from_hex_loop src slen 0 dst) (\<lambda>dst. Inr (-1, dst)))"

section \<open>Lines of a file\<close>

function count_lines :: "stream \<Rightarrow> int \<Rightarrow> int" where
  "count_lines s n =
     (if eof s then n
      else count_lines (snd (fgetc s)) (if fst (fgetc s) = Some 10 then n + 1 else n))"
  by pat_completeness auto
termination
  by (relation "measure (\<lambda>(s, n). todo s)") (auto intro: fgetc_todo)

declare count_lines.simps [simp del]

text \<open>The number of lines and what is printed.\<close>

definition get_file_lines :: "byte list option \<Rightarrow> int \<times> byte list" where
  "get_file_lines f =
     (case f of None \<Rightarrow> (-1, [])
      | Some content \<Rightarrow> let row = count_lines (fopen_r content) 0 + 1 in
          (row, ascii ''row = '' @ printf_d row @ [10]))"

function special_loop :: "int \<Rightarrow> int \<Rightarrow> stream \<Rightarrow> mem \<Rightarrow> (mem \<times> byte list) c" where
  "special_loop which cur s str =
     (if eof s then Inr (str, [])
      else cbind (store_line str (fst (fgets 1024 s))) (\<lambda>str.
        if cur = which then cbind (strlen str 0) (\<lambda>_. Inr (str, ascii ''1='' @ str_at str 0))
        else special_loop which (cur + 1) (snd (fgets 1024 s)) str))"
  by pat_completeness auto
termination
  by (relation "measure (\<lambda>(which, cur, s, str). todo s)") (auto intro: fgets_todo)

declare special_loop.simps [simp del]

definition read_speacial_line :: "byte list option \<Rightarrow> int \<Rightarrow> mem \<Rightarrow> (mem \<times> byte list) c" where
  "read_speacial_line f i str =
     (case f of None \<Rightarrow> Inr (str, ascii ''error!'') | Some content \<Rightarrow> special_loop i 0 (fopen_r content) str)"

section \<open>The programs\<close>

text \<open>
  Up to the call of translateHexToChars both programs are the same: the arrays \<open>version\<close> and
  \<open>charVersion\<close> and what was printed.  \<open>alloc\<close>: malloc returned memory.
\<close>

definition read_version :: "bool \<Rightarrow> bool \<Rightarrow> byte list option \<Rightarrow> (mem \<times> byte list) c" where
  "read_version lf alloc f =
     (let (rows, o1) = get_file_lines f in
      if \<not> alloc then Inl Null_deref
      else
        cbind (read_speacial_line f (rows - 5) (replicate 1024 0)) (\<lambda>(str, o2).
        let version = strncpy_bytes (drop 17 str) 8 @ [0] in
        cbind (translateHexToChars lf (Some version) (Some (replicate 256 0)) 8 4) (\<lambda>(_, d).
          case d of None \<Rightarrow> Inl Null_deref
          | Some cv \<Rightarrow> Inr (cv, o1 @ o2 @ ascii ''version='' @ str_at version 0 @ [10] @
              ascii ''translateHexToChars src: '' @ str_at version 0 @ [10] @
              ascii ''charversion='' @ printf_d (sint (cv ! 0)) @ [45] @ printf_d (sint (cv ! 1)) @ [45] @
              printf_d (sint (cv ! 2)) @ [45] @ printf_d (sint (cv ! 3)) @ [10]))))"

definition analizefile_main :: "bool \<Rightarrow> bool \<Rightarrow> byte list option \<Rightarrow> byte list c" where
  "analizefile_main lf alloc f = cbind (read_version lf alloc f) (\<lambda>(cv, out). Inr out)"

definition hextochar_main :: "bool \<Rightarrow> bool \<Rightarrow> byte list option \<Rightarrow> byte list c" where
  "hextochar_main lf alloc f =
     cbind (read_version lf alloc f) (\<lambda>(cv, out).
     cbind (getCharFromHex cv (replicate 9 0) 4 8) (\<lambda>(_, fv).
     cbind (strlen fv 0) (\<lambda>_.
       Inr (out @ ascii ''fullversion='' @ str_at fv 0 @ [10] @
         ascii ''fullversion='' @ printf_d (sint (fv ! 0)) @ [45] @ printf_d (sint (fv ! 1)) @ [45] @
           printf_d (sint (fv ! 2)) @ [45] @ printf_d (sint (fv ! 3)) @ [10] @
         ascii ''fullversion='' @ [fv ! 0, 45, fv ! 1, 45, fv ! 2, 45, fv ! 3, 10]))))"

section \<open>There and back\<close>

definition digit :: "nat \<Rightarrow> byte" where
  "digit n = 48 + of_nat n"

definition hex_text :: "(nat \<times> nat) list \<Rightarrow> byte list" where
  "hex_text ps = concat (map (\<lambda>(a, b). [digit a, digit b]) ps)"

definition packed :: "(nat \<times> nat) list \<Rightarrow> byte list" where
  "packed ps = map (\<lambda>(a, b). of_nat (16 * a + b)) ps"

definition digits :: "(nat \<times> nat) list \<Rightarrow> bool" where
  "digits ps \<longleftrightarrow> (\<forall>(a, b) \<in> set ps. a < 10 \<and> b < 10)"

lemma digit_pairs:
  assumes "a < 10" and "b < 10"
  shows "hex_pair (digit a) (digit b) = Inr (of_nat (16 * a + b))"
    and "(of_nat (16 * a + b) AND 0x0F) + 48 = digit b"
    and "(of_nat (16 * a + b) AND 0xF0) + 48 = digit a \<longleftrightarrow> a = 0"
    and "digit a \<noteq> 0"
proof -
  have "\<forall>a \<in> set [0..<10]. \<forall>b \<in> set [0..<10]. hex_pair (digit a) (digit b) = Inr (of_nat (16 * a + b)) \<and>
      (of_nat (16 * a + b) AND 0x0F) + 48 = digit b \<and> ((of_nat (16 * a + b) AND 0xF0) + 48 = digit a \<longleftrightarrow> a = 0) \<and> digit a \<noteq> 0"
    by code_simp
  moreover have "a \<in> set [0..<10]" "b \<in> set [0..<10]" using assms by auto
  ultimately show "hex_pair (digit a) (digit b) = Inr (of_nat (16 * a + b))"
    "(of_nat (16 * a + b) AND 0x0F) + 48 = digit b" "(of_nat (16 * a + b) AND 0xF0) + 48 = digit a \<longleftrightarrow> a = 0" "digit a \<noteq> 0"
    by blast+
qed

lemma hex_text_simps [simp]: "hex_text [] = []" "hex_text ((a, b) # ps) = digit a # digit b # hex_text ps"
  by (simp_all add: hex_text_def)

lemma length_hex_text [simp]: "length (hex_text ps) = 2 * length ps"
  by (induction ps) auto

lemma hex_text_nth:
  "k < length ps \<Longrightarrow> hex_text ps ! (2 * k) = digit (fst (ps ! k)) \<and> hex_text ps ! (2 * k + 1) = digit (snd (ps ! k))"
proof (induction ps arbitrary: k)
  case (Cons p ps)
  then show ?case by (cases p; cases k) auto
qed simp

lemma digit_nonzero: "a < 10 \<Longrightarrow> digit a \<noteq> 0"
  using digit_pairs(4)[of a a] by simp

lemma hex_text_nonzero: "digits ps \<Longrightarrow> 0 \<notin> set (hex_text ps)"
  using digit_nonzero by (induction ps) (auto simp: digits_def)

lemma translate_loop_digits:
  assumes "digits ps" and "length ps \<le> length d"
  shows "translate_loop hex_pair True (hex_text ps @ z) (length ps) d = Inr (packed ps @ drop (length ps) d)"
proof -
  let ?v = "\<lambda>k. of_nat (16 * fst (ps ! k) + snd (ps ! k)) :: byte"
  have "fst (ps ! k) < 10" "snd (ps ! k) < 10" if "k < length ps" for k
    using bspec[OF assms(1)[unfolded digits_def] nth_mem[OF that]] by (auto simp: case_prod_unfold)
  then have "translate_loop hex_pair True (hex_text ps @ z) (length ps) d = Inr (fold (\<lambda>k d. d[k := ?v k]) [0..<0 + length ps] d)"
    unfolding translate_loop_def using assms(2) hex_text_nth[of _ ps]
    by (intro for_n_inv [where P = "\<lambda>t. length t = length d"]) (auto simp: nth_append digit_pairs(1))
  moreover have "map ?v [0..<length ps] = packed ps"
    by (intro nth_equalityI) (auto simp: packed_def split: prod.splits)
  ultimately show ?thesis using fold_update[OF assms(2), of ?v] by simp
qed

definition unpacked :: "(nat \<times> nat) list \<Rightarrow> byte list" where
  "unpacked ps = concat (map (\<lambda>(a, b). [(of_nat (16 * a + b) AND 0xF0) + 48, digit b]) ps)"

lemma from_hex_loop_eq:
  "digits ps \<Longrightarrow> length u = k \<Longrightarrow> length t = 2 * k \<Longrightarrow> 2 * length ps \<le> length d \<Longrightarrow>
   from_hex_loop (u @ packed ps @ y) (int (length ps)) k (t @ d) = Inr (t @ unpacked ps @ drop (2 * length ps) d)"
proof (induction ps arbitrary: u k t d)
  case Nil
  then show ?case by (subst from_hex_loop.simps) (simp add: unpacked_def packed_def)
next
  case (Cons p ps)
  obtain a b where p: "p = (a, b)" by (cases p)
  let ?c = "of_nat (16 * a + b) :: byte" let ?t = "t @ [(?c AND 0xF0) + 48, digit b]"
  obtain x y' d' where d: "d = x # y' # d'" using Cons.prems(4) by (cases d; cases "tl d") auto
  have ab: "a < 10" "b < 10" "digits ps" using Cons.prems(1) by (auto simp: digits_def p)
  have "from_hex_loop (u @ packed (p # ps) @ y) (int (length (p # ps))) k (t @ d) =
      from_hex_loop ((u @ [?c]) @ packed ps @ y) (int (length ps)) (Suc k) (?t @ d')"
    using Cons.prems(2,3) digit_pairs(2)[OF ab(1,2)]
    by (subst from_hex_loop.simps)
      (simp add: d p packed_def nth_append list_update_append)
  also have "\<dots> = Inr (?t @ unpacked ps @ drop (2 * length ps) d')"
    using Cons.prems ab(3) d by (intro Cons.IH) auto
  finally show ?case by (simp add: d p unpacked_def)
qed

lemma unpacked_eq: "digits ps \<Longrightarrow> length (unpacked ps) = 2 * length ps \<and> (unpacked ps = hex_text ps \<longleftrightarrow> (\<forall>(a, b) \<in> set ps. a = 0))"
proof (induction ps)
  case (Cons p ps)
  obtain a b where p: "p = (a, b)" by (cases p)
  with Cons.prems have "a < 10" "b < 10" "digits ps" by (auto simp: digits_def)
  with Cons.IH digit_pairs(3)[of a b] show ?case by (simp add: p unpacked_def)
qed (simp add: unpacked_def)

text \<open>
  translateHexToChars turns pairs of decimal digits into the bytes of which they are the
  hexadecimal form, when the left operand is evaluated first; getCharFromHex on these bytes gives
  back the text exactly when the first digit of every pair is 0, and answers -1 in any case.
\<close>

theorem hex_there_and_back:
  assumes "digits ps" and "length ps \<le> length d" and "2 * length ps \<le> length d'"
  shows "translateHexToChars True (Some (hex_text ps @ 0 # z)) (Some d) (int (2 * length ps)) (int (length ps)) =
      Inr (1, Some (packed ps @ drop (length ps) d)) \<and>
    (\<exists>t. getCharFromHex (packed ps @ y) d' (int (length ps)) (int (2 * length ps)) = Inr (-1, t @ drop (2 * length ps) d') \<and>
      length t = 2 * length ps \<and> (t = hex_text ps \<longleftrightarrow> (\<forall>(a, b) \<in> set ps. a = 0)))"
proof -
  have "strlen (hex_text ps @ 0 # z) 0 = Inr (length (hex_text ps))"
    by (rule strlen_text[OF hex_text_nonzero[OF assms(1)]])
  moreover have "from_hex_loop (packed ps @ y) (int (length ps)) 0 d' = Inr (unpacked ps @ drop (2 * length ps) d')"
    using from_hex_loop_eq[of ps "[]" 0 "[]" d' y] assms by simp
  ultimately show ?thesis
    using translate_loop_digits[OF assms(1,2), of "0 # z"] unpacked_eq[OF assms(1)]
    by (simp add: translateHexToChars_def getCharFromHex_def)
qed

theorem hex_there_and_back_witness:
  "translateHexToChars True (Some (hex_text [(1, 7), (0, 9)] @ 0 # [])) (Some [1, 2]) (int (2 * 2)) (int 2) = Inr (1, Some [23, 9])"
  using hex_there_and_back[of "[(1, 7), (0, 9)]" "[1, 2]" "[0, 0, 0, 0]" "[]" "[]"]
  by (simp add: digits_def packed_def)

section \<open>The version line\<close>

definition file_of :: "byte list list \<Rightarrow> byte list" where
  "file_of ls = concat (map (\<lambda>l. l @ [10]) ls)"

definition lines_ok :: "byte list list \<Rightarrow> bool" where
  "lines_ok ls \<longleftrightarrow> (\<forall>l \<in> set ls. 10 \<notin> set l \<and> length l + 1 < 1024)"

lemma file_of_simps [simp]: "file_of [] = []" "file_of (l # ls) = l @ 10 # file_of ls"
  by (simp_all add: file_of_def)

lemma count_lines_eq: "\<not> eof s \<Longrightarrow> count_lines s n = n + int (count_list (left s) 10)"
proof (induction "left s" arbitrary: s n)
  case Nil
  from Nil(1) show ?case
    using Nil(2) by (subst count_lines.simps) (simp add: fgetc_def count_lines.simps[of "s\<lparr>eof := True\<rparr>"] flip: Nil(1))
next
  case (Cons b r)
  let ?s = "s\<lparr>left := r\<rparr>"
  have "fgetc s = (Some b, ?s)" using Cons(2) by (simp add: fgetc_def flip: Cons(2))
  then have "count_lines s n = count_lines ?s (if b = 10 then n + 1 else n)"
    using Cons(3) by (subst count_lines.simps) simp
  then show ?case using Cons(1)[of ?s] Cons(3) by (simp flip: Cons(2))
qed

lemma count_file: "lines_ok ls \<Longrightarrow> count_list (file_of ls) 10 = length ls"
  by (induction ls) (auto simp: lines_ok_def count_list_0_iff)

lemma special_loop_line:
  "left s = file_of ls @ r \<Longrightarrow> \<not> eof s \<Longrightarrow> lines_ok ls \<Longrightarrow> k < length ls \<Longrightarrow> length str = 1024 \<Longrightarrow> 0 \<in> set str \<Longrightarrow>
   \<exists>str' out. special_loop (c + int k) c s str = Inr (str', out) \<and> length str' = 1024 \<and>
     take (length (ls ! k) + 2) str' = ls ! k @ [10, 0]"
proof (induction ls arbitrary: s c k str)
  case (Cons l ls)
  have l: "10 \<notin> set l" "length l + 1 < 1024" using Cons.prems(3) by (auto simp: lines_ok_def)
  have g: "fgets 1024 s = (Some (l @ [10]), s\<lparr>left := file_of ls @ r\<rparr>)"
    using fgets_line[OF _ l, of s "file_of ls @ r"] Cons.prems(1) by simp
  let ?str = "(l @ [10, 0]) @ drop (length l + 2) str"
  have st: "store_line str (Some (l @ [10])) = Inr ?str"
    using l(2) Cons.prems(5) by (simp add: store_line_def wrs_in)
  show ?case
  proof (cases k)
    case 0
    have "strlen ?str 0 = Inr (length (str_at ?str 0))" by (simp add: strlen_def str_at_def)
    then show ?thesis using Cons.prems l(2) g st 0
      by (subst special_loop.simps) simp
  next
    case (Suc j)
    have "special_loop (c + int k) c s str = special_loop (c + 1 + int j) (c + 1) (s\<lparr>left := file_of ls @ r\<rparr>) ?str"
      using Cons.prems(2) g st Suc by (subst special_loop.simps) (simp add: add.assoc)
    moreover have "lines_ok ls" using Cons.prems(3) by (simp add: lines_ok_def)
    ultimately show ?thesis
      using Cons.IH[of "s\<lparr>left := file_of ls @ r\<rparr>" j ?str "c + 1"] Cons.prems l(2) Suc by simp
  qed
qed simp

text \<open>
  The programs read the version from the fourth line from the end of the file: with its first 17
  characters and then the digits, the bytes in charVersion are those of the digits.
\<close>

theorem read_version_line:
  assumes "lines_ok (ls @ [u @ hex_text ps @ w, l1, l2, l3])" and "length u = 17" and "digits ps" and "length ps = 4"
  shows "\<exists>out. read_version True True (Some (file_of (ls @ [u @ hex_text ps @ w, l1, l2, l3]))) = Inr (packed ps @ replicate 252 0, out)"
proof -
  let ?l = "u @ hex_text ps @ w" let ?ls = "ls @ [?l, l1, l2, l3]"
  let ?s = "fopen_r (file_of ?ls)"
  have "count_lines ?s 0 = int (length ?ls)"
    using count_lines_eq[of ?s 0] count_file[OF assms(1)] by (simp add: fopen_r_def)
  then obtain o1 where o1: "get_file_lines (Some (file_of ?ls)) = (int (length ls) + 5, o1)"
    by (simp add: get_file_lines_def Let_def add.commute)
  obtain str o2 where str: "read_speacial_line (Some (file_of ?ls)) (int (length ls)) (replicate 1024 0) = Inr (str, o2)"
      "length str = 1024" "take (length ?l + 2) str = ?l @ [10, 0]"
    using special_loop_line[OF _ _ assms(1), of ?s "[]" "length ls" "replicate 1024 0" 0]
    by (auto simp: read_speacial_line_def fopen_r_def)
  have "str = (?l @ [10, 0]) @ drop (length ?l + 2) str" by (metis append_take_drop_id str(3))
  then obtain z where "str = u @ hex_text ps @ z" by (metis append.assoc)
  then have "strncpy_bytes (drop 17 str) 8 = hex_text ps"
    using strncpy_bytes_no_zero[OF hex_text_nonzero[OF assms(3)]] assms(2,4)
    by (simp add: strncpy_bytes_def)
  moreover have "translateHexToChars True (Some (hex_text ps @ [0])) (Some (replicate 256 0)) 8 4 =
      Inr (1, Some (packed ps @ replicate 252 0))"
  proof -
    have "strlen (hex_text ps @ [0]) 0 = Inr (length (hex_text ps))"
      by (rule strlen_text[OF hex_text_nonzero[OF assms(3)]])
    with translate_loop_digits[OF assms(3), of "replicate 256 0" "[0]"] assms(4) show ?thesis
      by (simp add: translateHexToChars_def)
  qed
  ultimately show ?thesis using o1 str(1) by (simp add: read_version_def Let_def)
qed

theorem read_version_line_witness:
  "\<exists>out. read_version True True (Some (file_of [replicate 17 58 @ hex_text [(1, 7), (0, 9), (2, 3), (4, 5)] @ [], [65], [66], [67]])) =
     Inr ([23, 9, 35, 69] @ replicate 252 0, out)"
  using read_version_line[of "[]" "replicate 17 58" "[(1, 7), (0, 9), (2, 3), (4, 5)]" "[]" "[65]" "[66]" "[67]"]
  by (simp add: lines_ok_def digits_def packed_def digit_def)

end
