(* ===== verification/Encrypt.thy ===== *)
theory Encrypt
  imports Stdio
begin

text \<open>
  The two ciphers of encrypt/: exclusive or with a repeated key (encrypt.c) and with the letter A
  (decry.c), with the program that applies the second to a file block by block.
\<close>

section \<open>A repeated key\<close>

definition memset :: "mem \<Rightarrow> byte \<Rightarrow> int \<Rightarrow> mem c" where
  "memset m v n = (if n < 0 \<or> int (length m) < n then Inl Write_oob else Inr (replicate (nat n) v @ drop (nat n) m))"

text \<open>The loop: the printed characters of the key and the buffer.\<close>

definition encrypt_loop :: "mem \<Rightarrow> mem \<Rightarrow> nat \<Rightarrow> nat \<Rightarrow> mem \<Rightarrow> (mem \<times> byte list) c" where
  "encrypt_loop data slat d_len s_len buffer =
     for_n d_len 0 (\<lambda>i (buf, out).
       if s_len = 0 then Inl Div_zero
       else cbind (rd slat (i mod s_len)) (\<lambda>k. cbind (rd data i) (\<lambda>x.
            cbind (wr buf i (x XOR k)) (\<lambda>buf. Inr (buf, out @ [k]))))) (buffer, [])"

text \<open>\<open>bLen\<close> is \<open>sizeof\<close> of the pointer: 8.\<close>

definition encrypt :: "mem option \<Rightarrow> mem option \<Rightarrow> mem option \<Rightarrow> int \<Rightarrow> (int \<times> mem option \<times> byte list) c" where
  "encrypt data slat buffer n =
     (case (data, slat, buffer) of
        (Some d, Some k, Some b) \<Rightarrow>
          cbind (strlen d 0) (\<lambda>d_len. cbind (strlen k 0) (\<lambda>s_len.
            if d_len \<le> 8 then
              cbind (memset b 0 n) (\<lambda>b.
              cbind (encrypt_loop d k d_len s_len b) (\<lambda>(b, out). Inr (1, Some b, out @ [10])))
            else Inr (0, buffer, [])))
      | _ \<Rightarrow> Inr (0, buffer, []))"

text \<open>The program; \<open>b1\<close> and \<open>b2\<close> are the two arrays before they are written.\<close>

definition encrypt_main :: "mem \<Rightarrow> mem \<Rightarrow> byte list c" where
  "encrypt_main b1 b2 =
     (let data = Some (ascii ''ABCDEFG'' @ [0]); slat = Some (ascii ''jhk'' @ [0]) in
      cbind (encrypt data slat (Some b1) 10) (\<lambda>(r1, b1, o1).
      cbind (encrypt b1 slat (Some b2) 10) (\<lambda>(r2, b2, o2).
      case (b1, b2) of
        (Some m1, Some m2) \<Rightarrow> cbind (strlen m1 0) (\<lambda>_. cbind (strlen m2 0) (\<lambda>_.
          Inr (o1 @ ascii ''result:'' @ printf_d r1 @ [10] @ ascii ''buffer1:'' @ str_at m1 0 @ [10] @
               o2 @ ascii ''result:'' @ printf_d r2 @ [10] @ ascii ''buffer2:'' @ str_at m2 0 @ [10])))
      | _ \<Rightarrow> Inl Null_deref)))"

section \<open>The letter A\<close>

definition decry :: "mem option \<Rightarrow> int \<Rightarrow> mem option c" where
  "decry data n =
     (case data of None \<Rightarrow> Inr None
      | Some d \<Rightarrow> if n < 0 then Inr data
          else cbind (for_n (nat n) 0 (\<lambda>i d. cbind (rd d i) (\<lambda>x. wr d i (x XOR 65))) d) (\<lambda>d. Inr (Some d)))"

definition BUF :: nat where "BUF = 4096"

text \<open>
  The loop over the blocks.  \<open>bad\<close>: the input ends with a read error instead of the end of the file;
  \<open>cap i\<close>: how many bytes the i-th fwrite takes.
\<close>

function decry_loop :: "bool \<Rightarrow> (nat \<Rightarrow> nat) \<Rightarrow> nat \<Rightarrow> stream \<Rightarrow> byte list \<Rightarrow> byte list c" where
  "decry_loop bad cap i s out =
     (if eof s then Inr out
      else let r = fst (fread BUF s) in
        if length r < BUF \<and> bad then Inr out
        else cbind (decry (Some (r @ replicate (BUF - length r) 0)) (int (length r))) (\<lambda>b.
          case b of None \<Rightarrow> Inl Null_deref
          | Some b \<Rightarrow> decry_loop bad cap (i + 1) (snd (fread BUF s)) (out @ take (cap i) (take (length r) b))))"
  by pat_completeness auto
termination
  by (relation "measure (\<lambda>(bad, cap, i, s, out). todo s)") (auto intro: fread_todo simp: BUF_def)

declare decry_loop.simps [simp del]

text \<open>
  The main program: the exit status and the new content of the output file.  \<open>fin\<close> is the content
  of the input file, if it can be opened; \<open>can\<close>: the output file can be created.
\<close>

definition decry_main :: "nat \<Rightarrow> byte list option \<Rightarrow> bool \<Rightarrow> bool \<Rightarrow> (nat \<Rightarrow> nat) \<Rightarrow> (int \<times> byte list option) c" where
  "decry_main argc fin can bad cap =
     (if argc < 3 then Inr (-1, None)
      else case fin of None \<Rightarrow> Inr (-1, None)
      | Some content \<Rightarrow>
          if \<not> can then Inr (-1, None)
          else cbind (decry_loop bad cap 0 (fopen_r content) []) (\<lambda>out. Inr (0, Some out)))"

section \<open>The name of the log file\<close>

text \<open>The last position of a character in the C string.\<close>

definition strrchr :: "mem \<Rightarrow> byte \<Rightarrow> nat option c" where
  "strrchr m ch = cbind (strlen m 0) (\<lambda>n.
     let ps = filter (\<lambda>i. m ! i = ch) [0..<n] in Inr (if ps = [] then None else Some (last ps)))"

definition store_str :: "mem option \<Rightarrow> byte list \<Rightarrow> mem option c" where
  "store_str buffer t = (if t = [] then Inr buffer
     else case buffer of None \<Rightarrow> Inl Null_deref | Some b \<Rightarrow> cbind (wrs b 0 t) (\<lambda>b. Inr (Some b)))"

definition getLogFileName :: "mem option \<Rightarrow> mem option \<Rightarrow> int \<Rightarrow> mem option c" where
  "getLogFileName logName buffer n =
     (case logName of None \<Rightarrow> Inl (Exit (-1))
      | Some l \<Rightarrow>
        if buffer \<noteq> None \<or> n \<le> 0 then Inl (Exit (-1))
        else
          cbind (strrchr l 47) (\<lambda>sl. let start = (case sl of None \<Rightarrow> 0 | Some p \<Rightarrow> p) in
          cbind (strrchr l 46) (\<lambda>dot.
          case dot of
            None \<Rightarrow> store_str buffer (str_at l start @ [0])
          | Some e \<Rightarrow>
              if e > start \<and> n > int (e - start) then store_str buffer (strncpy_bytes (drop start l) (e - start))
              else store_str buffer (strncpy_bytes (drop start l) (nat n)))))"

section \<open>Decryption restores\<close>

lemma xor_twice [simp]: "(x XOR k) XOR k = (x :: 'a :: len word)"
  by (simp add: xor.assoc)

lemma for_n_map:
  "n \<le> length d \<Longrightarrow> for_n n (length u) (\<lambda>i d. cbind (rd d i) (\<lambda>x. wr d i (h x))) (u @ d) =
     Inr (u @ map h (take n d) @ drop n d)"
proof (induction n arbitrary: u d)
  case (Suc n)
  then obtain x d' where d: "d = x # d'" by (cases d) auto
  have "for_n n (length (u @ [h x])) (\<lambda>i d. cbind (rd d i) (\<lambda>x. wr d i (h x))) ((u @ [h x]) @ d') =
      Inr ((u @ [h x]) @ map h (take n d') @ drop n d')"
    using Suc.prems d by (intro Suc.IH) simp
  then show ?case using d by (simp add: list_update_append)
qed simp

lemma decry_eq: "n \<le> length d \<Longrightarrow> decry (Some d) (int n) = Inr (Some (map (\<lambda>x. x XOR 65) (take n d) @ drop n d))"
  using for_n_map[of n d "[]" "\<lambda>x. x XOR 65"] by (simp add: decry_def)

lemma decry_block: "decry (Some (r @ z)) (int (length r)) = Inr (Some (map (\<lambda>x. x XOR 65) r @ z))"
  using decry_eq[of "length r" "r @ z"] by simp

lemma decry_loop_eq:
  assumes "\<And>i. BUF \<le> cap i"
  shows "decry_loop False cap i s out = Inr (out @ (if eof s then [] else map (\<lambda>x. x XOR 65) (left s)))"
proof (induction "todo s" arbitrary: i s out rule: less_induct)
  case less
  show ?case
  proof (cases "eof s")
    case True
    then show ?thesis by (subst decry_loop.simps) simp
  next
    case False
    let ?s = "snd (fread BUF s)" and ?r = "take BUF (left s)" let ?m = "map (\<lambda>x. x XOR 65 :: byte)"
    have r: "fst (fread BUF s) = ?r" by (simp add: fread_def)
    have len: "length ?r \<le> BUF" by simp
    have d: "decry (Some (?r @ replicate (BUF - length ?r) 0)) (int (length ?r)) = Inr (Some (?m ?r @ replicate (BUF - length ?r) 0))"
      by (rule decry_block)
    have "take (cap i) (?m ?r) = ?m ?r" using assms[of i] len by simp
    then have "decry_loop False cap i s out = decry_loop False cap (i + 1) ?s (out @ ?m ?r)"
      using False d by (subst decry_loop.simps) (simp add: r Let_def del: length_take)
    also have "\<dots> = Inr ((out @ ?m ?r) @ (if eof ?s then [] else ?m (left ?s)))"
      using fread_todo[OF False, of BUF] by (intro less.hyps) (simp add: BUF_def)
    also have "(out @ ?m ?r) @ (if eof ?s then [] else ?m (left ?s)) = out @ ?m (left s)"
      by (simp add: fread_def False flip: map_append)
    finally show ?thesis using False by simp
  qed
qed

text \<open>
  decry copies a file of any length with every byte exchanged, and applied to the result gives the
  file back, when reading meets no error and every write takes the whole block.
\<close>

theorem decry_twice_restores:
  assumes "3 \<le> argc" and "\<And>i. BUF \<le> cap i"
  shows "\<exists>c. decry_main argc (Some content) True False cap = Inr (0, Some c) \<and> length c = length content \<and>
    decry_main argc (Some c) True False cap = Inr (0, Some content)"
proof -
  have "decry_main argc (Some x) True False cap = Inr (0, Some (map (\<lambda>b. b XOR 65) x))" for x
    using assms by (simp add: decry_main_def decry_loop_eq[OF assms(2)] fopen_r_def)
  then show ?thesis by (auto simp: comp_def)
qed

theorem decry_twice_restores_witness:
  "\<exists>c. decry_main 3 (Some [1, 2]) True False (\<lambda>_. 4096) = Inr (0, Some c) \<and> length c = 2 \<and>
    decry_main 3 (Some c) True False (\<lambda>_. 4096) = Inr (0, Some [1, 2])"
  using decry_twice_restores[of 3 "\<lambda>_. 4096" "[1, 2]"] by (simp add: BUF_def numeral_2_eq_2)

section \<open>Encryption twice\<close>

definition key_at :: "byte list \<Rightarrow> nat \<Rightarrow> byte" where
  "key_at k i = k ! (i mod length k)"

definition ciphered :: "byte list \<Rightarrow> byte list \<Rightarrow> byte list" where
  "ciphered k s = map (\<lambda>i. s ! i XOR key_at k i) [0..<length s]"

lemma fold_pair_update:
  "n \<le> length b \<Longrightarrow> fold (\<lambda>i (b, out). (b[i := v i], out @ [w i])) [0..<n] (b, out) =
     (map v [0..<n] @ drop n b, out @ map w [0..<n])"
proof (induction n)
  case (Suc n)
  then have "drop n b = b ! n # drop (Suc n) b" by (simp add: Cons_nth_drop_Suc)
  with Suc show ?case by (simp add: list_update_append)
qed simp

lemma encrypt_loop_eq:
  assumes "k \<noteq> []" and "length s \<le> length b"
  shows "encrypt_loop (s @ z) (k @ y) (length s) (length k) b =
    Inr (ciphered k s @ drop (length s) b, map (key_at k) [0..<length s])"
proof -
  have rdk: "rd (k @ y) (i mod length k) = Inr (key_at k i)" for i
    using assms(1) by (simp add: rd_def nth_append key_at_def trans_less_add1)
  let ?g = "\<lambda>i (b, out). (b[i := s ! i XOR key_at k i], out @ [key_at k i])"
  have "encrypt_loop (s @ z) (k @ y) (length s) (length k) b = Inr (fold ?g [0..<0 + length s] (b, []))"
    unfolding encrypt_loop_def
    by (rule for_n_inv [where P = "\<lambda>(t, out). length t = length b"])
      (use assms in \<open>auto simp: nth_append rdk\<close>)
  then show ?thesis
    using fold_pair_update[OF assms(2), of "\<lambda>i. s ! i XOR key_at k i" "key_at k" "[]"] by (simp add: ciphered_def)
qed

lemma encrypt_eq:
  assumes "0 \<notin> set s" and "length s \<le> 8" and "0 \<notin> set k" and "k \<noteq> []" and "int (length s) < n" and "n \<le> int (length b)"
  shows "encrypt (Some (s @ 0 # z)) (Some (k @ 0 # y)) (Some b) n =
    Inr (1, Some (ciphered k s @ 0 # replicate (nat n - length s - 1) 0 @ drop (nat n) b), map (key_at k) [0..<length s] @ [10])"
proof -
  let ?b = "replicate (nat n) 0 @ drop (nat n) b"
  have "memset b 0 n = Inr ?b" using assms(5,6) by (simp add: memset_def)
  moreover have "drop (length s) ?b = 0 # replicate (nat n - length s - 1) 0 @ drop (nat n) b"
    using assms(5) by (cases "nat n - length s") auto
  moreover have "length s \<le> length ?b" using assms(5,6) by auto
  from encrypt_loop_eq[OF assms(4) this, of "0 # z" "0 # y"]
  have "encrypt_loop (s @ 0 # z) (k @ 0 # y) (length s) (length k) ?b = Inr (ciphered k s @ drop (length s) ?b, map (key_at k) [0..<length s])" .
  ultimately show ?thesis
    using assms(1-3) by (simp add: encrypt_def c_str_strlen[OF c_strI])
qed

lemma ciphered_prefix: "n \<le> length s \<Longrightarrow> ciphered k (take n (ciphered k s)) = take n s"
  by (intro nth_equalityI) (simp_all add: ciphered_def)

lemma xor_zero_iff: "a XOR b = 0 \<longleftrightarrow> a = (b :: 'a :: len word)"
  by (metis xor_twice xor.left_neutral xor_self_eq)

lemma ciphered_zero: "i < length s \<Longrightarrow> ciphered k s ! i = 0 \<longleftrightarrow> s ! i = key_at k i"
  by (simp add: ciphered_def xor_zero_iff)

text \<open>
  Encrypting twice with the same key gives the text back up to the first character that is equal to
  the character of the key at its place, since the encrypted text ends there: all of it exactly when
  there is no such character.
\<close>

theorem encrypt_twice_restores:
  assumes "0 \<notin> set s" and "length s \<le> 8" and "0 \<notin> set k" and "k \<noteq> []" and "int (length s) < n"
    and "n \<le> int (length b1)" and "n \<le> int (length b2)"
  shows "\<exists>m1 m2 o1 o2. encrypt (Some (s @ 0 # z)) (Some (k @ 0 # y)) (Some b1) n = Inr (1, Some m1, o1) \<and>
    encrypt (Some m1) (Some (k @ 0 # y)) (Some b2) n = Inr (1, Some m2, o2) \<and>
    str_at m2 0 = take (length (takeWhile (\<lambda>b. b \<noteq> 0) (ciphered k s))) s \<and>
    (str_at m2 0 = s \<longleftrightarrow> (\<forall>i < length s. s ! i \<noteq> key_at k i))"
proof -
  let ?c = "ciphered k s" let ?w = "takeWhile (\<lambda>b. b \<noteq> 0) ?c"
  define r where "r = replicate (nat n - length s - 1) (0 :: byte) @ drop (nat n) b1"
  have one: "encrypt (Some (s @ 0 # z)) (Some (k @ 0 # y)) (Some b1) n = Inr (1, Some (?c @ 0 # r), map (key_at k) [0..<length s] @ [10])"
    using encrypt_eq[OF assms(1-6)] by (simp add: r_def)
  obtain t where t: "?c @ 0 # r = ?w @ 0 # t"
  proof (cases "dropWhile (\<lambda>b. b \<noteq> 0) ?c")
    case Nil
    then have "?c = ?w" by (metis append_Nil2 takeWhile_dropWhile_id)
    then show thesis using that by metis
  next
    case (Cons x d)
    then have "x = 0" by (metis (full_types) dropWhile_eq_Cons_conv)
    have "?c = ?w @ x # d" by (metis Cons takeWhile_dropWhile_id)
    then have "?c @ 0 # r = ?w @ 0 # (d @ 0 # r)" using \<open>x = 0\<close> by (metis append.assoc append_Cons)
    then show thesis by (rule that)
  qed
  have w: "0 \<notin> set ?w" by (auto dest: set_takeWhileD)
  have len: "length ?c = length s" by (simp add: ciphered_def)
  have wl: "length ?w \<le> length s" using length_takeWhile_le[of _ ?c] len by metis
  have w8: "length ?w \<le> 8" "int (length ?w) < n" using wl assms(2,5) by linarith+
  have "?w = take (length ?w) ?c" by (metis takeWhile_eq_take)
  then have cw: "ciphered k ?w = take (length ?w) s" using ciphered_prefix[OF wl] by metis
  have two: "encrypt (Some (?c @ 0 # r)) (Some (k @ 0 # y)) (Some b2) n =
      Inr (1, Some (take (length ?w) s @ 0 # replicate (nat n - length ?w - 1) 0 @ drop (nat n) b2), map (key_at k) [0..<length ?w] @ [10])"
    unfolding t using encrypt_eq[OF w w8(1) assms(3,4) w8(2) assms(7), of t y] cw by simp
  have "0 \<notin> set (take (length ?w) s)" using assms(1) by (auto dest: in_set_takeD)
  then have str: "str_at (take (length ?w) s @ 0 # x) 0 = take (length ?w) s" for x
    unfolding str_at_def drop_0 by (rule takeWhile_no_zero)
  have "take (length ?w) s = s \<longleftrightarrow> length s \<le> length ?w" by (metis length_take min_def take_all_iff)
  also have "\<dots> \<longleftrightarrow> ?w = ?c" using wl len by (metis le_antisym takeWhile_eq_take take_all order_refl)
  also have "\<dots> \<longleftrightarrow> (\<forall>i < length s. s ! i \<noteq> key_at k i)"
    using ciphered_zero[of _ s k] len by (auto simp: takeWhile_eq_all_conv in_set_conv_nth)
  finally have iff: "take (length ?w) s = s \<longleftrightarrow> (\<forall>i < length s. s ! i \<noteq> key_at k i)" .
  show ?thesis
    by (intro exI conjI, rule one, rule two, rule str, simp only: str iff)
qed

theorem encrypt_twice_restores_witness:
  "\<exists>m1 m2 o1 o2. encrypt (Some (ascii ''ABCDEFG'' @ 0 # [])) (Some (ascii ''jhk'' @ 0 # [])) (Some (replicate 10 1)) 10 = Inr (1, Some m1, o1) \<and>
    encrypt (Some m1) (Some (ascii ''jhk'' @ 0 # [])) (Some (replicate 10 2)) 10 = Inr (1, Some m2, o2) \<and>
    str_at m2 0 = ascii ''ABCDEFG''"
proof -
  let ?s = "ascii ''ABCDEFG''" and ?k = "ascii ''jhk''"
  have "0 \<notin> set ?s" "length ?s \<le> 8" "0 \<notin> set ?k" "?k \<noteq> []" "int (length ?s) < 10" "\<forall>i < length ?s. ?s ! i \<noteq> key_at ?k i"
    by code_simp+
  then show ?thesis using encrypt_twice_restores[of ?s ?k 10 "replicate 10 1" "replicate 10 2" "[]" "[]"] by fastforce
qed

text \<open>getLogFileName never returns: with a buffer it exits, without one it writes through a null pointer.\<close>

lemma store_str_null: "t \<noteq> [] \<Longrightarrow> store_str None t = Inl Null_deref"
  by (simp add: store_str_def)

lemma getLogFileName_never: "getLogFileName logName buffer n \<noteq> Inr x"
proof -
  have "strncpy_bytes t m \<noteq> []" if "0 < m" for t m
    using that by (simp add: strncpy_bytes_def Let_def)
  then show ?thesis
    by (auto simp: getLogFileName_def Let_def store_str_null elim!: cbindE split: option.splits if_splits)
qed

end
