(* ===== verification/Codec_Tests.thy ===== *)
theory Codec_Tests
  imports Url
begin

text \<open>
  The test program at the end of utf8ToUnicodeToNCR.c with what it prints, and the conversions
  between UTF-8 and GBK, which leave the work to iconv.  What a call of iconv does is a parameter: its
  result and the bytes it writes, or \<open>None\<close> when \<open>iconv_open\<close> fails.
\<close>

section \<open>Formats\<close>

definition hex_digit :: "bool \<Rightarrow> nat \<Rightarrow> byte" where
  "hex_digit up n = (if n < 10 then 48 + of_nat n else (if up then 55 else 87) + of_nat n)"

fun hex_num :: "bool \<Rightarrow> nat \<Rightarrow> byte list" where
  "hex_num up n = (if n < 16 then [hex_digit up n] else hex_num up (n div 16) @ [hex_digit up (n mod 16)])"

declare hex_num.simps [simp del]

text \<open>Padding on the left to a width of two: \<open>%2X\<close>, \<open>%02X\<close>, \<open>%02x\<close>.\<close>

definition pad2 :: "byte \<Rightarrow> byte list \<Rightarrow> byte list" where
  "pad2 p t = replicate (2 - length t) p @ t"

definition printfHex :: "mem option \<Rightarrow> int \<Rightarrow> byte list c" where
  "printfHex str n =
     (case str of None \<Rightarrow> Inr []
      | Some m \<Rightarrow>
          if n < 0 then Inl Read_oob
          else cbind (for_n (nat n) 0 (\<lambda>i out. cbind (rd m i) (\<lambda>b. Inr (out @ pad2 48 (hex_num True (unat b)) @ [32]))) [])
            (\<lambda>out. Inr (out @ [10])))"

text \<open>A conversion \<open>%s\<close>.\<close>

definition put_str :: "mem \<Rightarrow> byte list c" where
  "put_str m = cbind (strlen m 0) (\<lambda>_. Inr (str_at m 0))"

section \<open>UTF-8 and GBK\<close>

text \<open>Both functions are the same but for the names of the character sets.\<close>

definition iconv_copy :: "(byte list \<Rightarrow> nat \<Rightarrow> (int \<times> byte list) option) \<Rightarrow> mem option \<Rightarrow> mem option \<Rightarrow> int \<Rightarrow> (int \<times> mem option) c" where
  "iconv_copy conv src dst n =
     (case (src, dst) of
        (Some s, Some d) \<Rightarrow>
          if n > 0 then
            cbind (strlen s 0) (\<lambda>k.
              case conv (str_at s 0 @ [0]) (nat n) of
                None \<Rightarrow> Inr (-1, Some d)
              | Some (ret, out) \<Rightarrow> cbind (wrs d 0 out) (\<lambda>d. Inr (ret, Some d)))
          else Inr (-1, dst)
      | _ \<Rightarrow> Inr (-1, dst))"

definition utf8_to_gbk :: "(byte list \<Rightarrow> nat \<Rightarrow> (int \<times> byte list) option) \<Rightarrow> mem option \<Rightarrow> mem option \<Rightarrow> int \<Rightarrow> (int \<times> mem option) c" where
  "utf8_to_gbk to_gbk src dst n = iconv_copy to_gbk src dst n"

definition gbk_to_utf8 :: "(byte list \<Rightarrow> nat \<Rightarrow> (int \<times> byte list) option) \<Rightarrow> mem option \<Rightarrow> mem option \<Rightarrow> int \<Rightarrow> (int \<times> mem option) c" where
  "gbk_to_utf8 to_utf8 src dst n = iconv_copy to_utf8 src dst n"

section \<open>The tests\<close>

definition of_bool_int :: "bool \<Rightarrow> int" where
  "of_bool_int b = (if b then 1 else 0)"

definition code_type_int :: "code_type \<Rightarrow> int" where
  "code_type_int t = (case t of CODE_UNKWON \<Rightarrow> 0 | CODE_UTF8 \<Rightarrow> 1 | CODE_GBK \<Rightarrow> 2 | CODE_UNICODE \<Rightarrow> 3 | CODE_NCR \<Rightarrow> 4)"

definition c_bytes :: "byte list \<Rightarrow> mem" where
  "c_bytes t = t @ [0]"

definition Test_ascii_hex_to_char :: "byte list" where
  "Test_ascii_hex_to_char =
     ascii ''=== Test _ascii_hex_to_char === '' @ [10] @
     concat (map (\<lambda>ch. ascii ''Test '' @ [ch] @ ascii ''['' @ printf_d (sint ch) @ ascii ''] -> '' @
       pad2 32 (hex_num True (unat (ascii_hex_to_char ch))) @ ascii ''['' @ printf_d (uint (ascii_hex_to_char ch)) @ ascii '']'' @ [10])
       [70, 56]) @ [10]"

definition Test_is_utf8_str :: "mem \<Rightarrow> byte list c option" where
  "Test_is_utf8_str str =
     obind (is_utf8_str (Some str)) (\<lambda>r. Some (cbind (put_str str) (\<lambda>t.
       Inr (ascii ''=== Test is_utf8_str=== '' @ [10] @ ascii ''Test utf str:'' @ t @ ascii '', CodeType:'' @ printf_d (of_bool_int r) @ [10, 10]))))"

definition Test_is_gbk_str :: "mem \<Rightarrow> byte list c option" where
  "Test_is_gbk_str str =
     obind (is_gbk_str (Some str)) (\<lambda>r. Some (cbind (put_str str) (\<lambda>t.
       Inr (ascii ''=== Test is_gbk_str=== '' @ [10] @ ascii ''Test gbk str:'' @ t @ ascii '', CodeType:'' @ printf_d (of_bool_int r) @ [10, 10]))))"

definition Test_is_ncr_str :: "mem \<Rightarrow> byte list c" where
  "Test_is_ncr_str str =
     cbind (is_ncr_str (Some str)) (\<lambda>r. cbind (put_str str) (\<lambda>t.
       Inr (ascii ''=== Test is_ncr_str=== '' @ [10] @ ascii ''Test ncr str:'' @ t @ ascii '', CodeType:'' @ printf_d (of_bool_int r) @ [10, 10])))"

definition Test_analize_ncr_character :: "mem \<Rightarrow> byte list c" where
  "Test_analize_ncr_character str =
     cbind (analize_ncr_character str 0) (\<lambda>(u, _). cbind (put_str str) (\<lambda>t.
       Inr (ascii ''=== Test _analize_ncr_character=== '' @ [10] @ ascii ''Test ncr word:'' @ t @ ascii '', Unicode:'' @ printf_d u @ [10, 10])))"

definition Test_get_str_code_type :: "mem \<Rightarrow> byte list c option" where
  "Test_get_str_code_type str =
     obind (get_str_code_type (Some str)) (\<lambda>r. Some (cbind (put_str str) (\<lambda>t.
       Inr (ascii ''=== Test get_str_code_type=== '' @ [10] @ ascii ''Test str:'' @ t @ ascii '', CodeType:'' @ printf_d (code_type_int r) @ [10, 10]))))"

text \<open>A buffer of 128 bytes, cleared; a function that returns without it is a null pointer dereferenced.\<close>

definition buf128 :: "mem option" where
  "buf128 = Some (replicate 128 0)"

definition deref :: "mem option \<Rightarrow> mem c" where
  "deref b = (case b of None \<Rightarrow> Inl Null_deref | Some m \<Rightarrow> Inr m)"

definition Test_url_component_to_utf8 :: "byte list c" where
  "Test_url_component_to_utf8 =
     (let urlData = ascii ''%E5%BC%801%E5%BC%80'' in
      cbind (url_component_to_utf8 (Some (c_bytes urlData)) buf128 128) (\<lambda>(_, b).
      cbind (deref b) (\<lambda>m. cbind (put_str m) (\<lambda>t.
        Inr (ascii ''=== Test url_component_to_utf8=== '' @ [10] @ ascii ''Url component:'' @ urlData @ ascii '' utf8:'' @ t @ [10, 10])))))"

definition Test_ncr_to_utf8 :: "byte list c" where
  "Test_ncr_to_utf8 =
     (let ncrStr = ascii ''&#24320;'' in
      cbind (ncr_to_utf8 (c_bytes ncrStr) 0 (replicate 6 0)) (\<lambda>(nBytes, m). cbind (put_str m) (\<lambda>t.
        Inr (ascii ''=== Test _ncr_to_utf8 === '' @ [10] @ ascii ''Test str:'' @ ncrStr @ ascii '' utf:'' @ t @
          ascii '' nBytes:'' @ printf_d nBytes @ [10, 10]))))"

definition Test_url_ncr_to_utf8 :: "byte list c" where
  "Test_url_ncr_to_utf8 =
     (let ncrStr = ascii ''&#24320;&#21457;&#20154;&#21592;'' in
      cbind (url_ncr_to_utf8 (Some (c_bytes ncrStr)) buf128 128) (\<lambda>(utfLen, b).
      cbind (deref b) (\<lambda>m. cbind (put_str m) (\<lambda>t.
        Inr (ascii ''=== Test url_ncr_to_utf8 === '' @ [10] @ ascii ''Test ncrStr:'' @ ncrStr @ ascii '' utf8Str:'' @ t @
          ascii '' utfLen: '' @ printf_d utfLen @ [10, 10])))))"

text \<open>The bytes of 0x0F080001 in memory, least significant first.\<close>

definition Test_char_hex_to_ascii :: "byte list c" where
  "Test_char_hex_to_ascii =
     cbind (for_n 4 0 (\<lambda>i out. cbind (rd [0x01, 0x00, 0x08, 0x0F] i) (\<lambda>ch.
         case char_hex_to_ascii ch of None \<Rightarrow> Inl Uninit
         | Some a \<Rightarrow> Inr (out @ ascii ''Test '' @ pad2 32 (hex_num True (unat ch)) @ ascii ''['' @ printf_d (uint ch) @ ascii ''] -> '' @
             [a] @ ascii ''['' @ printf_d (uint a) @ ascii '']'' @ [10])))
         (ascii ''=== Test _char_hex_to_ascii === '' @ [10] @ ascii ''Test input '' @ hex_num False 0x0F080001 @ [10]))
       (\<lambda>out. Inr (out @ [10]))"

definition Test_utf8_to_ncr :: "byte list c" where
  "Test_utf8_to_ncr =
     (let utf8Str = [0xE5, 0xBC, 0x80] in
      cbind (utf8_to_ncr (c_bytes utf8Str) 0 (replicate 128 0) 128) (\<lambda>(ncrLen, m). cbind (put_str m) (\<lambda>t.
        Inr (ascii ''=== Test _utf8_to_ncr === '' @ [10] @ ascii ''Test utf8Str:'' @ utf8Str @ ascii '' ncrStr:'' @ t @
          ascii '' ncrLen: '' @ printf_d ncrLen @ [10, 10]))))"

definition kaifarenyuan :: "byte list" where
  "kaifarenyuan = [0xE5, 0xBC, 0x80, 0xE5, 0x8F, 0x91, 0xE4, 0xBA, 0xBA, 0xE5, 0x91, 0x98]"

definition Test_url_utf8_to_ncr :: "byte list c" where
  "Test_url_utf8_to_ncr =
     cbind (url_utf8_to_ncr (Some (c_bytes kaifarenyuan)) buf128 128) (\<lambda>(ncrLen, b).
     cbind (deref b) (\<lambda>m. cbind (put_str m) (\<lambda>t.
       Inr (ascii ''=== Test url_utf8_to_ncr === '' @ [10] @ ascii ''Test utf8Str:'' @ kaifarenyuan @ ascii '' ncrStr:'' @ t @
         ascii '' ncrLen: '' @ printf_d ncrLen @ [10, 10]))))"

definition Test_hex_char_split :: "byte list" where
  "Test_hex_char_split =
     (let ch = 0xE7; (chH, chL) = hex_char_split ch; h = \<lambda>b. pad2 48 (hex_num False (unat b)) in
      ascii ''=== Test hex_char_split=== '' @ [10] @ ascii ''Test Ch:'' @ h ch @ ascii '' chH:'' @ h chH @ ascii '' chL:'' @ h chL @ [10, 10])"

definition Test_utf8_to_url_component :: "byte list c option" where
  "Test_utf8_to_url_component =
     obind (utf8_to_url_component (Some (c_bytes kaifarenyuan)) buf128 128) (\<lambda>(n, b). Some (
     cbind (deref b) (\<lambda>m. cbind (put_str m) (\<lambda>t.
       Inr (ascii ''=== Test utf8_to_url_component=== '' @ [10] @ ascii ''Test utf8Str:'' @ kaifarenyuan @ ascii '' urlComponet:'' @ t @
         ascii '' urlComponetLen:'' @ printf_d n @ [10, 10])))))"

definition Test_utf8_to_unicode :: "byte list c" where
  "Test_utf8_to_unicode =
     cbind (utf8_to_unicode (Some (c_bytes kaifarenyuan)) buf128 128) (\<lambda>(n, b).
     cbind (deref b) (\<lambda>m. cbind (put_str m) (\<lambda>t. cbind (printfHex b n) (\<lambda>h.
       Inr (ascii ''=== Test utf8_to_unicode=== '' @ [10] @ ascii ''Test utf8Str:'' @ kaifarenyuan @ ascii '' urlComponet:'' @ t @
         ascii '' urlComponetLen:'' @ printf_d n @ [10] @ h @ [10])))))"

definition Test_unicode_to_utf8 :: "byte list c" where
  "Test_unicode_to_utf8 =
     cbind (utf8_to_unicode (Some (c_bytes kaifarenyuan)) buf128 128) (\<lambda>(n, u).
     cbind (printfHex u n) (\<lambda>h.
     cbind (unicode_to_utf8 u (word_of_int n) buf128 128) (\<lambda>(k, b).
     cbind (deref b) (\<lambda>m. cbind (put_str m) (\<lambda>t.
       Inr (ascii ''=== Test unicode_to_utf8=== '' @ [10] @ h @ ascii ''Test utf8Buff:'' @ t @ ascii '' utfLen:'' @ printf_d k @ [10, 10]))))))"

definition gbk_sample :: "byte list" where
  "gbk_sample = [0xbf, 0xaa, 0xb7, 0xa2, 0xc8, 0xcb, 0xd4, 0xb1]"

definition Test_gbk_to_utf8 :: "(byte list \<Rightarrow> nat \<Rightarrow> (int \<times> byte list) option) \<Rightarrow> byte list c" where
  "Test_gbk_to_utf8 to_utf8 =
     cbind (printfHex (Some (c_bytes gbk_sample)) (int (length gbk_sample))) (\<lambda>h.
     cbind (gbk_to_utf8 to_utf8 (Some (c_bytes gbk_sample)) buf128 128) (\<lambda>(_, b).
     cbind (deref b) (\<lambda>m. cbind (put_str m) (\<lambda>t. cbind (printfHex b 12) (\<lambda>h2.
       Inr (ascii ''=== Test gbk_to_utf8=== '' @ [10] @ ascii ''Test gbk:'' @ gbk_sample @ [10] @ h @ ascii ''Test utf8:'' @ t @ [10] @ h2 @ [10]))))))"

text \<open>\<open>gbk\<close> is cleared up to its string length before anything is stored in it; \<open>gbk0\<close> is what it held.\<close>

definition Test_utf_to_gbk :: "(byte list \<Rightarrow> nat \<Rightarrow> (int \<times> byte list) option) \<Rightarrow> (byte list \<Rightarrow> nat \<Rightarrow> (int \<times> byte list) option) \<Rightarrow> mem \<Rightarrow> byte list c" where
  "Test_utf_to_gbk to_utf8 to_gbk gbk0 =
     cbind (strlen gbk0 0) (\<lambda>k.
     cbind (printfHex (Some (c_bytes gbk_sample)) (int (length gbk_sample))) (\<lambda>h.
     cbind (gbk_to_utf8 to_utf8 (Some (c_bytes gbk_sample)) buf128 128) (\<lambda>(_, u).
     cbind (deref u) (\<lambda>m. cbind (put_str m) (\<lambda>t. cbind (printfHex u 12) (\<lambda>h2.
     cbind (utf8_to_gbk to_gbk u (Some (replicate k 0 @ drop k gbk0)) 128) (\<lambda>(_, g).
     cbind (printfHex g 8) (\<lambda>h3.
       Inr (ascii ''=== Test utf8_to_gbk=== '' @ [10] @ h @ ascii ''Test: utf8:'' @ t @ [10] @ h2 @ ascii ''Test gbk:'' @ gbk_sample @ [10] @ h3 @ [10])))))))))"

text \<open>The main program.\<close>

definition codec_main :: "(byte list \<Rightarrow> nat \<Rightarrow> (int \<times> byte list) option) \<Rightarrow> (byte list \<Rightarrow> nat \<Rightarrow> (int \<times> byte list) option) \<Rightarrow> mem \<Rightarrow> mem option \<Rightarrow> byte list c option" where
  "codec_main to_utf8 to_gbk gbk0 arg =
     obind (case arg of None \<Rightarrow> Some (Inr (ascii ''Argv is null'' @ [10]))
       | Some a \<Rightarrow>
          obind (Some (cbind (strlen a 0) (\<lambda>n. printfHex (Some a) (int_of_size n)))) (\<lambda>o1. obind (Test_is_utf8_str a) (\<lambda>o2.
          obind (Test_is_gbk_str a) (\<lambda>o3. obind (Test_get_str_code_type a) (\<lambda>o4. Some (Inr (o1 @ o2 @ o3 @ o4))))))) (\<lambda>p0.
     obind (Some (Test_is_ncr_str (c_bytes (ascii ''&#2147483647;&#5655;'')))) (\<lambda>p1.
     obind (Some (Test_analize_ncr_character (c_bytes (ascii ''&#2147483647;'')))) (\<lambda>p2.
     obind (Some Test_char_hex_to_ascii) (\<lambda>p3.
     obind (Some Test_url_component_to_utf8) (\<lambda>p4.
     obind Test_utf8_to_url_component (\<lambda>p5.
     obind (Some Test_ncr_to_utf8) (\<lambda>p6.
     obind (Some Test_utf8_to_ncr) (\<lambda>p7.
     obind (Some Test_url_utf8_to_ncr) (\<lambda>p8.
     obind (Some Test_url_ncr_to_utf8) (\<lambda>p9.
     obind (Some Test_utf8_to_unicode) (\<lambda>p10.
     obind (Some Test_unicode_to_utf8) (\<lambda>p11.
     obind (Some (Test_gbk_to_utf8 to_utf8)) (\<lambda>p12.
     obind (Some (Test_utf_to_gbk to_utf8 to_gbk gbk0)) (\<lambda>p13.
       Some (Inr (p0 @ p1 @ p2 @ Test_ascii_hex_to_char @ p3 @ p4 @ p5 @ p6 @ p7 @ p8 @ p9 @ Test_hex_char_split @ p10 @ p11 @ p12 @ p13))))))))))))))))"

section \<open>What the tests print\<close>

text \<open>iconv writes no more bytes than it is given room for; then the conversions stay in the buffer.\<close>

lemma iconv_copy_safe:
  assumes "\<And>s n. case conv s n of None \<Rightarrow> True | Some (ret, out) \<Rightarrow> length out \<le> n"
    and "0 \<in> set s" and "nat n \<le> length d"
  shows "\<exists>ret d'. iconv_copy conv (Some s) (Some d) n = Inr (ret, Some d') \<and> length d' = length d"
proof (cases "n > 0")
  case True
  show ?thesis
  proof (cases "conv (str_at s 0 @ [0]) (nat n)")
    case (Some p)
    obtain ret out where "p = (ret, out)" by (cases p)
    with Some True assms(1)[where s = "str_at s 0 @ [0]" and n = "nat n"] assms(2,3) show ?thesis
      by (simp add: iconv_copy_def strlen_def wrs_in)
  qed (use True assms(2) in \<open>simp add: iconv_copy_def strlen_def\<close>)
qed (simp add: iconv_copy_def)

lemma test_outputs:
  "Test_url_component_to_utf8 = Inr (ascii ''=== Test url_component_to_utf8=== '' @ [10] @
     ascii ''Url component:%E5%BC%801%E5%BC%80 utf8:'' @ [0xE5, 0xBC, 0x80, 49, 0xE5, 0xBC, 0x80, 10, 10])"
  by code_simp

end
