(* ===== verification/File_Tools.thy ===== *)
theory File_Tools
  imports Stdio
begin

text \<open>
  The file tools: the size of a directory tree (file/dirsize.c), copying (file/copy.c) and the
  helpers of file/fileApi.c.  What the file system and the calls return is input.
\<close>

section \<open>Directory sizes\<close>

text \<open>
  What a path leads to: nothing that stat finds, a file with its size, or a directory with its
  size, whether it can be opened, and its entries in the order of readdir.  Links that lead back
  into the tree are not represented, since the recursion would not end.
\<close>

datatype fsnode = Missing | Plain int | Dir int bool "(byte list \<times> fsnode) list"

definition MAX_PATH_LEN :: nat where "MAX_PATH_LEN = 8024"

definition getFileSize :: "fsnode option \<Rightarrow> int" where
  "getFileSize f = (case f of Some (Plain n) \<Rightarrow> n | Some (Dir n _ _) \<Rightarrow> n | _ \<Rightarrow> -1)"

definition isDirFile :: "fsnode option \<Rightarrow> int" where
  "isDirFile f = (case f of Some (Plain n) \<Rightarrow> 0 | Some (Dir n _ _) \<Rightarrow> 1 | _ \<Rightarrow> -1)"

text \<open>A sum of an int and a long is a long; assigning it to an int keeps the low 32 bits.\<close>

definition add_long :: "int \<Rightarrow> int \<Rightarrow> int c" where
  "add_long x y = (if - (2 ^ 63) \<le> x + y \<and> x + y < 2 ^ 63 then Inr (int_of_long (x + y)) else Inl Signed_overflow)"

definition dot :: "byte list" where "dot = [46]"
definition dotdot :: "byte list" where "dotdot = [46, 46]"

fun getDirSize :: "byte list \<Rightarrow> fsnode \<Rightarrow> int c"
  and dir_loop :: "byte list \<Rightarrow> (byte list \<times> fsnode) list \<Rightarrow> int \<Rightarrow> int c" where
  "getDirSize path (Dir sz True ents) = dir_loop path ents 0"
| "getDirSize path (Dir sz False ents) = Inr (-1)"
| "getDirSize path (Plain n) = Inr (-1)"
| "getDirSize path Missing = Inr (-1)"
| "dir_loop path [] tot = Inr tot"
| "dir_loop path ((name, f) # ents) tot =
     (if name = dot then cbind (chk (tot + 4095)) (dir_loop path ents)
      else if name = dotdot then dir_loop path ents tot
      else if MAX_PATH_LEN < length path + 1 + length name + 1 then Inl Write_oob
      else if isDirFile (Some f) = 1 then
        cbind (getDirSize (path @ 47 # name) f) (\<lambda>k. cbind (add_long tot k) (dir_loop path ents))
      else cbind (add_long tot (getFileSize (Some f))) (dir_loop path ents))"

text \<open>
  What a directory tree holds: the sizes of its files, however deep, and the number of its directories.
  The entries for the directory itself and for the one above it lead out of the tree.
\<close>

fun file_sizes :: "fsnode \<Rightarrow> int list" and ents_files :: "(byte list \<times> fsnode) list \<Rightarrow> int list" where
  "file_sizes (Dir sz ok ents) = ents_files ents"
| "file_sizes (Plain n) = [n]"
| "file_sizes Missing = []"
| "ents_files [] = []"
| "ents_files ((name, f) # ents) = (if name = dot \<or> name = dotdot then [] else file_sizes f) @ ents_files ents"

fun directories :: "fsnode \<Rightarrow> nat" and ents_dirs :: "(byte list \<times> fsnode) list \<Rightarrow> nat" where
  "directories (Dir sz ok ents) = Suc (ents_dirs ents)"
| "directories (Plain n) = 0"
| "directories Missing = 0"
| "ents_dirs [] = 0"
| "ents_dirs ((name, f) # ents) = (if name = dot \<or> name = dotdot then 0 else directories f) + ents_dirs ents"

text \<open>
  Trees in which every call succeeds: each directory can be opened and lists itself once, and every path
  of an entry, with \<open>n\<close> bytes before it, fits its buffer.
\<close>

definition self_entries :: "(byte list \<times> fsnode) list \<Rightarrow> nat" where
  "self_entries ents = length (filter (\<lambda>e. fst e = dot) ents)"

fun tree_ok :: "nat \<Rightarrow> fsnode \<Rightarrow> bool" and ents_ok :: "nat \<Rightarrow> (byte list \<times> fsnode) list \<Rightarrow> bool" where
  "tree_ok n (Dir sz ok ents) \<longleftrightarrow> ok \<and> self_entries ents = 1 \<and> ents_ok n ents"
| "tree_ok n (Plain k) \<longleftrightarrow> 0 \<le> k"
| "tree_ok n Missing \<longleftrightarrow> False"
| "ents_ok n [] \<longleftrightarrow> True"
| "ents_ok n ((name, f) # ents) \<longleftrightarrow>
     (name \<noteq> dot \<and> name \<noteq> dotdot \<longrightarrow> n + 1 + length name + 1 \<le> MAX_PATH_LEN \<and> tree_ok (n + 1 + length name) f) \<and> ents_ok n ents"

text \<open>What the tree adds to the total, and what the entries that are left in a directory add.\<close>

definition tree_total :: "fsnode \<Rightarrow> int" where
  "tree_total f = sum_list (file_sizes f) + 4095 * int (directories f)"

definition ents_total :: "(byte list \<times> fsnode) list \<Rightarrow> int" where
  "ents_total ents = sum_list (ents_files ents) + 4095 * int (self_entries ents + ents_dirs ents)"

lemma ents_total_simps [simp]:
  "ents_total [] = 0"
  "ents_total ((dot, f) # ents) = 4095 + ents_total ents"
  "ents_total ((dotdot, f) # ents) = ents_total ents"
  "name \<noteq> dot \<Longrightarrow> name \<noteq> dotdot \<Longrightarrow> ents_total ((name, f) # ents) = tree_total f + ents_total ents"
  by (simp_all add: ents_total_def tree_total_def self_entries_def dot_def dotdot_def algebra_simps)

lemma tree_total_dir: "self_entries ents = 1 \<Longrightarrow> tree_total (Dir sz ok ents) = ents_total ents"
  by (simp add: tree_total_def ents_total_def)

lemma sizes_nonneg: "tree_ok n f \<Longrightarrow> \<forall>k\<in>set (file_sizes f). 0 \<le> k" "ents_ok n ents \<Longrightarrow> \<forall>k\<in>set (ents_files ents). 0 \<le> k"
  by (induction n f and n ents rule: tree_ok_ents_ok.induct) auto

lemma totals_nonneg: "tree_ok n f \<Longrightarrow> 0 \<le> tree_total f" "ents_ok n ents \<Longrightarrow> 0 \<le> ents_total ents"
  using sizes_nonneg(1)[of n f] sizes_nonneg(2)[of n ents] by (simp_all add: tree_total_def ents_total_def sum_list_nonneg)

lemma add_long_in: "in_int (x + y) \<Longrightarrow> add_long x y = Inr (x + y)"
  by (simp add: add_long_def int_of_long_in) (simp add: in_int_def int_min_def int_max_def)

lemma dir_size_eq:
  "tree_ok (length path) f \<Longrightarrow> isDirFile (Some f) = 1 \<Longrightarrow> tree_total f \<le> int_max \<Longrightarrow> getDirSize path f = Inr (tree_total f)"
  "ents_ok (length path) ents \<Longrightarrow> 0 \<le> tot \<Longrightarrow> tot + ents_total ents \<le> int_max \<Longrightarrow> dir_loop path ents tot = Inr (tot + ents_total ents)"
proof (induction path f and path ents tot rule: getDirSize_dir_loop.induct)
  case (1 path sz ents)
  then show ?case by (simp add: tree_total_dir)
next
  case (6 path name f ents tot)
  have ok: "ents_ok (length path) ents" using "6.prems"(1) by simp
  have rest: "0 \<le> ents_total ents" using totals_nonneg(2)[OF ok] .
  have step: "in_int (tot + k)" if "0 \<le> k" "tot + k + ents_total ents \<le> int_max" for k
    using that rest "6.prems"(2) by (simp add: in_int_def int_min_def)
  consider "name = dot" | "name \<noteq> dot" "name = dotdot" | "name \<noteq> dot" "name \<noteq> dotdot" by blast
  then show ?case
  proof cases
    case 1
    then have "in_int (tot + 4095)" using step[of 4095] "6.prems"(3) by simp
    then show ?thesis using 1 "6.IH"(1)[of "tot + 4095"] "6.prems" ok by simp
  next
    case 2
    then show ?thesis using "6.IH"(2) "6.prems" ok by simp
  next
    case 3
    then have f: "tree_ok (length path + 1 + length name) f" "length path + 1 + length name + 1 \<le> MAX_PATH_LEN"
      using "6.prems"(1) by auto
    have pos: "0 \<le> tree_total f" by (rule totals_nonneg(1)[OF f(1)])
    have le: "tot + tree_total f + ents_total ents \<le> int_max" using "6.prems"(3) 3 by simp
    have id: "add_long tot (tree_total f) = Inr (tot + tree_total f)" by (rule add_long_in[OF step[OF pos le]])
    have all: "ents_total ((name, f) # ents) = tree_total f + ents_total ents" using 3 by simp
    show ?thesis
    proof (cases "isDirFile (Some f) = 1")
      case True
      have sub: "getDirSize (path @ 47 # name) f = Inr (tree_total f)"
        using 3 f True le rest "6.prems"(2) by (intro "6.IH"(3)) auto
      have "dir_loop path ents (tot + tree_total f) = Inr (tot + tree_total f + ents_total ents)"
        using 3 f True le pos ok "6.prems"(2) by (intro "6.IH"(4)[OF _ _ _ _ sub id]) auto
      with sub show ?thesis unfolding all using 3 f True id by simp
    next
      case False
      then have g: "getFileSize (Some f) = tree_total f"
        using f(1) by (cases f) (auto simp: isDirFile_def getFileSize_def tree_total_def)
      have "dir_loop path ents (tot + tree_total f) = Inr (tot + tree_total f + ents_total ents)"
        using 3 f False le pos ok "6.prems"(2) id g by (intro "6.IH"(5)) auto
      then show ?thesis unfolding all using 3 f False id g by simp
    qed
  qed
qed (simp_all add: isDirFile_def)

text \<open>
  C37.  When every directory can be opened and lists itself once, every entry is found and the paths fit their
  buffer of 8024 bytes, getDirSize returns the sum of the sizes of all files of the tree and 4095 for each of
  its directories, whatever sizes the directories have, as long as that sum fits an int.
\<close>

theorem getDirSize_totals:
  assumes "tree_ok (length path) (Dir sz True ents)"
    and "tot = sum_list (file_sizes (Dir sz True ents)) + 4095 * int (directories (Dir sz True ents))" and "tot \<le> int_max"
  shows "getDirSize path (Dir sz True ents) = Inr tot"
  using dir_size_eq(1)[OF assms(1)] assms(2,3) by (simp add: isDirFile_def tree_total_def)

theorem getDirSize_totals_witness:
  "getDirSize [47] (Dir 4096 True [(dot, Missing), ([97], Plain 10), ([98], Dir 4096 True [(dot, Missing), (dotdot, Missing), ([99], Plain 7)])]) =
     Inr (10 + 7 + 2 * 4095)"
  using getDirSize_totals[of "[47]" 4096 "[(dot, Missing), ([97], Plain 10), ([98], Dir 4096 True [(dot, Missing), (dotdot, Missing), ([99], Plain 7)])]"
      "10 + 7 + 2 * 4095"]
  by (simp add: dot_def dotdot_def self_entries_def MAX_PATH_LEN_def int_max_def)

lemma getDirSize_wraps: "getDirSize [] (Dir 4096 True [([97], Plain int_max), ([98], Plain 1)]) = Inr int_min"
  by code_simp

section \<open>Copying\<close>

text \<open>One read (\<open>None\<close> for an error, an empty list at the end) and how much the write after it takes.\<close>

type_synonym io = "byte list option \<times> nat"

definition BUF_SIZE :: nat where "BUF_SIZE = 1024"

text \<open>
  \<open>numRead\<close> is unsigned, so an error of read is a positive number and the loop goes on to write that
  many bytes from the buffer.  Results of the calls that are not used are ignored.
\<close>

fun copy_loop :: "io list \<Rightarrow> byte list \<Rightarrow> byte list c option" where
  "copy_loop [] out = None"
| "copy_loop ((None, w) # ios) out = Some (Inl Read_oob)"
| "copy_loop ((Some [], w) # ios) out = Some (Inr out)"
| "copy_loop ((Some (b # r), w) # ios) out =
     (let chunk = take BUF_SIZE (b # r) in
      if w < length chunk then Some (Inr (out @ take w chunk)) else copy_loop ios (out @ chunk))"

text \<open>The copied bytes, or \<open>None\<close> inside when nothing was opened for writing.\<close>

definition copy_main :: "byte list list \<Rightarrow> bool \<Rightarrow> bool \<Rightarrow> io list \<Rightarrow> byte list option c option" where
  "copy_main argv open1 open2 ios =
     (if length argv \<noteq> 3 then Some (Inr None)
      else if argv ! 1 = ascii ''--help'' then Some (Inr None)
      else if \<not> open1 \<or> \<not> open2 then Some (Inr None)
      else obind (copy_loop ios []) (\<lambda>out. Some (Inr (Some out))))"

lemma copy_loop_eq:
  "\<forall>ch \<in> set chunks. ch \<noteq> [] \<and> length ch \<le> BUF_SIZE \<Longrightarrow>
   copy_loop (map (\<lambda>ch. (Some ch, length ch)) chunks @ (Some [], w) # ios) out = Some (Inr (out @ concat chunks))"
proof (induction chunks arbitrary: out)
  case (Cons ch chunks)
  then obtain b r where "ch = b # r" by (cases ch) auto
  with Cons show ?case by (simp add: Let_def)
qed simp

section \<open>Helpers\<close>

text \<open>The result of stat: the size and whether it is a directory.  The size is cut to an int.\<close>

definition fileSize :: "bool \<Rightarrow> (int \<times> bool) option \<Rightarrow> int" where
  "fileSize null st = (if null then -1 else case st of None \<Rightarrow> -1 | Some (n, d) \<Rightarrow> int_of_long n)"

definition isDir :: "bool \<Rightarrow> (int \<times> bool) option \<Rightarrow> int" where
  "isDir null st = (if null then -1 else case st of None \<Rightarrow> -1 | Some (n, d) \<Rightarrow> (if d then 1 else 0))"

text \<open>\<open>fd\<close> is the result of open, \<open>locked\<close>: F_GETLK finds a lock of another process.\<close>

definition isFileLock :: "bool \<Rightarrow> int \<Rightarrow> bool \<Rightarrow> int" where
  "isFileLock null fd locked = (if null then -1 else if fd < 0 then -1 else if locked then 0 else 1)"

definition isExecutable :: "bool \<Rightarrow> int \<Rightarrow> int" where
  "isExecutable null acc = (if null then -1 else acc)"

datatype effect = Chdir "byte list" | System "byte list"

definition tarFile :: "byte list option \<Rightarrow> byte list option \<Rightarrow> byte list option \<Rightarrow> byte list \<Rightarrow> (int \<times> effect list) c" where
  "tarFile packageName path tarOject cwd =
     (case (packageName, path, tarOject) of
        (Some p, Some d, Some t) \<Rightarrow>
          (let cmd = ascii ''tar -jcvf '' @ p @ [32] @ t in
           if 1024 < length cmd + 1 then Inl Write_oob
           else Inr (0, [Chdir d, System cmd, Chdir cwd]))
      | _ \<Rightarrow> Inr (-1, []))"

definition MERGE_BUF :: nat where "MERGE_BUF = 4096"

text \<open>
  The blocks of the second file; a block that is not full is in the cleared buffer and is written as
  a string.  Every fwrite is assumed to succeed; the result of the last is its number of items.
\<close>

function merge_loop :: "stream \<Rightarrow> byte list \<Rightarrow> int \<times> byte list" where
  "merge_loop s out =
     (let r = fst (fread MERGE_BUF s) in
      if length r = MERGE_BUF then merge_loop (snd (fread MERGE_BUF s)) (out @ r)
      else let t = str_at (r @ [0]) 0 in (if t = [] then 0 else 1, out @ t))"
  by pat_completeness auto
termination
proof (relation "measure (\<lambda>(s, out). length (left s))", simp)
  fix s :: stream and out r
  assume "r = fst (fread MERGE_BUF s)" "length r = MERGE_BUF"
  then show "((snd (fread MERGE_BUF s), out @ r), (s, out)) \<in> measure (\<lambda>(s, out). length (left s))"
    by (auto simp: fread_def MERGE_BUF_def)
qed

declare merge_loop.simps [simp del]

text \<open>The result and the new content of the first file.\<close>

definition mergefile :: "byte list option \<Rightarrow> byte list option \<Rightarrow> int \<times> byte list option" where
  "mergefile f1 f2 =
     (case (f1, f2) of
        (Some c1, Some c2) \<Rightarrow> let (ret, out) = merge_loop (fopen_r c2) c1 in (ret, Some out)
      | _ \<Rightarrow> (0, f1))"

lemma str_at_all: "0 \<notin> set r \<Longrightarrow> str_at (r @ [0]) 0 = r"
  by (simp add: str_at_def takeWhile_no_zero)

lemma merge_loop_text:
  "0 \<notin> set (left s) \<Longrightarrow> merge_loop s out = (if length (left s) mod MERGE_BUF = 0 then 0 else 1, out @ left s)"
proof (induction "length (left s)" arbitrary: s out rule: less_induct)
  case less
  let ?r = "take MERGE_BUF (left s)" and ?s = "snd (fread MERGE_BUF s)"
  have r: "fst (fread MERGE_BUF s) = ?r" and s: "left ?s = drop MERGE_BUF (left s)" by (simp_all add: fread_def)
  have pos: "0 < MERGE_BUF" by (simp add: MERGE_BUF_def)
  show ?case
  proof (cases "MERGE_BUF \<le> length (left s)")
    case True
    then have "merge_loop s out = merge_loop ?s (out @ ?r)"
      by (subst merge_loop.simps) (simp add: r Let_def)
    also have "\<dots> = (if length (left ?s) mod MERGE_BUF = 0 then 0 else 1, (out @ ?r) @ left ?s)"
      using True pos less.prems by (intro less.hyps) (auto simp: s dest: in_set_dropD)
    also have "length (left ?s) mod MERGE_BUF = length (left s) mod MERGE_BUF"
      using True by (simp add: s mod_if)
    finally show ?thesis by (simp add: s)
  next
    case False
    then show ?thesis
      using less.prems str_at_all[of "left s"]
      by (subst merge_loop.simps) (auto simp: r Let_def)
  qed
qed

text \<open>
  mergefile appends a text without null bytes completely, but its result is the 0 of a failure when
  the length is a multiple of the size of the buffer; and of a file shorter than the buffer only the
  bytes up to the first null byte are appended.
\<close>

theorem mergefile_appends:
  assumes "0 \<notin> set c2" and "0 \<notin> set u" and "length u + length v + 1 < MERGE_BUF"
  shows "mergefile (Some c1) (Some c2) = (if length c2 mod MERGE_BUF = 0 then 0 else 1, Some (c1 @ c2)) \<and>
    mergefile (Some c1) (Some (u @ 0 # v)) = (if u = [] then 0 else 1, Some (c1 @ u))"
proof
  show "mergefile (Some c1) (Some c2) = (if length c2 mod MERGE_BUF = 0 then 0 else 1, Some (c1 @ c2))"
    using assms(1) by (simp add: mergefile_def merge_loop_text fopen_r_def)
  have "fst (fread MERGE_BUF (fopen_r (u @ 0 # v))) = u @ 0 # v"
    using assms(3) by (simp add: fread_def fopen_r_def)
  moreover have "str_at ((u @ 0 # v) @ [0]) 0 = u"
    using takeWhile_no_zero[OF assms(2), of "v @ [0]"] by (simp add: str_at_def)
  ultimately have "merge_loop (fopen_r (u @ 0 # v)) c1 = (if u = [] then 0 else 1, c1 @ u)"
    using assms(3) by (subst merge_loop.simps) (simp add: Let_def)
  then show "mergefile (Some c1) (Some (u @ 0 # v)) = (if u = [] then 0 else 1, Some (c1 @ u))"
    by (simp add: mergefile_def)
qed

theorem mergefile_appends_witness:
  "mergefile (Some [1]) (Some [2, 3]) = (1, Some [1, 2, 3]) \<and> mergefile (Some [1]) (Some ([2] @ 0 # [3])) = (1, Some [1, 2])"
  using mergefile_appends[of "[2, 3]" "[2]" "[3]" "[1]"] by (simp add: MERGE_BUF_def)

end
