(* ===== verification/Numbers.thy ===== *)
theory Numbers
  imports C_Prelude
begin

text \<open>
  Small numeric functions: the digits of a number (Float/printfloat.c), a number in a range
  (Random/random.c) and the units of time (Time/timing.c).
\<close>

section \<open>Digits of a number\<close>

text \<open>The loop only runs for positive \<open>tmp\<close>, so the remainder is that of the absolute values.\<close>

function itob_loop :: "int \<Rightarrow> int \<Rightarrow> nat \<Rightarrow> int \<Rightarrow> mem \<Rightarrow> mem c" where
  "itob_loop n base i tmp tmpbuff =
     (if int i < n \<and> tmp > 0 then
        (if base = 0 then Inl Div_zero
         else cbind (wrs tmpbuff i (printf_d (tmp mod \<bar>base\<bar>) @ [0])) (\<lambda>tmpbuff.
              cbind (cdiv tmp base) (\<lambda>tmp. itob_loop n base (i + 1) tmp tmpbuff)))
      else Inr tmpbuff)"
  by pat_completeness auto
termination
  by (relation "measure (\<lambda>(n, base, i, tmp, tmpbuff). nat (n - int i))") auto

declare itob_loop.simps [simp del]

definition clear_buf :: "mem \<Rightarrow> int \<Rightarrow> mem c" where
  "clear_buf m n = (if n < 0 \<or> int (length m) < n then Inl Write_oob else Inr (replicate (nat n) 0 @ drop (nat n) m))"

definition itob :: "int \<Rightarrow> mem \<Rightarrow> int \<Rightarrow> int \<Rightarrow> (int \<times> mem) c" where
  "itob val buff n base =
     cbind (clear_buf buff n) (\<lambda>buff.
     cbind (itob_loop n base 0 val (replicate (nat n) 0)) (\<lambda>tmpbuff.
     cbind (strlen tmpbuff 0) (\<lambda>k.
     cbind (for_n k 0 (\<lambda>j buff. cbind (rd tmpbuff (k - 1 - j)) (\<lambda>x. wr buff j x)) buff) (\<lambda>buff.
       Inr (1, buff)))))"

text \<open>Shifting by 32 or more is undefined; a shift by 31 gives the sign bit.\<close>

fun itobit_loop :: "32 word \<Rightarrow> nat \<Rightarrow> mem \<Rightarrow> mem c" where
  "itobit_loop val 0 buff = Inr buff"
| "itobit_loop val (Suc i) buff =
     (if 32 \<le> i then Inl Signed_overflow
      else cbind (wr buff i (if val AND push_bit i 1 \<noteq> 0 then 49 else 48)) (itobit_loop val i))"

definition itobit :: "int \<Rightarrow> mem \<Rightarrow> int \<Rightarrow> (int \<times> mem) c" where
  "itobit val buff n = cbind (itobit_loop (word_of_int val) (nat n) buff) (\<lambda>buff. Inr (1, buff))"

text \<open>The digits, the lowest first.\<close>

fun digits_of :: "nat \<Rightarrow> nat \<Rightarrow> nat list" where
  "digits_of base v = (if v = 0 \<or> base < 2 then [] else v mod base # digits_of base (v div base))"

declare digits_of.simps [simp del]

definition digit_char :: "nat \<Rightarrow> byte" where
  "digit_char d = 48 + of_nat d"

fun value_of :: "nat \<Rightarrow> nat list \<Rightarrow> nat" where
  "value_of base [] = 0"
| "value_of base (d # ds) = d + base * value_of base ds"

lemma value_digits: "2 \<le> base \<Longrightarrow> value_of base (digits_of base v) = v"
  by (induction base v rule: digits_of.induct) (subst digits_of.simps, auto)

lemma digit_char_nonzero: "d < 10 \<Longrightarrow> digit_char d \<noteq> 0"
proof -
  have "\<forall>d \<in> set [0..<10]. digit_char d \<noteq> 0" by code_simp
  then show "d < 10 \<Longrightarrow> digit_char d \<noteq> 0" by simp
qed

lemma digits_small: "base \<le> 10 \<Longrightarrow> d \<in> set (digits_of base v) \<Longrightarrow> d < 10"
proof (induction base v rule: digits_of.induct)
  case (1 base v)
  show ?case
  proof (cases "v = 0 \<or> base < 2")
    case True
    with 1 show ?thesis by (simp add: digits_of.simps[of base v])
  next
    case False
    then have "d = v mod base \<or> d \<in> set (digits_of base (v div base))"
      using 1(3) by (simp add: digits_of.simps[of base v])
    moreover have "v mod base < 10" using False 1(2) by (intro less_le_trans[OF mod_less_divisor]) auto
    ultimately show ?thesis using 1 False by auto
  qed
qed

lemma printf_small: "d < 10 \<Longrightarrow> printf_d (int d) = [digit_char d]"
  by (simp add: printf_d_def dec_digits.simps digit_char_def)

lemma itob_loop_eq:
  assumes "2 \<le> base" and "base \<le> 10"
  shows "length u + length (digits_of base v) < n \<Longrightarrow> int v \<le> int_max \<Longrightarrow>
    itob_loop (int n) (int base) (length u) (int v) (u @ replicate (n - length u) 0) =
    Inr (u @ map digit_char (digits_of base v) @ replicate (n - length u - length (digits_of base v)) 0)"
proof (induction v arbitrary: u rule: less_induct)
  case (less v)
  show ?case
  proof (cases "v = 0")
    case True
    then show ?thesis by (subst itob_loop.simps) (simp add: digits_of.simps)
  next
    case False
    let ?d = "v mod base" and ?ds = "digits_of base (v div base)"
    have ds: "digits_of base v = ?d # ?ds" using False assms(1) by (simp add: digits_of.simps[of base v])
    have d: "?d < 10" using assms by (intro less_le_trans[OF mod_less_divisor]) auto
    have len: "length (u @ [digit_char ?d]) + length ?ds < n" using less.prems(1) ds by simp
    have small: "v div base < v" using False assms(1) by simp
    have "int v mod \<bar>int base\<bar> = int ?d" by (simp add: zmod_int)
    moreover have "cdiv (int v) (int base) = Inr (int (v div base))"
    proof -
      have "int (v div base) \<le> int v" by (simp add: div_le_dividend)
      then have "int (v div base) \<le> int_max" using less.prems(2) by (rule order_trans)
      then have "in_int (int (v div base))" by (simp add: in_int_def int_min_def)
      then show ?thesis using False assms(1) by (simp add: cdiv_def zdiv_int)
    qed
    moreover have "wrs (u @ replicate (n - length u) 0) (length u) [digit_char ?d, 0] =
        Inr ((u @ [digit_char ?d]) @ replicate (n - length (u @ [digit_char ?d])) 0)"
    proof -
      obtain m where "n - length u = Suc (Suc m)" using len by (cases "n - length u"; cases "n - length u - 1") auto
      then have "n = length u + Suc (Suc m)" by simp
      then show ?thesis by (simp add: list_update_append)
    qed
    ultimately have "itob_loop (int n) (int base) (length u) (int v) (u @ replicate (n - length u) 0) =
        itob_loop (int n) (int base) (length (u @ [digit_char ?d])) (int (v div base))
          ((u @ [digit_char ?d]) @ replicate (n - length (u @ [digit_char ?d])) 0)"
      using False assms(1) less.prems(1) printf_small[OF d] by (subst itob_loop.simps) simp
    also have "\<dots> = Inr ((u @ [digit_char ?d]) @ map digit_char ?ds @ replicate (n - length (u @ [digit_char ?d]) - length ?ds) 0)"
      using len less.prems(2) small by (intro less.IH) auto
    finally show ?thesis by (simp add: ds)
  qed
qed

text \<open>
  itob writes the digits of a positive number to a base from 2 to 10, the highest first, and null
  bytes after them; their value is the number.
\<close>

theorem itob_digits:
  assumes "2 \<le> base" and "base \<le> 10" and "int v \<le> int_max" and "length (digits_of base v) < n" and "n \<le> length buff"
  shows "itob (int v) buff (int n) (int base) =
      Inr (1, map digit_char (rev (digits_of base v)) @ replicate (n - length (digits_of base v)) 0 @ drop n buff) \<and>
    value_of base (digits_of base v) = v"
proof -
  let ?ds = "digits_of base v" let ?t = "map digit_char ?ds" let ?k = "length ?ds"
  let ?tmp = "?t @ replicate (n - ?k) 0" and ?buff = "replicate n 0 @ drop n buff"
  have loop: "itob_loop (int n) (int base) 0 (int v) (replicate n 0) = Inr ?tmp"
    using itob_loop_eq[OF assms(1,2), of "[]" v n] assms(3,4) by simp
  have "0 \<notin> set ?t" using digits_small[OF assms(2)] digit_char_nonzero by (metis (no_types) imageE list.set_map)
  moreover obtain m where "n - ?k = Suc m" using assms(4) by (cases "n - ?k") auto
  ultimately have "strlen ?tmp 0 = Inr ?k"
    using c_str_strlen[OF c_strI[of ?t "replicate m 0"]] by simp
  moreover have "for_n ?k 0 (\<lambda>j buff. cbind (rd ?tmp (?k - 1 - j)) (\<lambda>x. wr buff j x)) ?buff =
      Inr (map (\<lambda>j. ?tmp ! (?k - 1 - j)) [0..<?k] @ drop ?k ?buff)"
  proof -
    have "for_n ?k 0 (\<lambda>j buff. cbind (rd ?tmp (?k - 1 - j)) (\<lambda>x. wr buff j x)) ?buff =
        Inr (fold (\<lambda>j d. d[j := ?tmp ! (?k - 1 - j)]) [0..<0 + ?k] ?buff)"
      using assms(4) by (intro for_n_inv [where P = "\<lambda>b. length b = length ?buff"]) auto
    also have "fold (\<lambda>j d. d[j := ?tmp ! (?k - 1 - j)]) [0..<0 + ?k] ?buff = map (\<lambda>j. ?tmp ! (?k - 1 - j)) [0..<?k] @ drop ?k ?buff"
      using assms(4) fold_update[of ?k ?buff "\<lambda>j. ?tmp ! (?k - 1 - j)"] by simp
    finally show ?thesis .
  qed
  moreover have "map (\<lambda>j. ?tmp ! (?k - 1 - j)) [0..<?k] = map digit_char (rev ?ds)"
    by (intro nth_equalityI) (auto simp: nth_append rev_nth)
  moreover have "drop ?k ?buff = replicate (n - ?k) 0 @ drop n buff" using assms(4) by simp
  ultimately have "itob (int v) buff (int n) (int base) =
      Inr (1, map digit_char (rev ?ds) @ replicate (n - ?k) 0 @ drop n buff)"
    using assms(5) loop by (simp add: itob_def clear_buf_def)
  then show ?thesis using value_digits[OF assms(1)] by simp
qed

theorem itob_digits_witness:
  "itob (int 6) (replicate 33 0) (int 33) (int 2) = Inr (1, [49, 49, 48] @ replicate 30 0)"
proof -
  have "digits_of 2 6 = [0, 1, 1]" by code_simp
  then show ?thesis using itob_digits[of 2 6 33 "replicate 33 0"] by (simp add: int_max_def digit_char_def)
qed

lemma itobit_loop_bits:
  "n \<le> 32 \<Longrightarrow> n \<le> length buff \<Longrightarrow>
   itobit_loop val n buff = Inr (map (\<lambda>i. if bit val i then 49 else 48) [0..<n] @ drop n buff)"
proof (induction n arbitrary: buff)
  case (Suc n)
  have "val AND push_bit n 1 \<noteq> 0 \<longleftrightarrow> bit val n"
    using Suc.prems(1) by (simp add: bit_iff_and_push_bit_not_eq_0)
  moreover have "drop n (buff[n := x]) = x # drop (Suc n) buff" for x
    using Suc.prems(2) by (simp add: drop_update_swap Cons_nth_drop_Suc[symmetric])
  ultimately show ?case using Suc by simp
qed simp

text \<open>itobit writes the lowest bit first, so the string is the binary number backwards.\<close>

lemma itobit_bits: "n \<le> 32 \<Longrightarrow> n \<le> length buff \<Longrightarrow>
  itobit val buff (int n) = Inr (1, map (\<lambda>i. if bit (word_of_int val :: 32 word) i then 49 else 48) [0..<n] @ drop n buff)"
  by (simp add: itobit_def itobit_loop_bits)

section \<open>A number in a range\<close>

type_synonym uint = "32 word"

text \<open>\<open>rnd\<close> is the result of rand.\<close>

definition random_rang :: "uint \<Rightarrow> uint \<Rightarrow> uint \<Rightarrow> uint" where
  "random_rang rnd start stop =
     (let mod_val = stop - start in
      if mod_val \<le> 0 then - 1 else rnd mod mod_val + start)"

text \<open>
  The number is in the range when the range is not empty.  An empty range gives the largest number;
  a range with the bounds exchanged is not noticed.
\<close>

theorem random_rang_bounds:
  assumes "start < stop"
  shows "start \<le> random_rang rnd start stop \<and> random_rang rnd start stop < stop \<and> random_rang rnd start start = - 1"
proof -
  let ?m = "stop - start"
  have lt: "unat start < unat stop" using assms by (simp add: word_less_nat_alt)
  have m: "unat ?m = unat stop - unat start" using assms by (simp add: unat_sub order_less_imp_le)
  have "?m \<noteq> 0" using assms by auto
  then have "random_rang rnd start stop = rnd mod ?m + start" by (simp add: random_rang_def word_le_0_iff)
  moreover have r: "unat (rnd mod ?m) < unat ?m" using m lt by (simp add: unat_mod)
  moreover have "unat (rnd mod ?m + start) = unat (rnd mod ?m) + unat start"
  proof -
    have "unat stop < 2 ^ LENGTH(32)" by (rule unsigned_less)
    with r m lt have "unat (rnd mod ?m) + unat start < 2 ^ LENGTH(32)" by linarith
    then show ?thesis by (rule unat_add_lem[THEN iffD1])
  qed
  ultimately show ?thesis using m lt by (simp add: word_le_nat_alt word_less_nat_alt random_rang_def)
qed

theorem random_rang_bounds_witness:
  "100 \<le> random_rang 77 100 119 \<and> random_rang 77 100 119 < 119"
  using random_rang_bounds[of 100 119 77] by simp

lemma random_rang_exchanged: "random_rang 5 119 100 = 124"
  by (simp add: random_rang_def)

section \<open>Units of time\<close>

type_synonym ulong = "64 word"

text \<open>The arguments are what clock_gettime and gettimeofday store: seconds and a fraction.\<close>

definition cpu_nsec :: "ulong \<Rightarrow> ulong \<Rightarrow> ulong" where
  "cpu_nsec tv_sec tv_nsec = tv_sec * 1000000000 + tv_nsec"

definition cpu_usec :: "ulong \<Rightarrow> ulong \<Rightarrow> ulong" where
  "cpu_usec tv_sec tv_nsec = tv_sec * 1000000 + tv_nsec div 1000"

definition cpu_msec :: "ulong \<Rightarrow> ulong \<Rightarrow> ulong" where
  "cpu_msec tv_sec tv_nsec = tv_sec * 1000 + tv_nsec div 1000000"

definition time_usec :: "ulong \<Rightarrow> ulong \<Rightarrow> ulong" where
  "time_usec tv_sec tv_usec = tv_sec * 1000000 + tv_usec"

definition time_msec :: "ulong \<Rightarrow> ulong \<Rightarrow> ulong" where
  "time_msec tv_sec tv_usec = tv_sec * 1000 + tv_usec div 1000"

text \<open>As long as the nanoseconds fit, the units are the same time.\<close>

lemma unat_mult_add:
  assumes "unat a * unat b + unat c < 2 ^ LENGTH('a)"
  shows "unat (a * b + c :: 'a :: len word) = unat a * unat b + unat c"
proof -
  have "unat (a * b) = unat a * unat b" using assms by (intro unat_mult_lem[THEN iffD1]) simp
  then show ?thesis using assms by (metis unat_add_lem)
qed

lemma units_agree:
  assumes "unat s * 1000000000 + unat f < 2 ^ 64"
  shows "unat (cpu_usec s f) = unat (cpu_nsec s f) div 1000" "unat (cpu_msec s f) = unat (cpu_nsec s f) div 1000000"
proof -
  have n: "unat (cpu_nsec s f) = unat s * 1000000000 + unat f"
    using unat_mult_add[of s 1000000000 f] assms by (simp add: cpu_nsec_def)
  have u: "unat s * 1000000 + unat f div 1000 < 2 ^ 64" "unat s * 1000 + unat f div 1000000 < 2 ^ 64" using assms by linarith+
  have "unat (cpu_usec s f) = unat s * 1000000 + unat f div 1000"
    using unat_mult_add[of s 1000000 "f div 1000"] u(1) by (simp add: cpu_usec_def unat_div)
  also have "\<dots> = unat (cpu_nsec s f) div 1000" by (simp add: n)
  finally show "unat (cpu_usec s f) = unat (cpu_nsec s f) div 1000" .
  have "unat (cpu_msec s f) = unat s * 1000 + unat f div 1000000"
    using unat_mult_add[of s 1000 "f div 1000000"] u(2) by (simp add: cpu_msec_def unat_div)
  also have "\<dots> = unat (cpu_nsec s f) div 1000000" by (simp add: n)
  finally show "unat (cpu_msec s f) = unat (cpu_nsec s f) div 1000000" .
qed

section \<open>The parts of a float\<close>

text \<open>
  The main program of printfloat.c, for the bits of its float.  The field of 23 bits is called exp and the one
  of 8 bits mant, the other way round than what they hold.  The result is the three fields and the five texts printed.
\<close>

definition float_fields :: "32 word \<Rightarrow> int \<times> int \<times> int" where
  "float_fields w = (uint (w AND 0x7FFFFF), uint (drop_bit 23 w AND 0xFF), uint (drop_bit 31 w))"

definition printfloat_main :: "32 word \<Rightarrow> ((int \<times> int \<times> int) \<times> byte list list) c" where
  "printfloat_main w =
     (case float_fields w of (ex, mant, sign) \<Rightarrow>
        cbind (itob ex (replicate 33 0) 33 2) (\<lambda>(_, b1).
        cbind (itob mant b1 33 2) (\<lambda>(_, b2).
        cbind (itob sign b2 33 2) (\<lambda>(_, b3).
        cbind (itobit mant b3 32) (\<lambda>(_, b4).
        cbind (itobit ex b4 32) (\<lambda>(_, b5).
          Inr ((ex, mant, sign), map (\<lambda>b. str_at b 0) [b1, b2, b3, b4, b5])))))))"

text \<open>The fields make up the float; for 19.625 the field called mant is the biased exponent 131.\<close>

lemma float_fields_whole:
  "case float_fields w of (ex, mant, sign) \<Rightarrow> sign * 2 ^ 31 + mant * 2 ^ 23 + ex = uint w \<and> ex < 2 ^ 23 \<and> mant < 2 ^ 8 \<and> sign < 2"
proof -
  have m: "(0x7FFFFF :: 32 word) = mask 23" "(0xFF :: 32 word) = mask 8" by (simp_all add: mask_eq_exp_minus_1)
  have bound: "uint w < 2 ^ 32" using unsigned_less[of w] by simp
  define u where "u = uint w"
  have "float_fields w = (u mod 2 ^ 23, u div 2 ^ 23 mod 2 ^ 8, u div 2 ^ 31)"
    unfolding float_fields_def m take_bit_eq_mask[symmetric]
    by (simp add: u_def take_bit_eq_mod drop_bit_eq_div uint_mod_distrib uint_div_distrib)
  moreover have "u div 2 ^ 23 mod 2 ^ 8 + u div 2 ^ 31 * 2 ^ 8 = u div 2 ^ 23"
    using div_mult_mod_eq[of "u div 2 ^ 23" "2 ^ 8"] by (simp add: zdiv_zmult2_eq[symmetric])
  moreover have whole: "u div 8388608 * 8388608 + u mod 8388608 = u" by (rule div_mult_mod_eq)
  moreover have "u mod 2 ^ 23 < 2 ^ 23" "u div 2 ^ 23 mod 2 ^ 8 < 2 ^ 8" by simp_all
  moreover have "u div 2 ^ 31 < 2" using bound by (simp add: u_def)
  ultimately show ?thesis unfolding u_def[symmetric] by simp (use whole in linarith)
qed

lemma printfloat_sample: "float_fields 0x419D0000 = (0x1D0000, 131, 0)"
  by (simp add: float_fields_def)

end
