(* ===== verification/Mac_Frame.thy ===== *)
theory Mac_Frame
  imports Stdio
begin

text \<open>
  The configuration protocol on Ethernet frames in mac/: the frame built by send_mac_message and
  taken apart by handle_mac_message (ss_mac_service.c), and the helpers of communication.c that
  read the names of the network devices and compare addresses.  The system calls on sockets are not
  modelled; a frame that is sent is part of the result.
\<close>

section \<open>Reading numbers and words\<close>

definition is_space :: "byte \<Rightarrow> bool" where
  "is_space b \<longleftrightarrow> b = 32 \<or> 9 \<le> b \<and> b \<le> 13"

text \<open>The conversion \<open>%d\<close> of sscanf: a number and what follows it.\<close>

definition scan_d :: "byte list \<Rightarrow> (int \<times> byte list) option" where
  "scan_d s =
     (let t = dropWhile is_space s;
          (neg, u) = (case t of [] \<Rightarrow> (False, t)
            | b # r \<Rightarrow> if b = 45 then (True, r) else if b = 43 then (False, r) else (False, t));
          ds = takeWhile is_digit u in
      if ds = [] then None else Some (if neg then - dec_of ds else dec_of ds, dropWhile is_digit u))"

text \<open>Numbers with dots between them, until one is missing; one that does not fit an int is undefined.\<close>

fun scan_dotted :: "nat \<Rightarrow> byte list \<Rightarrow> int list c" where
  "scan_dotted 0 s = Inr []"
| "scan_dotted (Suc n) s =
     (case scan_d s of None \<Rightarrow> Inr []
      | Some (v, r) \<Rightarrow> cbind (chk v) (\<lambda>v.
          if n = 0 then Inr [v]
          else case r of [] \<Rightarrow> Inr [v]
            | b # r' \<Rightarrow> if b = 46 then cbind (scan_dotted n r') (\<lambda>vs. Inr (v # vs)) else Inr [v]))"

definition ip_numbers :: "byte list \<Rightarrow> bool c" where
  "ip_numbers s = cbind (scan_dotted 4 s) (\<lambda>vs. Inr (length vs = 4 \<and> list_all (\<lambda>v. 0 \<le> v \<and> v \<le> 255) vs))"

text \<open>The test of Network/checkip.c answers 0 for no, the one of communication.c -1.\<close>

definition check_ip_format :: "mem option \<Rightarrow> int c" where
  "check_ip_format ip =
     (case ip of None \<Rightarrow> Inr 0
      | Some m \<Rightarrow> cbind (strlen m 0) (\<lambda>_. cbind (ip_numbers (str_at m 0)) (\<lambda>ok. Inr (if ok then 1 else 0))))"

definition mac_check_ip_format :: "mem option \<Rightarrow> int c" where
  "mac_check_ip_format ip =
     (case ip of None \<Rightarrow> Inr (-1)
      | Some m \<Rightarrow> cbind (strlen m 0) (\<lambda>_. cbind (ip_numbers (str_at m 0)) (\<lambda>ok. Inr (if ok then 1 else -1))))"

section \<open>Frames\<close>

definition src_mac_pos :: nat where "src_mac_pos = 6"
definition mac_size :: nat where "mac_size = 6"
definition protocol_pos :: nat where "protocol_pos = 12"
definition fcs_pos :: nat where "fcs_pos = 14"
definition message_length_pos :: nat where "message_length_pos = 16"
definition message_pos :: nat where "message_pos = 17"
definition message_size :: nat where "message_size = 128"
definition bufsize :: nat where "bufsize = 1024"

lemmas positions = src_mac_pos_def mac_size_def protocol_pos_def fcs_pos_def message_length_pos_def
  message_pos_def message_size_def bufsize_def

text \<open>The length is kept in a char; sprintf stores each character with a null byte after it.\<close>

definition add_data :: "mem \<Rightarrow> mem \<Rightarrow> mem c" where
  "add_data str1 str2 =
     cbind (strlen str2 0) (\<lambda>k.
     cbind (wr str1 message_length_pos (of_nat k)) (\<lambda>m.
       for_n (nat (sint (of_nat k :: byte))) 0
         (\<lambda>i m. cbind (rd str2 i) (\<lambda>ch. wrs m (i + message_pos) [ch, 0])) m))"

text \<open>The frame that is sent, if any.\<close>

definition send_mac_message :: "int \<Rightarrow> byte list \<Rightarrow> byte list \<Rightarrow> byte list \<Rightarrow> mem \<Rightarrow> byte list option c" where
  "send_mac_message sock frommac hwaddr fcs message =
     cbind (wrs (replicate bufsize 0) 0 (take mac_size frommac)) (\<lambda>b.
     cbind (wrs b mac_size (take mac_size hwaddr)) (\<lambda>b.
     cbind (wrs b fcs_pos (take 2 fcs)) (\<lambda>b.
     cbind (wrs b protocol_pos [0x88, 0x8e]) (\<lambda>b.
     cbind (strlen message 0) (\<lambda>k.
     cbind (add_data b message) (\<lambda>b.
       if bufsize < message_pos + k then Inl Read_oob
       else Inr (if sock > 0 then Some (take (message_pos + k) b) else None)))))))"

text \<open>The message of a received frame, copied into a cleared array; the length is a signed char.\<close>

definition received_message :: "mem \<Rightarrow> mem c" where
  "received_message r =
     cbind (rd r message_length_pos) (\<lambda>k.
       if sint k < 0 \<or> length r < message_pos + nat (sint k) then Inl Read_oob
       else wrs (replicate message_size 0) 0 (take (nat (sint k)) (drop message_pos r)))"

text \<open>Words of the message, each stored with a null byte in an array of the given size.\<close>

fun scan_fields :: "((byte \<Rightarrow> bool) \<times> nat) list \<Rightarrow> byte list \<Rightarrow> byte list list c" where
  "scan_fields [] s = Inr []"
| "scan_fields ((P, n) # fs) s =
     (let w = takeWhile P s in
      if w = [] then Inr []
      else if n < length w + 1 then Inl Write_oob
      else cbind (scan_fields fs (dropWhile is_space (dropWhile P s))) (\<lambda>ws. Inr (w # ws)))"

definition is_alpha :: "byte \<Rightarrow> bool" where
  "is_alpha b \<longleftrightarrow> 65 \<le> b \<and> b \<le> 90 \<or> 97 \<le> b \<and> b \<le> 122"

definition is_ip_char :: "byte \<Rightarrow> bool" where
  "is_ip_char b \<longleftrightarrow> is_digit b \<or> b = 46"

definition modify_format :: "((byte \<Rightarrow> bool) \<times> nat) list" where
  "modify_format = [(is_alpha, 14), (\<lambda>b. \<not> is_space b, 24), (is_ip_char, 20), (is_ip_char, 20), (is_ip_char, 20)]"

definition hex_low :: "nat \<Rightarrow> byte" where
  "hex_low n = (if n < 10 then 48 + of_nat n else 87 + of_nat n)"

definition hex2 :: "byte \<Rightarrow> byte list" where
  "hex2 b = [hex_low (unat b div 16), hex_low (unat b mod 16)]"

fun mac_text :: "byte list \<Rightarrow> byte list" where
  "mac_text [] = []"
| "mac_text [b] = hex2 b"
| "mac_text (b # bs) = hex2 b @ 58 # mac_text bs"

definition getdev_reply :: "byte list" where
  "getdev_reply = ascii ''ip:192.168.1.168 netmask:255.255.255.0 gateway:192.168.1.1 sn:A1234567823 masterNum:001 slaveNum:085 adressboxIp:192.168.1.254 deviceModel:Summer-z consultNum:002''"

text \<open>
  The result and the frame sent.  \<open>check\<close> is check_ip_format, declared in a header that is not part
  of the sources; it is asked whether its result is not 0.
\<close>

definition handle_mac_message :: "(byte list \<Rightarrow> int) \<Rightarrow> int \<Rightarrow> mem option \<Rightarrow> mem option \<Rightarrow> (int \<times> byte list option) c" where
  "handle_mac_message check sock receive_data hwaddr =
     (case (receive_data, hwaddr) of
        (Some r, Some hw) \<Rightarrow>
          (if length r < 2 * mac_size \<or> length hw < mac_size then Inl Read_oob
           else
             let frommac = take mac_size (drop mac_size r) in
             cbind (received_message r) (\<lambda>message.
             let text = str_at message 0 in
             if take 13 text = ascii ''ModifyNetInfo'' then
               cbind (scan_fields modify_format text) (\<lambda>ws.
                 if length ws = 5 \<and> check (ws ! 2) \<noteq> 0 \<and> check (ws ! 3) \<noteq> 0 \<and> check (ws ! 4) \<noteq> 0 then
                   (let hwpmac = mac_text (take mac_size hw) in
                    if take (length hwpmac) (ws ! 1) = hwpmac then
                      cbind (send_mac_message sock frommac hw [0x22, 0x23] (ascii ''ModifyNetInfoStatus:1'' @ [0])) (\<lambda>f. Inr (0, f))
                    else Inr (0, None))
                 else cbind (send_mac_message sock frommac hw [0x22, 0x23] (ascii ''ModifyNetInfoStatus:0'' @ [0])) (\<lambda>f. Inr (0, f)))
             else if text = ascii ''getdev'' then
               (if message_size < length getdev_reply + 1 then Inl Write_oob
                else cbind (send_mac_message sock frommac hw [0x22, 0x22] (getdev_reply @ [0])) (\<lambda>f. Inr (0, f)))
             else Inr (0, None)))
      | _ \<Rightarrow> Inr (-1, None))"

section \<open>Addresses and names of devices\<close>

text \<open>The loop runs from 0 to 6, over seven bytes.\<close>

fun compare_loop :: "mem \<Rightarrow> mem \<Rightarrow> nat \<Rightarrow> nat \<Rightarrow> int c" where
  "compare_loop str1 str2 i 0 = Inr 0"
| "compare_loop str1 str2 i (Suc n) =
     cbind (rd str1 i) (\<lambda>a. cbind (rd str2 i) (\<lambda>b. if a = b then compare_loop str1 str2 (i + 1) n else Inr (-1)))"

definition compare :: "mem \<Rightarrow> mem \<Rightarrow> int c" where
  "compare str1 str2 = compare_loop str1 str2 0 7"

text \<open>\<open>%2x\<close> of a byte from 16 on has two digits; the tag follows every byte but the last.\<close>

definition printhex :: "mem \<Rightarrow> int \<Rightarrow> byte list \<Rightarrow> byte list c" where
  "printhex hex n tag =
     (if n < 1 then Inr []
      else cbind (for_n (nat n - 1) 0 (\<lambda>i out. cbind (rd hex i) (\<lambda>b. Inr (out @ hex2 b @ tag))) []) (\<lambda>out.
           cbind (rd hex (nat n - 1)) (\<lambda>b. Inr (out @ hex2 b @ [10]))))"

lemma fgets_todo_less: "\<not> eof s \<Longrightarrow> (l, s') = fgets 512 s \<Longrightarrow> todo s' < todo s"
  using fgets_todo[of s 512] by (metis snd_conv numeral_less_iff one_less_numeral_iff semiring_norm(76))

definition IFNAMSIZ :: nat where "IFNAMSIZ = 16"

function skip_spaces :: "mem \<Rightarrow> nat \<Rightarrow> nat c" where
  "skip_spaces m p = cbind (rd m p) (\<lambda>b. if is_space b then skip_spaces m (p + 1) else Inr p)"
  by pat_completeness auto
termination
  by (relation "measure (\<lambda>(m, p). length m - p)") (auto simp: rd_def split: if_splits)

declare skip_spaces.simps [simp del]

text \<open>Copying digits: the place in the line and in the name, and the name.\<close>

function copy_digits :: "mem \<Rightarrow> nat \<Rightarrow> mem \<Rightarrow> nat \<Rightarrow> (nat \<times> mem \<times> nat) c" where
  "copy_digits m p name q =
     cbind (rd m p) (\<lambda>b. if is_digit b then cbind (wr name q b) (\<lambda>name. copy_digits m (p + 1) name (q + 1)) else Inr (p, name, q))"
  by pat_completeness auto
termination
  by (relation "measure (\<lambda>(m, p, name, q). length m - p)") (auto simp: rd_def split: if_splits)

declare copy_digits.simps [simp del]

text \<open>The main loop ends with the two pointers, or \<open>None\<close> for the early return.\<close>

function name_loop :: "mem \<Rightarrow> nat \<Rightarrow> mem \<Rightarrow> nat \<Rightarrow> (nat \<times> mem \<times> nat) option c" where
  "name_loop m p name q =
     cbind (rd m p) (\<lambda>b.
       if b = 0 then Inr (Some (p, name, q))
       else if is_space b then Inr (Some (p, name, q))
       else if b = 58 then
         cbind (wr name q b) (\<lambda>name1.
         cbind (copy_digits m (p + 1) name1 (q + 1)) (\<lambda>(p1, name2, q1).
         cbind (rd m p1) (\<lambda>b1.
           let (p2, q2) = (if b1 \<noteq> 58 then (p, q) else (p1, q1)) in
           cbind (rd m p2) (\<lambda>b2. if b2 = 0 then Inr None else Inr (Some (p2 + 1, name2, q2))))))
       else cbind (wr name q b) (\<lambda>name. name_loop m (p + 1) name (q + 1)))"
  by pat_completeness auto
termination
  by (relation "measure (\<lambda>(m, p, name, q). length m - p)") (auto simp: rd_def split: if_splits)

declare name_loop.simps [simp del]

definition get_name :: "mem \<Rightarrow> mem \<Rightarrow> nat \<Rightarrow> (mem \<times> nat option) c" where
  "get_name name m p =
     cbind (skip_spaces m p) (\<lambda>p.
     cbind (name_loop m p name 0) (\<lambda>r.
       case r of None \<Rightarrow> Inr (name, None)
       | Some (p, name, q) \<Rightarrow> cbind (wr name q 0) (\<lambda>name. Inr (name, Some p))))"

text \<open>
  The lines of /proc/net/dev after the first two.  The counter is never changed, so only the end of
  the file stops the loop; \<open>junk\<close> is what the array \<open>name\<close> holds before it is written.
\<close>

function dev_loop :: "mem \<Rightarrow> int \<Rightarrow> nat \<Rightarrow> nat \<Rightarrow> stream \<Rightarrow> mem \<Rightarrow> mem \<Rightarrow> mem c" where
  "dev_loop junk num n k s buf dev =
     (if eof s then Inr dev
      else case fgets 512 s of
        (None, s') \<Rightarrow> Inr dev
      | (Some l, s') \<Rightarrow>
          if 0 < num then
            cbind (store_line buf (Some l)) (\<lambda>buf.
            cbind (get_name junk buf 0) (\<lambda>(name, _).
            cbind (wrs dev k (strncpy_bytes name n)) (\<lambda>dev. dev_loop junk num n (k + n) s' buf dev)))
          else Inr dev)"
  by pat_completeness auto
termination
  by (relation "measure (\<lambda>(junk, num, n, k, s, buf, dev). todo s)")
    (auto dest: fgets_todo_less)

declare dev_loop.simps [simp del]

definition read_netdev_proc :: "mem \<Rightarrow> mem option \<Rightarrow> int \<Rightarrow> int \<Rightarrow> byte list option \<Rightarrow> (int \<times> mem option) c" where
  "read_netdev_proc junk devname num n f =
     (case devname of None \<Rightarrow> Inr (-1, None)
      | Some d \<Rightarrow>
          if num < 1 \<or> n < 4 then Inr (-1, devname)
          else if int (length d) < n * num then Inl Write_oob
          else
            let d = replicate (nat (n * num)) 0 @ drop (nat (n * num)) d in
            case f of None \<Rightarrow> Inr (-1, Some d)
            | Some content \<Rightarrow>
                let s1 = snd (fgets 512 (fopen_r content)); s2 = snd (fgets 512 s1) in
                cbind (dev_loop junk num (nat n) 0 s2 (replicate 512 0) d) (\<lambda>d. Inr (0, Some d)))"

section \<open>The frame that is sent\<close>

lemma add_data_loop:
  fixes pre "text" :: mem
  assumes "length pre = message_pos" and "i + n \<le> length text" and "length text < 1007"
  shows "for_n n i (\<lambda>i m. cbind (rd (text @ [0]) i) (\<lambda>ch. wrs m (i + message_pos) [ch, 0]))
           (pre @ take i text @ replicate (1007 - i) 0)
         = Inr (pre @ take (i + n) text @ replicate (1007 - (i + n)) 0)"
  using assms(2)
proof (induction n arbitrary: i)
  case (Suc n)
  have ch: "rd (text @ [0]) i = Inr (text ! i)" using Suc.prems by (simp add: nth_append)
  have z: "replicate (1007 - i) (0 :: byte) = 0 # 0 # replicate (1005 - i) 0"
  proof -
    have "1007 - i = Suc (Suc (1005 - i))" using Suc.prems assms(3) by linarith
    then show ?thesis by simp
  qed
  have "wrs (pre @ take i text @ replicate (1007 - i) 0) (i + message_pos) [text ! i, 0]
      = Inr (pre @ (take i text @ [text ! i]) @ 0 # replicate (1005 - i) 0)"
    using wrs_append_left[of "[text ! i, 0]" "replicate (1007 - i) 0" "pre @ take i text"] Suc.prems assms
    by (simp add: z add.commute)
  also have "take i text @ [text ! i] = take (Suc i) text" using Suc.prems by (simp add: take_Suc_conv_app_nth)
  also have "0 # replicate (1005 - i) (0 :: byte) = replicate (1007 - Suc i) 0"
  proof -
    have "1007 - Suc i = Suc (1005 - i)" using Suc.prems assms(3) by linarith
    then show ?thesis by simp
  qed
  finally show ?case using Suc.IH[of "Suc i"] Suc.prems ch by simp
qed simp

lemma add_data_text:
  assumes "length pre = message_pos" and "0 \<notin> set text" and "length text < 128"
  shows "add_data (pre @ replicate 1007 0) (text @ [0])
         = Inr (pre[message_length_pos := of_nat (length text)] @ text @ replicate (1007 - length text) 0)"
proof -
  have k: "strlen (text @ [0]) 0 = Inr (length text)" by (rule strlen_text[OF assms(2)])
  have s: "sint (of_nat (length text) :: byte) = int (length text)"
    using assms(3) by (simp add: sint_uint unsigned_of_nat signed_take_bit_eq_if_positive take_bit_eq_mod bit_iff_odd)
  show ?thesis
    using add_data_loop[of "pre[message_length_pos := of_nat (length text)]" 0 "length text" "text"] assms
    by (simp add: add_data_def k s list_update_append positions)
qed

lemma send_mac_message_frame:
  assumes "6 \<le> length frommac" and "6 \<le> length hwaddr" and "2 \<le> length fcs"
    and "0 \<notin> set text" and "length text < 128" and "0 < sock"
  shows "send_mac_message sock frommac hwaddr fcs (text @ [0]) =
    Inr (Some (take 6 frommac @ take 6 hwaddr @ [0x88, 0x8e] @ take 2 fcs @ [of_nat (length text)] @ text))"
proof -
  define pre :: mem where "pre = take 6 frommac @ take 6 hwaddr @ [0x88, 0x8e] @ take 2 fcs @ [0]"
  have l: "length pre = message_pos" using assms by (simp add: pre_def positions)
  have k: "strlen (text @ [0]) 0 = Inr (length text)" by (rule strlen_text[OF assms(4)])
  have "(replicate bufsize 0 :: mem) = replicate (6 + (6 + (2 + (2 + 1008)))) 0" by (simp add: bufsize_def)
  then have b: "(replicate bufsize 0 :: mem) = replicate 6 0 @ replicate 6 0 @ replicate 2 0 @ replicate 2 0 @ 0 # replicate 1007 0"
    by (simp only: replicate_add) (simp add: numeral_eq_Suc)
  have "pre[message_length_pos := of_nat (length text)] =
      take 6 frommac @ take 6 hwaddr @ [0x88, 0x8e] @ take 2 fcs @ [of_nat (length text)]"
    using assms by (simp add: pre_def positions list_update_append)
  moreover have "replicate 1008 (0 :: byte) = 0 # replicate 1007 0" "replicate 2 (0 :: byte) = [0, 0]"
    by (simp_all add: numeral_eq_Suc)
  moreover have "take (5 + length text) (a # b # u @ v # text @ z) = a # b # u @ v # text"
    if "length u = 2" for a b v :: byte and u z using that by (auto simp: numeral_eq_Suc)
  ultimately show ?thesis using add_data_text[OF l assms(4,5)] k assms
    by (simp add: send_mac_message_def b wrs_in positions pre_def list_update_append)
qed

text \<open>
  C9.  What send_mac_message puts into a frame is what handle_mac_message takes out of the buffer it is
  received in: the addresses, the protocol, and the message with null bytes behind it, for
  messages of less than 128 characters, the largest length a signed char holds.
\<close>

theorem frame_roundtrip:
  assumes "6 \<le> length frommac" and "6 \<le> length hwaddr" and "2 \<le> length fcs"
    and "0 \<notin> set text" and "length text < 128" and "0 < sock" and "length old = bufsize"
  shows "\<exists>f. send_mac_message sock frommac hwaddr fcs (text @ [0]) = Inr (Some f)
      \<and> take 6 f = take 6 frommac \<and> take 6 (drop 6 f) = take 6 hwaddr \<and> take 2 (drop 12 f) = [0x88, 0x8e]
      \<and> received_message (f @ drop (length f) old) = Inr (text @ replicate (message_size - length text) 0)"
proof -
  have s: "sint (of_nat (length text) :: byte) = int (length text)"
    using assms(5) by (simp add: sint_uint unsigned_of_nat signed_take_bit_eq_if_positive take_bit_eq_mod bit_iff_odd)
  show ?thesis
    using assms by (simp add: send_mac_message_frame received_message_def positions s nth_append wrs_in)
qed

theorem frame_roundtrip_witness:
  "\<exists>f. send_mac_message 3 [1, 2, 3, 4, 5, 6] [7, 8, 9, 10, 11, 12] [0x22, 0x22] (ascii ''getdev'' @ [0]) = Inr (Some f)
      \<and> take 6 f = take 6 [1, 2, 3, 4, 5, 6] \<and> take 6 (drop 6 f) = take 6 [7, 8, 9, 10, 11, 12] \<and> take 2 (drop 12 f) = [0x88, 0x8e]
      \<and> received_message (f @ drop (length f) (replicate bufsize 0))
          = Inr (ascii ''getdev'' @ replicate (message_size - length (ascii ''getdev'')) 0)"
  by (rule frame_roundtrip) (simp_all add: ascii_def)

text \<open>From 128 characters on the length is negative as a char: only the length byte is written.\<close>

lemma add_data_long:
  assumes "0 \<notin> set text" and "128 \<le> length text" and "length text < 256"
  shows "add_data m (text @ [0]) = wr m message_length_pos (of_nat (length text))"
proof -
  have k: "strlen (text @ [0]) 0 = Inr (length text)" by (rule strlen_text[OF assms(1)])
  have "int (length text) div 128 = 1"
    using assms(2,3) by (intro int_div_pos_eq[where r = "int (length text) - 128"]) simp_all
  moreover have "uint (of_nat (length text) :: byte) = int (length text)"
    using assms(3) by (simp add: unsigned_of_nat take_bit_eq_mod)
  ultimately have "bit (uint (of_nat (length text) :: byte)) 7" by (simp only: bit_iff_odd) simp
  then have "sint (of_nat (length text) :: byte) < 0" by (simp add: sint_uint)
  then have "nat (sint (of_nat (length text) :: byte)) = 0" by simp
  then show ?thesis by (simp add: add_data_def k cbind_Inr_iff) (cases "wr m message_length_pos (of_nat (length text))"; simp)
qed

text \<open>The answer to getdev does not fit its array of 128 characters.\<close>

lemma getdev_overflows:
  assumes "length r = bufsize" and "6 \<le> length hw"
    and "received_message r = Inr (ascii ''getdev'' @ replicate 122 0)"
  shows "handle_mac_message check sock (Some r) (Some hw) = Inl Write_oob"
proof -
  have "str_at (ascii ''getdev'' @ replicate 122 0) 0 = ascii ''getdev''"
    by (simp add: str_at_def ascii_def takeWhile_append)
  moreover have "take 13 (ascii ''getdev'') \<noteq> ascii ''ModifyNetInfo''" by (simp add: ascii_def)
  moreover have "message_size < length getdev_reply + 1" by (simp add: getdev_reply_def ascii_def message_size_def)
  ultimately show ?thesis using assms by (simp add: handle_mac_message_def positions Let_def)
qed

text \<open>Addresses of six bytes that agree are compared at a seventh.\<close>

lemma compare_reads_past: "length a = 6 \<Longrightarrow> compare a a = Inl Read_oob"
  by (simp add: compare_def numeral_eq_Suc)

text \<open>
  A request with an address out of range is answered as a success: the -1 of check_ip_format is not 0.
\<close>

definition modify_request :: mem where
  "modify_request = replicate 16 0 @ [61] @ ascii ''ModifyNetInfo 07:08:09:0a:0b:0c 999.1.1.1 1.1.1.1 2552.0.0.0'' @ [0]"

definition mac_check :: "byte list \<Rightarrow> int" where
  "mac_check s = (case mac_check_ip_format (Some (s @ [0])) of Inl _ \<Rightarrow> 0 | Inr v \<Rightarrow> v)"

lemma modify_request_accepted:
  "map_sum id (\<lambda>(v, f). (v, map_option (drop 17) f)) (handle_mac_message mac_check 3 (Some modify_request) (Some [7, 8, 9, 10, 11, 12]))
     = Inr (0, Some (ascii ''ModifyNetInfoStatus:1''))"
  by code_simp

section \<open>Names of devices\<close>

lemma skip_spaces_run:
  "list_all is_space sp \<Longrightarrow> \<not> is_space b \<Longrightarrow> skip_spaces (a @ sp @ b # z) (length a) = Inr (length a + length sp)"
proof (induction sp arbitrary: a)
  case Nil
  then show ?case by (simp add: skip_spaces.simps)
next
  case (Cons s sp)
  then show ?case using Cons.IH[of "a @ [s]"] by (simp add: skip_spaces.simps[of _ "length a"] rd_def nth_append)
qed

lemma copy_digits_run:
  "list_all is_digit ds \<Longrightarrow> \<not> is_digit b \<Longrightarrow> length ds \<le> length rest \<Longrightarrow>
     copy_digits (a @ ds @ b # z) (length a) (nm @ rest) (length nm)
       = Inr (length a + length ds, nm @ ds @ drop (length ds) rest, length nm + length ds)"
proof (induction ds arbitrary: a nm rest)
  case Nil
  then show ?case by (simp add: copy_digits.simps)
next
  case (Cons d ds)
  then obtain r rest' where r: "rest = r # rest'" by (cases rest) auto
  then show ?case using Cons.prems Cons.IH[of rest' "a @ [d]" "nm @ [d]"]
    by (simp add: copy_digits.simps[of _ "length a"] rd_def nth_append)
qed

lemma name_loop_run:
  "0 \<notin> set nm \<Longrightarrow> list_all (\<lambda>b. \<not> is_space b \<and> b \<noteq> 58) nm \<Longrightarrow> length nm \<le> length rest \<Longrightarrow>
     name_loop (a @ nm @ z) (length a) (u @ rest) (length u)
       = name_loop (a @ nm @ z) (length a + length nm) (u @ nm @ drop (length nm) rest) (length u + length nm)"
proof (induction nm arbitrary: a u rest)
  case (Cons d nm)
  then obtain r rest' where r: "rest = r # rest'" by (cases rest) auto
  then show ?case using Cons.prems Cons.IH[of rest' "a @ [d]" "u @ [d]"]
    by (simp add: name_loop.simps[of _ "length a"] rd_def nth_append)
qed simp

text \<open>
  get_name on a line of /proc/net/dev: after the spaces it takes the name up to the colon; when the
  colon is followed by digits and another colon, the colon and the digits belong to the name, and
  otherwise the digits are copied but taken back.  The result points behind the last colon.
\<close>

theorem get_name_line:
  assumes "list_all is_space sp" and "nm \<noteq> []" and "0 \<notin> set nm" and "list_all (\<lambda>b. \<not> is_space b \<and> b \<noteq> 58) nm"
    and "list_all is_digit ds" and "\<not> is_digit b" and "length nm + length ds + 2 \<le> length name"
  shows "\<exists>name'. get_name name (sp @ nm @ 58 # ds @ b # z) 0 =
           Inr (name', Some (if b = 58 then length sp + length nm + length ds + 2 else length sp + length nm + 1))
      \<and> str_at name' 0 = (if b = 58 then nm @ 58 # ds else nm)"
proof -
  let ?m = "sp @ nm @ 58 # ds @ b # z"
  obtain d nm' where nm: "nm = d # nm'" using assms(2) by (cases nm) auto
  have sk: "skip_spaces ?m 0 = Inr (length sp)"
    using skip_spaces_run[of sp d "[]" "nm' @ 58 # ds @ b # z"] assms(1,4) by (simp add: nm)
  define rest where "rest = drop (length nm) name"
  have lr: "length ds + 2 \<le> length rest" using assms(7) by (simp add: rest_def)
  then obtain r rest' where r: "rest = r # rest'" "length ds + 1 \<le> length rest'" by (cases rest) auto
  have nl: "name_loop ?m (length sp) name 0 = name_loop ?m (length (sp @ nm)) (nm @ rest) (length nm)"
    using name_loop_run[of nm name sp "58 # ds @ b # z" "[]"] assms by (simp add: rest_def)
  have cd: "copy_digits ?m (Suc (length sp + length nm)) (nm @ 58 # rest') (Suc (length nm)) =
      Inr (length sp + length nm + 1 + length ds, nm @ 58 # ds @ drop (length ds) rest', length nm + 1 + length ds)"
    using copy_digits_run[of ds b rest' "sp @ nm @ [58]" z "nm @ [58]"] assms r by simp
  obtain t rest'' where t: "drop (length ds) rest' = t # rest''" using r by (cases "drop (length ds) rest'") auto
  have nb: "?m ! (length sp + length nm) = 58" "?m ! (length sp + length nm + 1 + length ds) = b"
    by (simp_all add: nth_append)
  show ?thesis
  proof (cases "b = 58")
    case True
    then have "name_loop ?m (length sp) name 0 =
        Inr (Some (length sp + length nm + length ds + 2, nm @ 58 # ds @ t # rest'', length nm + 1 + length ds))"
      using nl cd nb by (simp add: name_loop.simps[of _ "length sp + length nm"] rd_def r t is_space_def)
    moreover have "0 \<notin> set (nm @ 58 # ds)" using assms(3,5) by (auto simp: list_all_iff is_digit_def word_le_def)
    ultimately show ?thesis using sk True takeWhile_no_zero[of "nm @ 58 # ds" rest'']
      by (simp add: get_name_def str_at_def list_update_append)
  next
    case False
    then have "name_loop ?m (length sp) name 0 =
        Inr (Some (length sp + length nm + 1, nm @ 58 # ds @ t # rest'', length nm))"
      using nl cd nb by (simp add: name_loop.simps[of _ "length sp + length nm"] rd_def r t is_space_def)
    with sk False takeWhile_no_zero[OF assms(3)] show ?thesis
      by (simp add: get_name_def str_at_def list_update_append)
  qed
qed

theorem get_name_line_witness:
  "(\<exists>name'. get_name (replicate 16 7) ([32, 32] @ ascii ''eth0'' @ 58 # ascii ''1'' @ 58 # [32, 0]) 0 =
           Inr (name', Some (if (58 :: byte) = 58 then length [32, 32 :: byte] + length (ascii ''eth0'') + length (ascii ''1'') + 2
             else length [32, 32 :: byte] + length (ascii ''eth0'') + 1))
      \<and> str_at name' 0 = (if (58 :: byte) = 58 then ascii ''eth0'' @ 58 # ascii ''1'' else ascii ''eth0''))"
  by (rule get_name_line) (simp_all add: ascii_def is_space_def is_digit_def)

text \<open>
  The number of names is not counted, so a file with one line more than the caller has room for is
  written past the array.
\<close>

lemma read_netdev_proc_overflow:
  "read_netdev_proc (replicate IFNAMSIZ 0) (Some (replicate 4 0)) 1 4
     (Some (ascii ''a'' @ [10] @ ascii ''b'' @ [10] @ ascii ''lo: 1'' @ [10] @ ascii ''eth0: 2'' @ [10])) = Inl Write_oob"
  by code_simp

lemma read_netdev_proc_fits:
  "map_sum id snd (read_netdev_proc (replicate IFNAMSIZ 0) (Some (replicate 8 0)) 2 4
     (Some (ascii ''a'' @ [10] @ ascii ''b'' @ [10] @ ascii ''lo: 1'' @ [10] @ ascii ''eth0: 2'' @ [10])))
   = Inr (Some (ascii ''lo'' @ [0, 0] @ ascii ''eth0''))"
  by code_simp

text \<open>What follows the fourth number is not looked at.\<close>

lemma check_ip_format_trailing:
  "check_ip_format (Some (ascii ''1.2.3.4junk'' @ [0])) = Inr 1"
  "check_ip_format (Some (ascii ''1.2.3.256'' @ [0])) = Inr 0"
  "check_ip_format (Some (ascii ''1.2.3'' @ [0])) = Inr 0"
  by code_simp+

end
