(* ===== verification/P2P_Server.thy ===== *)
theory P2P_Server
  imports C_Prelude
begin

text \<open>
  The server that introduces two clients behind address translators to each other
  (P2P/P2PServer/P2PServer.cpp) and the messages of the protocol (P2P/proto.h).  The server keeps a
  list of users with the address each logged in from; one pass of its loop takes a datagram and its
  sender and gives the packets that are sent and the new state.  An exception ends the program with
  status 1.
\<close>

section \<open>Messages\<close>

type_synonym ip = "32 word"
type_synonym port = "16 word"
type_synonym endpoint = "ip \<times> port"

definition LOGIN :: int where "LOGIN = 1"
definition LOGOUT :: int where "LOGOUT = 2"
definition P2PTRANS :: int where "P2PTRANS = 3"
definition GETALLUSER :: int where "GETALLUSER = 4"
definition P2PMESSAGE :: int where "P2PMESSAGE = 100"
definition P2PMESSAGEACK :: int where "P2PMESSAGEACK = 101"
definition P2PSOMEONEWANTTOCALLYOU :: int where "P2PSOMEONEWANTTOCALLYOU = 102"
definition P2PTRASH :: int where "P2PTRASH = 103"
definition SERVER_PORT :: port where "SERVER_PORT = 2280"

lemmas message_types = LOGIN_def LOGOUT_def P2PTRANS_def GETALLUSER_def P2PMESSAGE_def P2PMESSAGEACK_def
  P2PSOMEONEWANTTOCALLYOU_def P2PTRASH_def

definition NAME_LEN :: nat where "NAME_LEN = 10"

text \<open>\<open>struct stUserListNode\<close>; the address is in host order.\<close>

record user =
  uname :: mem
  uip :: ip
  uport :: port

text \<open>
  What is sent: \<open>struct stMessage\<close> as its 24 bytes, an int, a user node, \<open>struct stP2PMessage\<close> (with
  \<open>None\<close> for a field that was not written), and text.
\<close>

datatype packet =
    Message mem
  | Number int
  | User user
  | P2p int "32 word option" "port option"
  | Text mem

text \<open>\<open>struct stMessage\<close>: an int, least significant byte first, and a union of 20 bytes.\<close>

definition MESSAGE_SIZE :: nat where "MESSAGE_SIZE = 24"

definition word_bytes :: "32 word \<Rightarrow> byte list" where
  "word_bytes w = [ucast w, ucast (drop_bit 8 w), ucast (drop_bit 16 w), ucast (drop_bit 24 w)]"

definition bytes_word :: "byte list \<Rightarrow> 32 word" where
  "bytes_word bs = ucast (bs ! 0) OR push_bit 8 (ucast (bs ! 1)) OR push_bit 16 (ucast (bs ! 2)) OR push_bit 24 (ucast (bs ! 3))"

definition int_bytes :: "int \<Rightarrow> byte list" where
  "int_bytes i = word_bytes (word_of_int i)"

definition bytes_int :: "byte list \<Rightarrow> int" where
  "bytes_int bs = sint (bytes_word bs)"

text \<open>All three members of the union begin with the name.\<close>

definition message_name :: "mem \<Rightarrow> mem" where
  "message_name m = take NAME_LEN (drop 4 m)"

section \<open>Names\<close>

text \<open>strcmp reads both strings up to the first difference or the end.\<close>

fun strcmp_eq :: "mem \<Rightarrow> mem \<Rightarrow> bool c" where
  "strcmp_eq (a # as) (b # bs) = (if a \<noteq> b then Inr False else if a = 0 then Inr True else strcmp_eq as bs)"
| "strcmp_eq _ _ = Inl Read_oob"

text \<open>strcpy into a cleared array of the given size.\<close>

definition strcpy_new :: "nat \<Rightarrow> mem \<Rightarrow> mem c" where
  "strcpy_new n src = cbind (strlen src 0) (\<lambda>k. wrs (replicate n 0) 0 (take (k + 1) src))"

text \<open>The first user of that name and his place, or \<open>None\<close>.\<close>

fun find_user :: "user list \<Rightarrow> mem \<Rightarrow> nat \<Rightarrow> (nat \<times> user) option c" where
  "find_user [] name i = Inr None"
| "find_user (u # us) name i =
     cbind (strcmp_eq (uname u) name) (\<lambda>e. if e then Inr (Some (i, u)) else find_user us name (i + 1))"

definition GetUser :: "user list \<Rightarrow> mem \<Rightarrow> user c" where
  "GetUser us name = cbind (find_user us name 0) (\<lambda>r. case r of None \<Rightarrow> Inl (Exit 1) | Some (_, u) \<Rightarrow> Inr u)"

section \<open>One pass of the loop\<close>

record p2pserver =
  recvbuf :: mem
  clients :: "user list"

definition send_users :: "user list \<Rightarrow> endpoint \<Rightarrow> (packet \<times> endpoint) list" where
  "send_users us to = (Number (int (length us)), to) # map (\<lambda>u. (User u, to)) us"

definition server_login :: "p2pserver \<Rightarrow> endpoint \<Rightarrow> ((packet \<times> endpoint) list \<times> p2pserver) c" where
  "server_login s sender =
     cbind (strcpy_new NAME_LEN (message_name (recvbuf s))) (\<lambda>n.
       let us = clients s @ [\<lparr>uname = n, uip = fst sender, uport = snd sender\<rparr>] in
       Inr (send_users us sender, s\<lparr>clients := us\<rparr>))"

definition server_logout :: "p2pserver \<Rightarrow> ((packet \<times> endpoint) list \<times> p2pserver) c" where
  "server_logout s =
     cbind (find_user (clients s) (message_name (recvbuf s)) 0) (\<lambda>r.
       case r of None \<Rightarrow> Inr ([], s)
       | Some (i, _) \<Rightarrow> Inr ([], s\<lparr>clients := take i (clients s) @ drop (i + 1) (clients s)\<rparr>))"

definition server_p2ptrans :: "p2pserver \<Rightarrow> endpoint \<Rightarrow> ((packet \<times> endpoint) list \<times> p2pserver) c" where
  "server_p2ptrans s sender =
     cbind (GetUser (clients s) (message_name (recvbuf s))) (\<lambda>u.
       Inr ([(P2p P2PSOMEONEWANTTOCALLYOU (Some (fst sender)) (Some (snd sender)), (uip u, uport u))], s))"

text \<open>The switch on the type of the message in the buffer.\<close>

definition server_handle :: "p2pserver \<Rightarrow> endpoint \<Rightarrow> ((packet \<times> endpoint) list \<times> p2pserver) c" where
  "server_handle s sender =
     (let messageType = bytes_int (recvbuf s) in
      if messageType = LOGIN then server_login s sender
      else if messageType = LOGOUT then server_logout s
      else if messageType = P2PTRANS then server_p2ptrans s sender
      else if messageType = GETALLUSER then
        Inr ((Number GETALLUSER, sender) # send_users (clients s) sender, s)
      else Inr ([], s))"

text \<open>
  A datagram is stored over what the buffer held.  An empty one, an error (\<open>None\<close>) and one that is
  too long, of which the call stores the first part before it fails, are skipped.
\<close>

definition server_step :: "p2pserver \<Rightarrow> byte list option \<Rightarrow> endpoint \<Rightarrow> ((packet \<times> endpoint) list \<times> p2pserver) c" where
  "server_step s d sender =
     (case d of None \<Rightarrow> Inr ([], s)
      | Some d \<Rightarrow>
          if d = [] then Inr ([], s)
          else if MESSAGE_SIZE < length d then Inr ([], s\<lparr>recvbuf := take MESSAGE_SIZE d\<rparr>)
          else server_handle (s\<lparr>recvbuf := d @ drop (length d) (recvbuf s)\<rparr>) sender)"

definition server_start :: p2pserver where
  "server_start = \<lparr>recvbuf = replicate MESSAGE_SIZE 0, clients = []\<rparr>"

text \<open>
  The endless loop on a sequence of datagrams, after WSAStartup and bind have succeeded or not.  The
  test of the socket in \<open>mksock\<close> never fails, since the type SOCKET is unsigned.
\<close>

fun server_loop :: "(byte list option \<times> endpoint) list \<Rightarrow> p2pserver \<Rightarrow> ((packet \<times> endpoint) list \<times> p2pserver) c" where
  "server_loop [] s = Inr ([], s)"
| "server_loop ((d, sender) # ds) s =
     cbind (server_step s d sender) (\<lambda>(out, s). cbind (server_loop ds s) (\<lambda>(out', s). Inr (out @ out', s)))"

definition server_main :: "bool \<Rightarrow> bool \<Rightarrow> (byte list option \<times> endpoint) list \<Rightarrow> ((packet \<times> endpoint) list \<times> p2pserver) c" where
  "server_main startup bound ds =
     (if \<not> startup \<or> \<not> bound then Inl (Exit 1) else server_loop ds server_start)"

section \<open>Numbers in memory\<close>

lemma bytes_word_bytes: "bytes_word (word_bytes w @ r) = w"
proof (rule bit_word_eqI)
  fix n
  assume "n < LENGTH(32)"
  then have n: "n < 32" by simp
  then consider "n < 8" | "8 \<le> n" "n < 16" | "16 \<le> n" "n < 24" | "24 \<le> n" by linarith
  then show "bit (bytes_word (word_bytes w @ r)) n = bit w n"
    using n by cases (auto simp: bytes_word_def word_bytes_def bit_or_iff bit_push_bit_iff bit_ucast_iff bit_drop_bit_eq)
qed

lemma bytes_int_bytes: "in_int i \<Longrightarrow> bytes_int (int_bytes i @ r) = i"
  by (simp add: bytes_int_def int_bytes_def bytes_word_bytes in_int_def int_min_def int_max_def signed_of_int
        signed_take_bit_int_eq_self)

lemma message_type_bytes:
  "t \<in> {LOGIN, LOGOUT, P2PTRANS, GETALLUSER, P2PMESSAGE, P2PMESSAGEACK, P2PSOMEONEWANTTOCALLYOU, P2PTRASH} \<Longrightarrow>
     bytes_int (int_bytes t @ r) = t"
  by (rule bytes_int_bytes) (auto simp: message_types in_int_def int_min_def int_max_def)

lemma length_word_bytes [simp]: "length (int_bytes t) = 4" "length (word_bytes w) = 4"
  by (simp_all add: int_bytes_def word_bytes_def)

section \<open>The directory\<close>

text \<open>What the server is for: a list of names with addresses.\<close>

type_synonym directory = "(byte list \<times> endpoint) list"

datatype request = Login "byte list" | Logout "byte list" | Trans "byte list" | All | Other

definition node_of :: "byte list \<times> endpoint \<Rightarrow> user" where
  "node_of e = \<lparr>uname = fst e @ replicate (NAME_LEN - length (fst e)) 0, uip = fst (snd e), uport = snd (snd e)\<rparr>"

definition entry_of :: "user \<Rightarrow> byte list \<times> endpoint" where
  "entry_of u = (str_at (uname u) 0, uip u, uport u)"

fun remove_name :: "byte list \<Rightarrow> directory \<Rightarrow> directory" where
  "remove_name nm [] = []"
| "remove_name nm (e # es) = (if fst e = nm then es else e # remove_name nm es)"

fun dir_step :: "directory \<Rightarrow> request \<Rightarrow> endpoint \<Rightarrow> ((packet \<times> endpoint) list \<times> directory) c" where
  "dir_step es (Login nm) sender =
     (let es' = es @ [(nm, sender)] in Inr (send_users (map node_of es') sender, es'))"
| "dir_step es (Logout nm) sender = Inr ([], remove_name nm es)"
| "dir_step es (Trans nm) sender =
     (case map_of es nm of None \<Rightarrow> Inl (Exit 1)
      | Some to \<Rightarrow> Inr ([(P2p P2PSOMEONEWANTTOCALLYOU (Some (fst sender)) (Some (snd sender)), to)], es))"
| "dir_step es All sender = Inr ((Number GETALLUSER, sender) # send_users (map node_of es) sender, es)"
| "dir_step es Other sender = Inr ([], es)"

definition request_of :: "mem \<Rightarrow> request" where
  "request_of buf =
     (let t = bytes_int buf; nm = str_at (message_name buf) 0 in
      if t = LOGIN then Login nm else if t = LOGOUT then Logout nm else if t = P2PTRANS then Trans nm
      else if t = GETALLUSER then All else Other)"

definition directory :: "p2pserver \<Rightarrow> directory" where
  "directory s = map entry_of (clients s)"

definition user_ok :: "user \<Rightarrow> bool" where
  "user_ok u \<longleftrightarrow> node_of (entry_of u) = u \<and> length (str_at (uname u) 0) < NAME_LEN"

definition server_ok :: "p2pserver \<Rightarrow> bool" where
  "server_ok s \<longleftrightarrow> length (recvbuf s) = MESSAGE_SIZE \<and> list_all user_ok (clients s)"

lemma strcmp_eq_names:
  "0 \<in> set a \<Longrightarrow> length a = length b \<Longrightarrow> strcmp_eq a b = Inr (0 \<in> set b \<and> str_at a 0 = str_at b 0)"
proof (induction a b rule: strcmp_eq.induct)
  case (1 a as b bs)
  then show ?case by (cases "a = 0") (auto simp: str_at_def)
qed auto

lemma strcmp_eq_strings: "0 \<in> set a \<Longrightarrow> 0 \<in> set b \<Longrightarrow> strcmp_eq a b = Inr (str_at a 0 = str_at b 0)"
proof (induction a b rule: strcmp_eq.induct)
  case (1 a as b bs)
  then show ?case by (cases "a = 0") (auto simp: str_at_def)
qed auto

lemma user_ok_name: "user_ok u \<Longrightarrow> 0 \<in> set (uname u) \<and> length (uname u) = NAME_LEN"
proof -
  assume u: "user_ok u"
  let ?n = "str_at (uname u) 0"
  have n: "length ?n < NAME_LEN" using u by (simp add: user_ok_def)
  have "uname u = uname (node_of (entry_of u))" using u by (simp add: user_ok_def)
  also have "\<dots> = ?n @ replicate (NAME_LEN - length ?n) 0" by (simp add: node_of_def entry_of_def)
  finally have e: "uname u = ?n @ replicate (NAME_LEN - length ?n) 0" .
  show ?thesis by (subst e, subst (3) e) (use n in simp)
qed

lemma find_user_cases:
  assumes "list_all user_ok us" and "length name = NAME_LEN" and "0 \<in> set name"
  obtains (none) "find_user us name i = Inr None" "str_at name 0 \<notin> fst ` entry_of ` set us"
  | (some) xs u ys where "us = xs @ u # ys" "find_user us name i = Inr (Some (i + length xs, u))"
      "str_at name 0 \<notin> fst ` entry_of ` set xs" "fst (entry_of u) = str_at name 0"
  using assms(1)
proof (induction us arbitrary: i thesis)
  case (Cons v us)
  have c: "strcmp_eq (uname v) name = Inr (str_at (uname v) 0 = str_at name 0)"
    using strcmp_eq_names[of "uname v" name] user_ok_name[of v] Cons.prems assms by simp
  show ?case
  proof (cases "str_at (uname v) 0 = str_at name 0")
    case True
    then show ?thesis using c by (intro Cons.prems(2)[of "[]" v us]) (simp_all add: entry_of_def)
  next
    case False
    show ?thesis
    proof (rule Cons.IH[of "i + 1"])
      assume "find_user us name (i + 1) = Inr None" "str_at name 0 \<notin> fst ` entry_of ` set us"
      then show ?thesis using c False by (intro Cons.prems(1)) (auto simp: entry_of_def)
    next
      fix xs u ys
      assume "us = xs @ u # ys" "find_user us name (i + 1) = Inr (Some (i + 1 + length xs, u))"
        "str_at name 0 \<notin> fst ` entry_of ` set xs" "fst (entry_of u) = str_at name 0"
      then show ?thesis using c False by (intro Cons.prems(2)[of "v # xs" u ys]) (auto simp: entry_of_def)
    qed (use Cons.prems in simp)
  qed
qed simp

lemma remove_name_skip: "nm \<notin> fst ` set es \<Longrightarrow> remove_name nm (es @ fs) = es @ remove_name nm fs"
  by (induction es) auto

lemma strcpy_new_name:
  assumes "length name = NAME_LEN" and "0 \<in> set name"
  shows "strcpy_new NAME_LEN name = Inr (str_at name 0 @ replicate (NAME_LEN - length (str_at name 0)) 0)"
    and "length (str_at name 0) < NAME_LEN"
proof -
  obtain xs z where xz: "name = xs @ 0 # z" "0 \<notin> set xs" using split_list_first[OF assms(2)] by auto
  then have z: "name = str_at name 0 @ 0 # z" by (simp add: str_at_def takeWhile_no_zero)
  then have l: "length (str_at name 0) < length name" by (metis length_append length_Cons less_add_Suc1 add_Suc_right)
  with assms show "length (str_at name 0) < NAME_LEN" by simp
  have "take (length (str_at name 0) + 1) name = str_at name 0 @ [0]" by (subst (2) z) simp
  moreover have "strlen name 0 = Inr (length (str_at name 0))" using assms(2) by (simp add: strlen_def str_at_def)
  moreover have "NAME_LEN - length (str_at name 0) = Suc (NAME_LEN - Suc (length (str_at name 0)))" using l assms by simp
  ultimately show "strcpy_new NAME_LEN name = Inr (str_at name 0 @ replicate (NAME_LEN - length (str_at name 0)) 0)"
    using l assms by (simp add: strcpy_new_def wrs_in)
qed

lemma user_ok_new:
  assumes "0 \<notin> set nm" and "length nm < NAME_LEN"
  shows "user_ok (node_of (nm, e))" and "entry_of (node_of (nm, e)) = (nm, e)"
proof -
  have "replicate (NAME_LEN - length nm) (0 :: byte) = 0 # replicate (NAME_LEN - length nm - 1) 0"
    using assms(2) by (simp flip: replicate_Suc)
  then have "str_at (nm @ replicate (NAME_LEN - length nm) 0) 0 = nm"
    using takeWhile_no_zero[OF assms(1)] by (simp add: str_at_def)
  then show "user_ok (node_of (nm, e))" "entry_of (node_of (nm, e)) = (nm, e)"
    using assms(2) by (simp_all add: user_ok_def node_of_def entry_of_def)
qed

lemma str_at_no_zero: "0 \<notin> set (str_at m p)"
  by (auto simp: str_at_def dest: set_takeWhileD)

text \<open>Every branch of the switch is a step of the directory.\<close>

definition simulates :: "((packet \<times> endpoint) list \<times> p2pserver) c \<Rightarrow> ((packet \<times> endpoint) list \<times> directory) c \<Rightarrow> bool" where
  "simulates r r' \<longleftrightarrow> (case (r, r') of (Inl e, Inl e') \<Rightarrow> e = e'
     | (Inr (out, s), Inr (out', es)) \<Rightarrow> server_ok s \<and> out = out' \<and> directory s = es | _ \<Rightarrow> False)"

lemma simulates_simps [simp]:
  "simulates (Inl e) (Inl e') \<longleftrightarrow> e = e'"
  "simulates (Inr (out, s)) (Inr (out', es)) \<longleftrightarrow> server_ok s \<and> out = out' \<and> directory s = es"
  by (simp_all add: simulates_def)

lemma directory_nodes: "server_ok s \<Longrightarrow> map node_of (directory s) = clients s"
  by (auto simp: server_ok_def directory_def list_all_iff user_ok_def map_idI)

lemma server_handle_ok:
  assumes "server_ok s" and "0 \<in> set (message_name (recvbuf s))"
  shows "simulates (server_handle s e) (dir_step (directory s) (request_of (recvbuf s)) e)"
proof -
  let ?n = "message_name (recvbuf s)" and ?nm = "str_at (message_name (recvbuf s)) 0"
  have l: "length ?n = NAME_LEN" using assms(1) by (simp add: server_ok_def message_name_def MESSAGE_SIZE_def NAME_LEN_def)
  have us: "list_all user_ok (clients s)" using assms(1) by (simp add: server_ok_def)
  have ds: "fst ` set (directory s) = fst ` entry_of ` set (clients s)" by (simp add: directory_def)
  consider (login) "bytes_int (recvbuf s) = LOGIN" | (logout) "bytes_int (recvbuf s) = LOGOUT"
    | (trans) "bytes_int (recvbuf s) = P2PTRANS" | (all) "bytes_int (recvbuf s) = GETALLUSER"
    | (other) "bytes_int (recvbuf s) \<notin> {LOGIN, LOGOUT, P2PTRANS, GETALLUSER}" by blast
  then show ?thesis
  proof cases
    case login
    have n: "\<lparr>uname = ?nm @ replicate (NAME_LEN - length ?nm) 0, uip = fst e, uport = snd e\<rparr> = node_of (?nm, e)"
      by (simp add: node_of_def)
    show ?thesis
      using assms login us directory_nodes[OF assms(1)] strcpy_new_name(1)[OF l assms(2)]
        user_ok_new[OF str_at_no_zero strcpy_new_name(2)[OF l assms(2)], of e]
      by (simp add: server_handle_def request_of_def server_login_def n server_ok_def Let_def) (simp add: directory_def)
  next
    case logout
    from us l assms(2) show ?thesis
    proof (cases rule: find_user_cases[of _ _ 0])
      case none
      then show ?thesis using assms logout remove_name_skip[of ?nm "directory s" "[]"] ds
        by (simp add: server_handle_def request_of_def server_logout_def message_types)
    next
      case (some xs u ys)
      then show ?thesis using assms logout remove_name_skip[of ?nm "map entry_of xs"]
        by (simp add: server_handle_def request_of_def server_logout_def message_types server_ok_def directory_def)
    qed
  next
    case trans
    from us l assms(2) show ?thesis
    proof (cases rule: find_user_cases[of _ _ 0])
      case none
      then have "map_of (directory s) ?nm = None" using ds by (simp add: map_of_eq_None_iff)
      then show ?thesis using none trans
        by (simp add: server_handle_def request_of_def server_p2ptrans_def GetUser_def message_types)
    next
      case (some xs u ys)
      then have "map_of (directory s) ?nm = Some (uip u, uport u)"
      proof -
        have "map_of (map entry_of xs) ?nm = None" using some(3) by (simp add: map_of_eq_None_iff)
        then show ?thesis using some(1,4) by (simp add: directory_def map_add_def) (simp add: entry_of_def)
      qed
      then show ?thesis using some trans assms
        by (simp add: server_handle_def request_of_def server_p2ptrans_def GetUser_def message_types)
    qed
  qed (use assms directory_nodes[OF assms(1)] in \<open>simp_all add: server_handle_def request_of_def message_types\<close>)
qed

lemma server_step_ok:
  assumes "server_ok s" and "d \<noteq> []" and "length d \<le> MESSAGE_SIZE"
    and "0 \<in> set (message_name (d @ drop (length d) (recvbuf s)))"
  shows "simulates (server_step s (Some d) e) (dir_step (directory s) (request_of (d @ drop (length d) (recvbuf s))) e)"
proof -
  let ?s = "s\<lparr>recvbuf := d @ drop (length d) (recvbuf s)\<rparr>"
  have "server_ok ?s" "directory ?s = directory s" using assms(1,3) by (simp_all add: server_ok_def directory_def)
  then show ?thesis using server_handle_ok[of ?s e] assms by (simp add: server_step_def)
qed

section \<open>Runs\<close>

text \<open>The states the server can be in after a sequence of datagrams.\<close>

inductive server_reach :: "(byte list option \<times> endpoint) list \<Rightarrow> p2pserver \<Rightarrow> bool" where
  start: "server_reach [] server_start"
| step: "server_reach ds s \<Longrightarrow> server_step s d e = Inr (out, s') \<Longrightarrow> server_reach (ds @ [(d, e)]) s'"

inductive_cases server_reach_snocE: "server_reach (ds @ [(d, e)]) s"

lemma server_handle_clients:
  "server_handle s e = Inr (out, s') \<Longrightarrow>
     set (clients s') \<subseteq> set (clients s) \<union> {u. (uip u, uport u) = e} \<and> recvbuf s' = recvbuf s \<and>
     (0 \<in> set (message_name (recvbuf s)) \<or> set (clients s') \<subseteq> set (clients s))"
  using set_take_subset set_drop_subset
  by (fastforce simp: server_handle_def server_login_def server_logout_def server_p2ptrans_def Let_def
        strcpy_new_def strlen_def elim!: cbindE split: if_splits option.splits)

lemma server_step_keeps:
  assumes "server_ok s" and "server_step s d e = Inr (out, s')"
  shows "server_ok s' \<and> set (clients s') \<subseteq> set (clients s) \<union> {u. (uip u, uport u) = e}"
proof (cases d)
  case None
  with assms show ?thesis by (simp add: server_step_def)
next
  case (Some b)
  let ?s = "s\<lparr>recvbuf := b @ drop (length b) (recvbuf s)\<rparr>"
  consider "b = []" | "MESSAGE_SIZE < length b" | "b \<noteq> []" "length b \<le> MESSAGE_SIZE" by fastforce
  then show ?thesis
  proof cases
    case 3
    then have s': "server_handle ?s e = Inr (out, s')" using Some assms(2) by (simp add: server_step_def)
    have ok: "server_ok ?s" using assms(1) 3 by (simp add: server_ok_def)
    note cl = server_handle_clients[OF s']
    show ?thesis
    proof (cases "0 \<in> set (message_name (recvbuf ?s))")
      case True
      have "simulates (Inr (out, s')) (dir_step (directory ?s) (request_of (recvbuf ?s)) e)"
        using server_handle_ok[OF ok True, of e] by (simp add: s')
      then show ?thesis using cl by (auto simp: simulates_def split: sum.splits)
    next
      case False
      with cl ok show ?thesis by (auto simp: server_ok_def list_all_iff)
    qed
  qed (use Some assms in \<open>auto simp: server_step_def server_ok_def split: if_splits\<close>)
qed

lemma server_start_ok: "server_ok server_start"
  by (simp add: server_ok_def server_start_def)

lemma server_reach_ok:
  "server_reach ds s \<Longrightarrow> server_ok s \<and> (\<forall>u \<in> set (clients s). (uip u, uport u) \<in> snd ` set ds)"
proof (induction rule: server_reach.induct)
  case start
  then show ?case using server_start_ok by (simp add: server_start_def)
next
  case (step ds s d e out s')
  then have "server_ok s'" "set (clients s') \<subseteq> set (clients s) \<union> {u. (uip u, uport u) = e}"
    using server_step_keeps by blast+
  with step.IH show ?case by auto
qed

lemma server_loop_reach: "server_reach ds s \<Longrightarrow> server_loop ds' s = Inr (out, s') \<Longrightarrow> server_reach (ds @ ds') s'"
proof (induction ds' arbitrary: ds s out)
  case (Cons x ds')
  obtain d e where x: "x = (d, e)" by (cases x)
  from Cons.prems(2) obtain o1 s1 o2 where "server_step s d e = Inr (o1, s1)" "server_loop ds' s1 = Inr (o2, s')"
    by (auto simp: x elim!: cbindE)
  with Cons.IH[of "ds @ [x]" s1 o2] server_reach.step[OF Cons.prems(1)] x show ?case by simp
qed simp

text \<open>
  C8.  Whatever datagrams arrive, as long as the server runs its list is well-formed, every name in it is
  terminated within its ten bytes, and every address in it is one from which a datagram came.
\<close>

theorem server_list_from_senders:
  assumes "server_main startup bound ds = Inr (out, s)" and "u \<in> set (clients s)"
  shows "server_ok s \<and> 0 \<in> set (uname u) \<and> length (uname u) = NAME_LEN \<and> (uip u, uport u) \<in> snd ` set ds"
proof -
  have "server_reach ds s"
    using assms(1) server_loop_reach[OF server_reach.start] by (auto simp: server_main_def split: if_splits)
  from server_reach_ok[OF this] assms(2) user_ok_name[of u] show ?thesis
    by (auto simp: server_ok_def list_all_iff)
qed

text \<open>A client's message: the type, the name, and ten bytes more.\<close>

definition message_of :: "int \<Rightarrow> byte list \<Rightarrow> byte list \<Rightarrow> byte list" where
  "message_of t nm pw = int_bytes t @ strncpy_bytes nm NAME_LEN @ take 10 (pw @ replicate 10 0)"

definition alice :: "byte list" where "alice = ascii ''alice''"

theorem server_list_from_senders_witness:
  "\<exists>out s u. server_main True True [(Some (message_of LOGIN alice []), (7, 8))] = Inr (out, s) \<and> u \<in> set (clients s) \<and>
    server_ok s \<and> 0 \<in> set (uname u) \<and> length (uname u) = NAME_LEN \<and> (uip u, uport u) \<in> snd ` {(Some (message_of LOGIN alice []), (7, 8))}"
proof -
  let ?u = "\<lparr>uname = alice @ replicate 5 0, uip = 7, uport = 8\<rparr>"
  have "map_sum id (\<lambda>(out, s). clients s) (server_main True True [(Some (message_of LOGIN alice []), (7, 8))]) = Inr [?u]"
    by code_simp
  then obtain out s where "server_main True True [(Some (message_of LOGIN alice []), (7, 8))] = Inr (out, s)" "clients s = [?u]"
    by (cases "server_main True True [(Some (message_of LOGIN alice []), (7, 8))]") auto
  with server_list_from_senders[OF this(1), of ?u] show ?thesis by auto
qed

text \<open>
  C4.  The server implements a directory of names: a message of any type whose name is terminated does what
  the directory does with the request and sends the same packets; the one way to fail is the request
  for a name that is not there, which ends the server.
\<close>

theorem server_refines_directory:
  assumes "server_ok s" and "d \<noteq> []" and "length d \<le> MESSAGE_SIZE"
    and "0 \<in> set (message_name (d @ drop (length d) (recvbuf s)))"
  shows "simulates (server_step s (Some d) e) (dir_step (directory s) (request_of (d @ drop (length d) (recvbuf s))) e)"
  using assms by (rule server_step_ok)

theorem server_refines_directory_witness:
  "simulates (server_step server_start (Some (message_of P2PTRANS alice [])) (7, 8)) (Inl (Exit 1))"
proof -
  let ?d = "message_of P2PTRANS alice []"
  have "?d \<noteq> []" "length ?d \<le> MESSAGE_SIZE" "0 \<in> set (message_name (?d @ drop (length ?d) (recvbuf server_start)))"
    by code_simp+
  from server_refines_directory[OF server_start_ok this, of "(7, 8)"]
  have "simulates (server_step server_start (Some ?d) (7, 8))
    (dir_step (directory server_start) (request_of (?d @ drop (length ?d) (recvbuf server_start))) (7, 8))" .
  moreover have "request_of (?d @ drop (length ?d) (recvbuf server_start)) = Trans alice" by code_simp
  moreover have "directory server_start = []" by (simp add: directory_def server_start_def)
  ultimately show ?thesis by simp
qed

text \<open>
  The buffer keeps the last message, so a datagram of one byte repeats it: here the second sender is
  listed under the name of the first.
\<close>

lemma stale_login:
  "map_sum id (\<lambda>(out, s). directory s)
     (server_loop [(Some (message_of LOGIN alice []), (7, 8)), (Some [1], (9, 10))] server_start) =
   Inr [(alice, (7, 8)), (alice, (9, 10))]"
  by code_simp

text \<open>A name that fills its ten bytes is copied without an end.\<close>

lemma long_name_login:
  "server_loop [(Some (message_of LOGIN (replicate 10 97) (replicate 10 98)), (7, 8))] server_start = Inl Read_oob"
  by code_simp

end
