(* ===== verification/P2P_Client.thy ===== *)
theory P2P_Client
  imports P2P_Server
begin

text \<open>
  The client of the peer-to-peer messenger, P2P/P2PClient/P2PClient.cpp.  Datagrams that arrive are
  input, as bytes with their sender, and packets that are sent are output; a call that waits for a
  datagram that never comes is \<open>None\<close>.  The flag that the receiving thread shares with the sending one
  is part of the state; whether the thread sets it during the ten polls of a try is input.
\<close>

section \<open>Packets on the wire\<close>

definition port_bytes :: "port \<Rightarrow> byte list" where
  "port_bytes p = [ucast p, ucast (drop_bit 8 p)]"

definition bytes_port :: "byte list \<Rightarrow> port" where
  "bytes_port bs = ucast (bs ! 0) OR push_bit 8 (ucast (bs ! 1))"

text \<open>Padding and fields that were not written are whatever the object held, here \<open>junk\<close>.\<close>

definition P2P_SIZE :: nat where "P2P_SIZE = 12"
definition USER_SIZE :: nat where "USER_SIZE = 20"
definition USER_FIELDS :: nat where "USER_FIELDS = 18"

definition junk_or :: "byte \<Rightarrow> ('a \<Rightarrow> byte list) \<Rightarrow> nat \<Rightarrow> 'a option \<Rightarrow> byte list" where
  "junk_or junk f n x = (case x of None \<Rightarrow> replicate n junk | Some v \<Rightarrow> f v)"

fun wire :: "byte \<Rightarrow> packet \<Rightarrow> byte list" where
  "wire junk (Message m) = m"
| "wire junk (Number i) = int_bytes i"
| "wire junk (User u) = uname u @ [junk, junk] @ word_bytes (uip u) @ port_bytes (uport u) @ [junk, junk]"
| "wire junk (P2p t a p) = int_bytes t @ junk_or junk word_bytes 4 a @ junk_or junk port_bytes 2 p @ [junk, junk]"
| "wire junk (Text m) = m"

definition user_of :: "byte list \<Rightarrow> user" where
  "user_of bs = \<lparr>uname = take NAME_LEN bs, uip = bytes_word (drop 12 bs), uport = bytes_port (drop 16 bs)\<rparr>"

text \<open>recvfrom into an object: the result and the object, which also a datagram too long overwrites.\<close>

definition recv_into :: "mem \<Rightarrow> byte list option \<Rightarrow> int \<times> mem" where
  "recv_into m d =
     (case d of None \<Rightarrow> (-1, m)
      | Some b \<Rightarrow> if length m < length b then (-1, take (length m) b)
          else (int (length b), b @ drop (length b) m))"

section \<open>State\<close>

record p2pclient =
  users :: "user list"
  RecvedACK :: bool
  UserName :: mem
  server :: endpoint
  recvd :: mem
  shown :: "byte list list"

type_synonym arrivals = "(byte list option \<times> endpoint) list"
type_synonym packets = "(packet \<times> endpoint) list"

definition MAXRETRY :: nat where "MAXRETRY = 5"
definition COMMANDMAXC :: nat where "COMMANDMAXC = 256"

section \<open>Logging in\<close>

text \<open>
  The result of the call is not tested: of a datagram that is too long the node holds the first part,
  and a node whose fields (all but the padding at its end) are not filled is printed nevertheless.
\<close>

fun recv_users :: "nat \<Rightarrow> arrivals \<Rightarrow> user list \<Rightarrow> (user list \<times> arrivals) c option" where
  "recv_users 0 ins us = Some (Inr (us, ins))"
| "recv_users (Suc n) [] us = None"
| "recv_users (Suc n) ((d, from) # ins) us =
     (case d of None \<Rightarrow> Some (Inl Uninit)
      | Some b \<Rightarrow> if length b < USER_FIELDS then Some (Inl Uninit)
          else let u = user_of (take USER_SIZE b) in
            obind (Some (strlen (uname u) 0)) (\<lambda>_. recv_users n ins (us @ [u])))"

text \<open>
  The number of users and the users.  \<open>fail\<close> is what the exception leads to: main catches it, but
  nothing does in the receiving thread.
\<close>

definition recv_list :: "fault \<Rightarrow> arrivals \<Rightarrow> user list \<Rightarrow> (user list \<times> arrivals) c option" where
  "recv_list fail ins us =
     (case ins of [] \<Rightarrow> None
      | (d, from) # ins \<Rightarrow>
          (case d of None \<Rightarrow> Some (Inl fail)
           | Some b \<Rightarrow> if b = [] \<or> 4 < length b then Some (Inl fail)
               else if length b < 4 then Some (Inl Uninit)
               else recv_users (nat (bytes_int b)) ins us))"

text \<open>\<open>junk\<close> is the object before the message is made in it.\<close>

definition make_message :: "mem \<Rightarrow> int \<Rightarrow> byte list \<Rightarrow> mem c" where
  "make_message junk t nm =
     cbind (wrs junk 0 (int_bytes t)) (\<lambda>m. if NAME_LEN < length nm then Inl Write_oob else wrs m 4 nm)"

definition ConnectToServer :: "mem \<Rightarrow> arrivals \<Rightarrow> p2pclient \<Rightarrow> (packets \<times> p2pclient \<times> arrivals) c option" where
  "ConnectToServer junk ins s =
     obind (Some (make_message junk LOGIN (strncpy_bytes (UserName s) NAME_LEN))) (\<lambda>m.
     obind (recv_list (Exit 1) ins (users s)) (\<lambda>(us, ins).
       Some (Inr ([(Message m, server s)], s\<lparr>users := us\<rparr>, ins))))"

section \<open>Sending\<close>

text \<open>The search does not stop at a match, so the last user of the name is taken.\<close>

fun find_last :: "user list \<Rightarrow> mem \<Rightarrow> user option \<Rightarrow> user option c" where
  "find_last [] name r = Inr r"
| "find_last (u # us) name r = cbind (strcmp_eq (uname u) name) (\<lambda>e. find_last us name (if e then Some u else r))"

text \<open>The tries that are left; \<open>acks\<close> says of each whether it is acknowledged.\<close>

fun send_tries :: "bool list \<Rightarrow> endpoint \<Rightarrow> byte list \<Rightarrow> packet \<Rightarrow> p2pclient \<Rightarrow> bool \<times> packets \<times> p2pclient" where
  "send_tries [] to msg tr s = (False, [], s)"
| "send_tries (ack # acks) to msg tr s =
     (let out = [(P2p P2PMESSAGE (Some (of_nat (length msg))) None, to), (Text msg, to)] in
      if ack then (True, out, s\<lparr>RecvedACK := True\<rparr>)
      else let (r, out', s') = send_tries acks to msg tr (s\<lparr>RecvedACK := False\<rparr>) in
        (r, out @ (tr, server s) # out', s'))"

text \<open>
  The message to the server is only made after a try that failed, but its making cannot fail for a name
  that was found.
\<close>

definition SendMessageTo :: "mem \<Rightarrow> bool list \<Rightarrow> mem \<Rightarrow> mem \<Rightarrow> p2pclient \<Rightarrow> (bool \<times> packets \<times> p2pclient) c" where
  "SendMessageTo junk acks name msg s =
     cbind (find_last (users s) name None) (\<lambda>r.
       case r of None \<Rightarrow> Inr (False, [], s)
       | Some u \<Rightarrow>
           cbind (strlen msg 0) (\<lambda>k.
             if 256 < k + 1 then Inl Write_oob
             else cbind (strlen name 0) (\<lambda>j. cbind (make_message junk P2PTRANS (take (j + 1) name)) (\<lambda>m.
               Inr (send_tries (take MAXRETRY acks) (uip u, uport u) (take (k + 1) msg) (Message m) s)))))"

section \<open>Commands\<close>

text \<open>The name of the command "send", up to a space; the end of the line is not noticed.\<close>

function read_name :: "mem \<Rightarrow> nat \<Rightarrow> mem \<Rightarrow> (nat \<times> mem) c" where
  "read_name line i sendname =
     cbind (rd line i) (\<lambda>b.
       if b \<noteq> 32 then cbind (wr sendname (i - 5) b) (\<lambda>n. read_name line (i + 1) n)
       else cbind (wr sendname (i - 5) 0) (\<lambda>n. Inr (i, n)))"
  by pat_completeness auto
termination
  by (relation "measure (\<lambda>(line, i, n). length line - i)") (auto simp: rd_def split: if_splits)

declare read_name.simps [simp del]

datatype command_result = Silent | Quit | Printed "byte list"

definition ParseCommand :: "mem \<Rightarrow> bool list \<Rightarrow> mem \<Rightarrow> p2pclient \<Rightarrow> (command_result \<times> packets \<times> p2pclient) c" where
  "ParseCommand junk acks line s =
     cbind (strlen line 0) (\<lambda>k.
       if k < 4 then Inr (Silent, [], s)
       else let command = take 4 line in
         if command = ascii ''exit'' then
           cbind (make_message junk LOGOUT (strncpy_bytes (UserName s) NAME_LEN)) (\<lambda>m. Inr (Quit, [(Message m, server s)], s))
         else if command = ascii ''send'' then
           cbind (read_name line 5 (replicate 20 0)) (\<lambda>(i, sendname).
           cbind (strlen line (i + 1)) (\<lambda>k.
             if COMMANDMAXC < k + 1 then Inl Write_oob
             else cbind (SendMessageTo junk acks sendname (take (k + 1) (drop (i + 1) line)) s) (\<lambda>(ok, out, s).
               Inr (Printed (if ok then ascii ''Send OK!'' else ascii ''Send Failure!''), out, s))))
         else if command = ascii ''getu'' then Inr (Silent, [(Number GETALLUSER, server s)], s)
         else Inr (Silent, [], s))"

text \<open>gets stores the line and a null byte in an array of 256, however long the line is.\<close>

definition read_command :: "byte list \<Rightarrow> mem c" where
  "read_command l = wrs (replicate COMMANDMAXC 0) 0 (l @ [0])"

fun client_commands :: "mem \<Rightarrow> (bool list \<times> byte list) list \<Rightarrow> p2pclient \<Rightarrow> (packets \<times> p2pclient) c" where
  "client_commands junk [] s = Inr ([], s)"
| "client_commands junk ((acks, l) # ls) s =
     cbind (read_command l) (\<lambda>line.
     cbind (ParseCommand junk acks line s) (\<lambda>(r, out, s).
       if r = Quit then Inr (out, s)
       else cbind (client_commands junk ls s) (\<lambda>(out', s). Inr (out @ out', s))))"

section \<open>Receiving\<close>

text \<open>
  The text after a P2PMESSAGE.  The object has the announced length, the call stores up to 256 bytes;
  the null byte is stored before the result is tested.  An exception ends the program.
\<close>

definition recv_text :: "p2pclient \<Rightarrow> arrivals \<Rightarrow> (packets \<times> p2pclient \<times> arrivals) c option" where
  "recv_text s ins =
     (let n = bytes_int (drop 4 (recvd s)) in
      if n < 0 then Some (Inl Abort)
      else case ins of [] \<Rightarrow> None
        | (d, from) # ins \<Rightarrow>
            (case d of None \<Rightarrow> Some (Inl Write_oob)
             | Some b \<Rightarrow>
                 if b = [] \<or> 256 < length b \<or> n < int (length b) then Some (Inl Write_oob)
                 else Some (Inr ([(P2p P2PMESSAGEACK None None, from)],
                   s\<lparr>shown := shown s @ [str_at (b[length b - 1 := 0]) 0]\<rparr>, ins))))"

definition client_step :: "p2pclient \<Rightarrow> arrivals \<Rightarrow> (packets \<times> p2pclient \<times> arrivals) c option" where
  "client_step s ins =
     (case ins of [] \<Rightarrow> None
      | (d, from) # ins \<Rightarrow>
          let (n, buf) = recv_into (recvd s) d; s = s\<lparr>recvd := buf\<rparr>; t = bytes_int buf in
          if n \<le> 0 then Some (Inr ([], s, ins))
          else if t = P2PMESSAGE then recv_text s ins
          else if t = P2PSOMEONEWANTTOCALLYOU then
            Some (Inr ([(P2p P2PTRASH None None, (bytes_word (drop 4 buf), bytes_port (drop 8 buf)))], s, ins))
          else if t = P2PMESSAGEACK then Some (Inr ([], s\<lparr>RecvedACK := True\<rparr>, ins))
          else if t = P2PTRASH then Some (Inr ([], s, ins))
          else if t = GETALLUSER then
            obind (recv_list Abort ins []) (\<lambda>(us, ins). Some (Inr ([], s\<lparr>users := us\<rparr>, ins)))
          else Some (Inr ([], s, ins)))"

section \<open>Reading what was written\<close>

lemma bytes_port_bytes: "bytes_port (port_bytes p @ r) = p"
proof (rule bit_word_eqI)
  fix n
  assume "n < LENGTH(16)"
  then have n: "n < 16" by simp
  then consider "n < 8" | "8 \<le> n" by linarith
  then show "bit (bytes_port (port_bytes p @ r)) n = bit p n"
    using n by cases (auto simp: bytes_port_def port_bytes_def bit_or_iff bit_push_bit_iff bit_ucast_iff bit_drop_bit_eq)
qed

lemma length_port_bytes [simp]: "length (port_bytes p) = 2"
  by (simp add: port_bytes_def)

section \<open>Sending a message\<close>

text \<open>Each try that is not acknowledged is the message and a request to the server.\<close>

definition try_packets :: "endpoint \<Rightarrow> byte list \<Rightarrow> packets" where
  "try_packets to msg = [(P2p P2PMESSAGE (Some (of_nat (length msg))) None, to), (Text msg, to)]"

lemma send_tries_eq:
  "send_tries acks to msg tr s =
     (let n = length (takeWhile Not acks); ok = n < length acks in
      (ok, concat (replicate n (try_packets to msg @ [(tr, server s)])) @ (if ok then try_packets to msg else []),
       if acks = [] then s else s\<lparr>RecvedACK := ok\<rparr>))"
proof (induction acks arbitrary: s)
  case (Cons ack acks)
  then show ?case by (cases acks) (auto simp: Let_def try_packets_def)
qed simp

text \<open>\<open>xs @ u # ys\<close>: the last user of that name.\<close>

definition last_named :: "user list \<Rightarrow> byte list \<Rightarrow> user \<Rightarrow> bool" where
  "last_named us nm u \<longleftrightarrow> (\<exists>xs ys. us = xs @ u # ys \<and> str_at (uname u) 0 = nm \<and> (\<forall>v \<in> set ys. str_at (uname v) 0 \<noteq> nm))"

lemma find_last_none:
  "list_all user_ok us \<Longrightarrow> 0 \<in> set name \<Longrightarrow> \<forall>v \<in> set us. str_at (uname v) 0 \<noteq> str_at name 0 \<Longrightarrow> find_last us name r = Inr r"
  by (induction us arbitrary: r) (auto simp: strcmp_eq_strings user_ok_name)

lemma find_last_append: "find_last (us @ vs) name r = cbind (find_last us name r) (find_last vs name)"
proof (induction us arbitrary: r)
  case (Cons u us)
  then show ?case by (cases "strcmp_eq (uname u) name") auto
qed simp

lemma find_last_total: "list_all user_ok us \<Longrightarrow> 0 \<in> set name \<Longrightarrow> \<exists>r'. find_last us name r = Inr r'"
  by (induction us arbitrary: r) (auto simp: strcmp_eq_strings user_ok_name)

lemma find_last_named:
  assumes "list_all user_ok us" and "0 \<in> set name" and "last_named us (str_at name 0) u"
  shows "find_last us name r = Inr (Some u)"
proof -
  from assms(3) obtain xs ys where us: "us = xs @ u # ys" "str_at (uname u) 0 = str_at name 0"
    "\<forall>v \<in> set ys. str_at (uname v) 0 \<noteq> str_at name 0" by (auto simp: last_named_def)
  obtain r' where "find_last xs name r = Inr r'" using find_last_total[of xs name r] assms(1,2) us(1) by auto
  then show ?thesis using assms(1,2) us find_last_none[of ys name "Some u"]
    by (simp add: find_last_append strcmp_eq_strings user_ok_name)
qed

definition trans_message :: "mem \<Rightarrow> byte list \<Rightarrow> mem" where
  "trans_message junk nm = int_bytes P2PTRANS @ nm @ 0 # drop (5 + length nm) junk"

lemma c_str_split: "0 \<in> set m \<Longrightarrow> \<exists>z. m = str_at m 0 @ 0 # z"
  using split_list_first[of 0 m] takeWhile_no_zero by (fastforce simp: str_at_def)

lemma SendMessageTo_found:
  assumes "list_all user_ok (users s)" and "0 \<in> set name" and "last_named (users s) (str_at name 0) u"
    and "0 \<notin> set t" and "length t < 256" and "length junk = MESSAGE_SIZE"
  shows "SendMessageTo junk acks name (t @ 0 # z) s =
    Inr (send_tries (take MAXRETRY acks) (uip u, uport u) (t @ [0]) (Message (trans_message junk (str_at name 0))) s)"
proof -
  let ?nm = "str_at name 0"
  have "u \<in> set (users s)" "?nm = str_at (uname u) 0" using assms(3) by (auto simp: last_named_def)
  then have l: "length ?nm < NAME_LEN" using assms(1) by (auto simp: list_all_iff user_ok_def)
  obtain y where y: "name = ?nm @ 0 # y" using c_str_split[OF assms(2)] by blast
  have "take (length ?nm + 1) name = ?nm @ [0]" by (subst (2) y) simp
  moreover have "strlen name 0 = Inr (length ?nm)" using assms(2) by (simp add: strlen_def str_at_def)
  moreover have "make_message junk P2PTRANS (?nm @ [0]) = Inr (trans_message junk ?nm)"
    using l assms(6) by (simp add: make_message_def wrs_in NAME_LEN_def MESSAGE_SIZE_def trans_message_def)
  moreover have "strlen (t @ 0 # z) 0 = Inr (length t)" by (rule strlen_text[OF assms(4)])
  ultimately show ?thesis
    using assms find_last_named[OF assms(1-3)] by (simp add: SendMessageTo_def)
qed

text \<open>
  SendMessageTo for a user of the list sends the message to the last user of that name, and after each
  try that is not acknowledged asks the server to make that user call; it returns true when one of at
  most five tries is acknowledged.  For a name that is not in the list nothing is sent.
\<close>

theorem SendMessageTo_tries:
  assumes "list_all user_ok (users s)" and "0 \<in> set name" and "0 \<notin> set t" and "length t < 256"
    and "length junk = MESSAGE_SIZE" and "acks \<noteq> []" and "n = length (takeWhile Not (take MAXRETRY acks))"
    and "ok \<longleftrightarrow> n < length (take MAXRETRY acks)"
  shows "(last_named (users s) (str_at name 0) u \<longrightarrow>
      SendMessageTo junk acks name (t @ 0 # z) s = Inr (ok,
        concat (replicate n (try_packets (uip u, uport u) (t @ [0]) @ [(Message (trans_message junk (str_at name 0)), server s)]))
          @ (if ok then try_packets (uip u, uport u) (t @ [0]) else []), s\<lparr>RecvedACK := ok\<rparr>)) \<and>
    ((\<forall>v \<in> set (users s). str_at (uname v) 0 \<noteq> str_at name 0) \<longrightarrow> SendMessageTo junk acks name (t @ 0 # z) s = Inr (False, [], s))"
proof (intro conjI impI)
  assume l: "last_named (users s) (str_at name 0) u"
  have "take MAXRETRY acks \<noteq> []" using assms(6) by (simp add: MAXRETRY_def)
  then show "SendMessageTo junk acks name (t @ 0 # z) s = Inr (ok,
        concat (replicate n (try_packets (uip u, uport u) (t @ [0]) @ [(Message (trans_message junk (str_at name 0)), server s)]))
          @ (if ok then try_packets (uip u, uport u) (t @ [0]) else []), s\<lparr>RecvedACK := ok\<rparr>)"
    using SendMessageTo_found[OF assms(1,2) l assms(3-5), of acks z] assms(7,8) by (simp add: send_tries_eq Let_def)
next
  assume "\<forall>v \<in> set (users s). str_at (uname v) 0 \<noteq> str_at name 0"
  then show "SendMessageTo junk acks name (t @ 0 # z) s = Inr (False, [], s)"
    using find_last_none[OF assms(1,2)] by (simp add: SendMessageTo_def)
qed

section \<open>Client and server together\<close>

lemma recv_into_fits: "length b \<le> length m \<Longrightarrow> recv_into m (Some b) = (int (length b), b @ drop (length b) m)"
  by (simp add: recv_into_def)

lemma length_p2p: "length (wire j (P2p t a p)) = P2P_SIZE"
  by (simp add: junk_or_def P2P_SIZE_def split: option.split)

lemma client_p2p:
  assumes "length (recvd s) = P2P_SIZE"
    and "t \<in> {P2PMESSAGE, P2PMESSAGEACK, P2PSOMEONEWANTTOCALLYOU, P2PTRASH}"
  shows "recv_into (recvd s) (Some (wire j (P2p t a p))) = (int P2P_SIZE, wire j (P2p t a p))"
    and "bytes_int (wire j (P2p t a p)) = t"
  using assms message_type_bytes[of t] by (simp_all add: recv_into_fits length_p2p del: wire.simps) auto

lemma client_wants_call:
  assumes "length (recvd s) = P2P_SIZE"
  shows "client_step s ((Some (wire j (P2p P2PSOMEONEWANTTOCALLYOU (Some i) (Some p))), e) # ins) =
    Some (Inr ([(P2p P2PTRASH None None, (i, p))], s\<lparr>recvd := wire j (P2p P2PSOMEONEWANTTOCALLYOU (Some i) (Some p))\<rparr>, ins))"
proof -
  let ?w = "wire j (P2p P2PSOMEONEWANTTOCALLYOU (Some i) (Some p))"
  have "bytes_word (drop 4 ?w) = i" "bytes_port (drop 8 ?w) = p"
    using bytes_word_bytes[of i] bytes_port_bytes[of p] by (simp_all add: junk_or_def)
  then show ?thesis using client_p2p[OF assms, of P2PSOMEONEWANTTOCALLYOU j "Some i" "Some p"]
    by (simp add: client_step_def P2P_SIZE_def del: wire.simps) (simp add: message_types)
qed

lemma client_ack:
  assumes "length (recvd s) = P2P_SIZE"
  shows "\<exists>r. client_step s ((Some (wire j (P2p P2PMESSAGEACK a p)), e) # ins) = Some (Inr ([], s\<lparr>recvd := r, RecvedACK := True\<rparr>, ins))"
  using client_p2p[OF assms, of P2PMESSAGEACK j a p]
  by (simp add: client_step_def P2P_SIZE_def del: wire.simps) (auto simp: message_types)

lemma sint_small: "n < 1000 \<Longrightarrow> sint (of_nat n :: 32 word) = int n"
  by (simp add: signed_of_nat signed_take_bit_int_eq_self)

lemma client_text:
  assumes "length (recvd s) = P2P_SIZE" and "0 \<notin> set t" and "length t < 256"
  shows "\<exists>r. client_step s ((Some (wire j (P2p P2PMESSAGE (Some (of_nat (length (t @ [0])))) p)), e) # (Some (t @ [0]), e') # ins) =
    Some (Inr ([(P2p P2PMESSAGEACK None None, e')], s\<lparr>recvd := r, shown := shown s @ [t]\<rparr>, ins))"
proof -
  let ?w = "wire j (P2p P2PMESSAGE (Some (of_nat (length (t @ [0])))) p)"
  have "bytes_word (drop 4 ?w) = of_nat (length (t @ [0]))"
    using bytes_word_bytes[of "of_nat (length (t @ [0]))"] by (simp add: junk_or_def)
  moreover have "sint (of_nat (length (t @ [0])) :: 32 word) = int (length (t @ [0]))"
    using assms(3) by (intro sint_small) simp
  moreover have "str_at ((t @ [0])[length (t @ [0]) - 1 := 0]) 0 = t"
    using takeWhile_no_zero[OF assms(2), of "[]"] by (simp add: str_at_def list_update_append)
  moreover have "\<not> 256 < length (t @ [0])" using assms(3) by simp
  ultimately have rt: "recv_text (s\<lparr>recvd := ?w\<rparr>) ((Some (t @ [0]), e') # ins) =
      Some (Inr ([(P2p P2PMESSAGEACK None None, e')], s\<lparr>recvd := ?w, shown := shown s @ [t]\<rparr>, ins))"
    using assms(3) by (simp add: recv_text_def bytes_int_def Let_def del: wire.simps of_nat_add of_nat_Suc length_append)
  then show ?thesis using client_p2p[OF assms(1), of P2PMESSAGE j "Some (of_nat (length (t @ [0])))" p] rt
    by (simp add: client_step_def P2P_SIZE_def del: wire.simps) blast
qed

lemma trans_request:
  assumes "length nm < NAME_LEN" and "0 \<notin> set nm" and "length junk = MESSAGE_SIZE"
  shows "length (trans_message junk nm) = MESSAGE_SIZE" "request_of (trans_message junk nm) = Trans nm"
    "0 \<in> set (message_name (trans_message junk nm))"
proof -
  have n: "message_name (trans_message junk nm) = nm @ 0 # take (NAME_LEN - Suc (length nm)) (drop (5 + length nm) junk)"
    using assms(1) by (simp add: message_name_def trans_message_def take_Cons' drop_Cons')
  then show "0 \<in> set (message_name (trans_message junk nm))" by simp
  show "length (trans_message junk nm) = MESSAGE_SIZE"
    using assms by (simp add: trans_message_def MESSAGE_SIZE_def NAME_LEN_def)
  have "bytes_int (trans_message junk nm) = P2PTRANS" using message_type_bytes[of P2PTRANS] by (simp add: trans_message_def)
  then show "request_of (trans_message junk nm) = Trans nm"
    using n takeWhile_no_zero[OF assms(2)] by (simp add: request_of_def message_types str_at_def)
qed

text \<open>
  C1.  The way of a message to a user who cannot be reached at first: the first try is sent to him and a
  request to the server; the server tells the user it has under this name to call, with the address of
  the sender; he sends a packet there, which opens his translator; he receives the second try, shows its
  text and answers it; the answer sets the flag that makes SendMessageTo return true.
\<close>

theorem hole_punching:
  assumes "list_all user_ok (users a)" and "0 \<in> set name" and "last_named (users a) (str_at name 0) u"
    and "0 \<notin> set t" and "length t < 256" and "length junk = MESSAGE_SIZE"
    and "server_ok s" and "map_of (directory s) (str_at name 0) = Some there"
    and "length (recvd a) = P2P_SIZE" and "length (recvd b) = P2P_SIZE"
  shows "\<exists>req head ask s' b1 b2 ack r.
    SendMessageTo junk [False, True] name (t @ 0 # z) a =
      Inr (True, [(head, (uip u, uport u)), (Text (t @ [0]), (uip u, uport u)), (Message req, server a),
        (head, (uip u, uport u)), (Text (t @ [0]), (uip u, uport u))], a\<lparr>RecvedACK := True\<rparr>) \<and>
    server_step s (Some req) here = Inr ([(ask, there)], s') \<and> directory s' = directory s \<and>
    client_step b ((Some (wire j ask), srv) # ins) = Some (Inr ([(P2p P2PTRASH None None, here)], b1, ins)) \<and>
    client_step b1 ((Some (wire j head), here) # (Some (t @ [0]), here) # ins) = Some (Inr ([(ack, here)], b2, ins)) \<and>
    shown b2 = shown b @ [t] \<and>
    client_step a ((Some (wire j ack), there) # ins) = Some (Inr ([], a\<lparr>recvd := r, RecvedACK := True\<rparr>, ins))"
proof -
  let ?nm = "str_at name 0" and ?head = "P2p P2PMESSAGE (Some (of_nat (length (t @ [0])))) None"
    and ?ask = "P2p P2PSOMEONEWANTTOCALLYOU (Some (fst here)) (Some (snd here))"
  let ?req = "trans_message junk ?nm"
  have "u \<in> set (users a)" "?nm = str_at (uname u) 0" using assms(3) by (auto simp: last_named_def)
  then have "length ?nm < NAME_LEN" using assms(1) by (auto simp: list_all_iff user_ok_def)
  note req = trans_request[OF this str_at_no_zero assms(6)]
  have 1: "SendMessageTo junk [False, True] name (t @ 0 # z) a =
      Inr (True, [(?head, (uip u, uport u)), (Text (t @ [0]), (uip u, uport u)), (Message ?req, server a),
        (?head, (uip u, uport u)), (Text (t @ [0]), (uip u, uport u))], a\<lparr>RecvedACK := True\<rparr>)"
    using SendMessageTo_found[OF assms(1-6), of "[False, True]" z] by (simp add: MAXRETRY_def Let_def)
  have "length (recvbuf s) = MESSAGE_SIZE" using assms(7) by (simp add: server_ok_def)
  moreover have "?req \<noteq> []" by (simp add: trans_message_def int_bytes_def word_bytes_def)
  ultimately have "simulates (server_step s (Some ?req) here) (dir_step (directory s) (Trans ?nm) here)"
    using server_step_ok[OF assms(7), of ?req here] req by (auto simp: MESSAGE_SIZE_def)
  then obtain s' where 2: "server_step s (Some ?req) here = Inr ([(?ask, there)], s')" "directory s' = directory s"
    using assms(8) by (auto simp: simulates_def split: sum.splits)
  let ?b1 = "b\<lparr>recvd := wire j ?ask\<rparr>"
  have 3: "client_step b ((Some (wire j ?ask), srv) # ins) = Some (Inr ([(P2p P2PTRASH None None, here)], ?b1, ins))"
    using client_wants_call[OF assms(10), of j "fst here" "snd here" srv ins] by simp
  have "length (recvd ?b1) = P2P_SIZE" by (simp add: length_p2p del: wire.simps)
  from client_text[OF this assms(4,5), of j None here here ins] obtain b2 where
    4: "client_step ?b1 ((Some (wire j ?head), here) # (Some (t @ [0]), here) # ins) =
      Some (Inr ([(P2p P2PMESSAGEACK None None, here)], b2, ins))" "shown b2 = shown b @ [t]"
    by (auto simp del: wire.simps)
  from client_ack[OF assms(9), of j None None there ins] obtain r where
    5: "client_step a ((Some (wire j (P2p P2PMESSAGEACK None None)), there) # ins) = Some (Inr ([], a\<lparr>recvd := r, RecvedACK := True\<rparr>, ins))"
    by blast
  from 1 2 3 4 5 show ?thesis by blast
qed

definition bob :: user where
  "bob = node_of (ascii ''bob'', (3, 4))"

definition alice_client :: p2pclient where
  "alice_client = \<lparr>users = [bob], RecvedACK = False, UserName = alice @ replicate 5 0, server = (1, 2),
     recvd = replicate 12 0, shown = []\<rparr>"

definition some_server :: p2pserver where
  "some_server = \<lparr>recvbuf = replicate 24 0, clients = [bob]\<rparr>"

lemma some_users:
  "list_all user_ok (users alice_client)" "0 \<in> set (ascii ''bob'' @ [0])"
  "last_named (users alice_client) (str_at (ascii ''bob'' @ [0]) 0) bob" "server_ok some_server"
  "map_of (directory some_server) (str_at (ascii ''bob'' @ [0]) 0) = Some (3, 4)" "length (recvd alice_client) = P2P_SIZE"
  "uip bob = 3" "uport bob = 4" "str_at (ascii ''bob'' @ [0]) 0 = ascii ''bob''"
proof -
  have b: "user_ok bob" "entry_of bob = (ascii ''bob'', (3, 4))" by code_simp+
  then show "list_all user_ok (users alice_client)" by (simp add: alice_client_def)
  have n: "str_at (ascii ''bob'' @ [0]) 0 = ascii ''bob''" "str_at (uname bob) 0 = ascii ''bob''" by code_simp+
  then show "last_named (users alice_client) (str_at (ascii ''bob'' @ [0]) 0) bob"
    unfolding last_named_def by (intro exI[of _ "[]"]) (simp add: alice_client_def)
  show "server_ok some_server" using b by (simp add: server_ok_def some_server_def MESSAGE_SIZE_def)
  show "map_of (directory some_server) (str_at (ascii ''bob'' @ [0]) 0) = Some (3, 4)"
    using b n by (simp add: directory_def some_server_def)
  show "length (recvd alice_client) = P2P_SIZE" by (simp add: alice_client_def P2P_SIZE_def)
qed (simp_all add: bob_def node_of_def str_at_def ascii_def)

theorem SendMessageTo_tries_witness:
  "SendMessageTo (replicate 24 9) [False, True] (ascii ''bob'' @ [0]) (ascii ''hi'' @ 0 # []) alice_client =
     Inr (True, try_packets (3, 4) (ascii ''hi'' @ [0]) @ [(Message (trans_message (replicate 24 9) (ascii ''bob'')), (1, 2))]
       @ try_packets (3, 4) (ascii ''hi'' @ [0]), alice_client\<lparr>RecvedACK := True\<rparr>)"
  using SendMessageTo_tries[OF some_users(1,2), of "ascii ''hi''" "replicate 24 9" "[False, True]" 1 True bob "[]"] some_users(3,7-9)
  by (simp add: MAXRETRY_def MESSAGE_SIZE_def ascii_def alice_client_def)

theorem hole_punching_witness:
  "\<exists>req ask s' b1 b2 head ack.
    server_step some_server (Some req) (7, 8) = Inr ([(ask, (3, 4))], s') \<and>
    client_step alice_client [(Some (wire 0 ask), (1, 2))] = Some (Inr ([(P2p P2PTRASH None None, (7, 8))], b1, [])) \<and>
    client_step b1 [(Some (wire 0 head), (7, 8)), (Some (ascii ''hi'' @ [0]), (7, 8))] = Some (Inr ([(ack, (7, 8))], b2, [])) \<and>
    shown b2 = [ascii ''hi'']"
proof -
  have "0 \<notin> set (ascii ''hi'')" "length (ascii ''hi'') < 256" "length (replicate 24 (9 :: byte)) = MESSAGE_SIZE"
    by (simp_all add: ascii_def MESSAGE_SIZE_def)
  from hole_punching[OF some_users(1-3) this some_users(4-6) some_users(6), of "[]" "(7, 8)" 0 "(1, 2)" "[]"]
  show ?thesis by (simp add: alice_client_def del: wire.simps) blast
qed

section \<open>Faults\<close>

text \<open>gets has no bound: a line of 256 characters is written past the array.\<close>

lemma gets_overflow: "COMMANDMAXC \<le> length l \<Longrightarrow> read_command l = Inl Write_oob"
  by (simp add: read_command_def wrs_out)

text \<open>A command "send" without a text is read past the end of the line, past the array for the name.\<close>

lemma send_without_text:
  "ParseCommand (replicate 24 9) [True] (ascii ''send bob'' @ replicate 40 0) alice_client = Inl Write_oob"
  by code_simp

text \<open>A text longer than the sender has announced is written past the memory allocated for it.\<close>

lemma announced_length_trusted:
  assumes "length (recvd s) = P2P_SIZE" and "1 < length b" and "length b \<le> 256"
  shows "client_step s ((Some (wire j (P2p P2PMESSAGE (Some 1) p)), e) # (Some b, e') # ins) = Some (Inl Write_oob)"
proof -
  let ?w = "wire j (P2p P2PMESSAGE (Some 1) p)"
  have "bytes_word (drop 4 ?w) = 1" using bytes_word_bytes[of 1] by (simp add: junk_or_def)
  then have "recv_text (s\<lparr>recvd := ?w\<rparr>) ((Some b, e') # ins) = Some (Inl Write_oob)"
    using assms(2,3) by (simp add: recv_text_def bytes_int_def Let_def del: wire.simps)
  then show ?thesis using client_p2p[OF assms(1), of P2PMESSAGE j "Some 1" p]
    by (simp add: client_step_def P2P_SIZE_def del: wire.simps)
qed

text \<open>A command "send" with a name of at most 19 characters and a text is a call of SendMessageTo.\<close>

lemma read_name_run:
  "32 \<notin> set nm \<Longrightarrow> length nm + length done < 20 \<Longrightarrow> length pre = 5 + length done \<Longrightarrow>
     read_name (pre @ nm @ 32 # r) (length pre) (done @ replicate (20 - length done) 0)
       = Inr (length pre + length nm, done @ nm @ replicate (20 - length done - length nm) 0)"
proof (induction nm arbitrary: pre "done")
  case Nil
  have "(replicate n 0)[0 := 0] = (replicate n 0 :: mem)" for n by (cases n) simp_all
  with Nil show ?case by (subst read_name.simps) (simp add: list_update_append nth_append)
next
  case (Cons b nm)
  then have "replicate (20 - length done) (0 :: byte) = 0 # replicate (20 - length (done @ [b])) 0"
    by (simp flip: replicate_Suc)
  then have "(done @ replicate (20 - length done) 0)[length pre - 5 := b] = (done @ [b]) @ replicate (20 - length (done @ [b])) 0"
    using Cons.prems by (simp add: list_update_append)
  then show ?case using Cons.prems Cons.IH[of "done @ [b]" "pre @ [b]"]
    by (subst read_name.simps) (simp add: rd_def nth_append)
qed

lemma ParseCommand_send:
  assumes "32 \<notin> set nm" and "0 \<notin> set nm" and "length nm < 20" and "0 \<notin> set t" and "length t < COMMANDMAXC"
  shows "ParseCommand junk acks (ascii ''send '' @ nm @ 32 # t @ 0 # z) s =
    cbind (SendMessageTo junk acks (nm @ replicate (20 - length nm) 0) (t @ [0]) s) (\<lambda>(ok, out, s).
      Inr (Printed (if ok then ascii ''Send OK!'' else ascii ''Send Failure!''), out, s))"
proof -
  let ?line = "ascii ''send '' @ nm @ 32 # t @ 0 # z"
  have sd: "ascii ''send '' = ascii ''send'' @ [32]" "length (ascii ''send'') = 4" "0 \<notin> set (ascii ''send '')"
    "ascii ''send'' \<noteq> ascii ''exit''" by (simp_all add: ascii_def)
  have "strlen ?line 0 = Inr (length (ascii ''send '' @ nm @ 32 # t))"
    using c_str_strlen[OF c_strI[of "ascii ''send '' @ nm @ 32 # t" z]] assms sd(3) by simp
  moreover have "take 4 ?line = ascii ''send''" by (simp add: sd)
  moreover have "read_name ?line 5 (replicate 20 0) = Inr (5 + length nm, nm @ replicate (20 - length nm) 0)"
    using read_name_run[OF assms(1), of "[]" "ascii ''send ''" "t @ 0 # z"] assms(3) by (simp add: sd)
  moreover have "drop (5 + length nm + 1) ?line = t @ 0 # z" by (simp add: sd)
  moreover from this have "strlen ?line (5 + length nm + 1) = Inr (length t)"
    using takeWhile_no_zero[OF assms(4)] by (simp add: strlen_def)
  ultimately show ?thesis using assms(5) by (simp add: ParseCommand_def sd)
qed

section \<open>The program\<close>

text \<open>
  WSAStartup and bind, the login, and the commands that are typed.  The receiving thread runs beside the
  commands; its steps are those of \<open>client_step\<close>.
\<close>

definition client_main :: "bool \<Rightarrow> bool \<Rightarrow> mem \<Rightarrow> arrivals \<Rightarrow> (bool list \<times> byte list) list \<Rightarrow> p2pclient \<Rightarrow> (packets \<times> p2pclient) c option" where
  "client_main startup bound junk ins cmds s =
     (if \<not> startup \<or> \<not> bound then Some (Inl (Exit 1))
      else obind (ConnectToServer junk ins s) (\<lambda>(out, s, ins).
        Some (cbind (client_commands junk cmds s) (\<lambda>(out', s). Inr (out @ out', s)))))"

text \<open>What the server sends to a client that logs in is what the client needs.\<close>

lemma recv_users_sent:
  assumes "\<And>u. u \<in> set us \<Longrightarrow> user_ok u \<and> user_of (wire j (User u)) = u"
  shows "recv_users (length us) (map (\<lambda>u. (Some (wire j (User u)), e)) us @ ins) us0 = Some (Inr (us0 @ us, ins))"
  using assms
proof (induction us arbitrary: us0)
  case (Cons u us)
  then have u: "0 \<in> set (uname u)" "length (uname u) = NAME_LEN" "user_of (wire j (User u)) = u"
    using user_ok_name[of u] by simp_all
  then have "length (wire j (User u)) = USER_SIZE" by (simp add: NAME_LEN_def USER_SIZE_def)
  moreover have "\<not> USER_SIZE < USER_FIELDS" by (simp add: USER_SIZE_def USER_FIELDS_def)
  ultimately show ?case using u Cons by (simp add: strlen_def Let_def del: wire.simps)
qed simp

lemma user_wire: "user_ok u \<Longrightarrow> user_of (wire j (User u)) = u"
  using user_ok_name[of u] bytes_word_bytes[of "uip u"] bytes_port_bytes[of "uport u"]
  by (simp add: user_of_def NAME_LEN_def)

lemma recv_list_sent:
  assumes "list_all user_ok us" and "int (length us) \<le> int_max"
  shows "recv_list fault (map (\<lambda>(p, _). (Some (wire j p), e)) (send_users us to) @ ins) us0 = Some (Inr (us0 @ us, ins))"
proof -
  have "in_int (int (length us))" using assms(2) by (simp add: in_int_def int_min_def)
  then have "bytes_int (int_bytes (int (length us))) = int (length us)" using bytes_int_bytes[of _ "[]"] by simp
  moreover have "int_bytes n \<noteq> []" for n using length_word_bytes(1)[of n] by (metis list.size(3) zero_neq_numeral)
  moreover have "recv_users (length us) (map (\<lambda>u. (Some (wire j (User u)), e)) us @ ins) us0 = Some (Inr (us0 @ us, ins))"
    using assms(1) by (intro recv_users_sent) (auto simp: list_all_iff user_wire simp del: wire.simps)
  ultimately show ?thesis by (simp add: recv_list_def send_users_def comp_def)
qed

definition login_message :: "mem \<Rightarrow> byte list \<Rightarrow> mem" where
  "login_message junk nm = int_bytes LOGIN @ strncpy_bytes nm NAME_LEN @ drop (4 + NAME_LEN) junk"

lemma length_strncpy_bytes: "length (strncpy_bytes s n) = n"
proof -
  have "length (takeWhile (\<lambda>b. b \<noteq> 0) (take n s)) \<le> n"
    using length_takeWhile_le[of "\<lambda>b. b \<noteq> 0" "take n s"] by simp
  then show ?thesis by (simp add: strncpy_bytes_def Let_def)
qed

text \<open>
  Logging in: the message of ConnectToServer adds the client to the directory under its name and the
  address its datagram comes from, and the packets the server sends back give the client the list of
  the server, itself included.
\<close>

theorem login_gives_list:
  assumes "server_ok s" and "0 \<in> set (UserName c)" and "length (UserName c) = NAME_LEN" and "length junk = MESSAGE_SIZE"
    and "int (length (clients s)) < int_max"
  shows "\<exists>m out s'. server_step s (Some m) here = Inr (out, s') \<and> server_ok s' \<and>
    directory s' = directory s @ [(str_at (UserName c) 0, here)] \<and>
    ConnectToServer junk (map (\<lambda>(p, _). (Some (wire j p), srv)) out) c =
      Some (Inr ([(Message m, server c)], c\<lparr>users := users c @ clients s'\<rparr>, []))"
proof -
  let ?n = "strncpy_bytes (UserName c) NAME_LEN" and ?m = "login_message junk (UserName c)" and ?nm = "str_at (UserName c) 0"
  have ln: "length ?n = NAME_LEN" by (rule length_strncpy_bytes)
  have n: "?n = ?nm @ replicate (NAME_LEN - length ?nm) 0" using assms(3) by (simp add: strncpy_bytes_def str_at_def Let_def)
  have "length ?nm < NAME_LEN" by (rule strcpy_new_name(2)[OF assms(3,2)])
  then have z: "0 \<in> set ?n" "str_at ?n 0 = ?nm"
    using user_ok_new[OF str_at_no_zero, of "UserName c" 0 "(0, 0)"] by (simp_all add: n node_of_def entry_of_def)
  have mk: "make_message junk LOGIN ?n = Inr ?m"
    using assms(4) ln by (simp add: make_message_def wrs_in login_message_def NAME_LEN_def MESSAGE_SIZE_def)
  have lm: "length ?m = MESSAGE_SIZE" using assms(4) ln by (simp add: login_message_def NAME_LEN_def MESSAGE_SIZE_def)
  have mn: "message_name ?m = ?n" using ln by (simp add: message_name_def login_message_def)
  have "bytes_int ?m = LOGIN" using message_type_bytes[of LOGIN] by (simp add: login_message_def)
  then have req: "request_of ?m = Login ?nm" using z mn by (simp add: request_of_def)
  have "?m \<noteq> []" using lm by (auto simp: MESSAGE_SIZE_def)
  moreover have "length (recvbuf s) = MESSAGE_SIZE" using assms(1) by (simp add: server_ok_def)
  ultimately have "simulates (server_step s (Some ?m) here) (dir_step (directory s) (Login ?nm) here)"
    using server_step_ok[OF assms(1), of ?m here] lm mn z req by simp
  then obtain out s' where st: "server_step s (Some ?m) here = Inr (out, s')" "server_ok s'"
    "directory s' = directory s @ [(?nm, here)]" "out = send_users (map node_of (directory s')) here"
    by (auto simp: simulates_def Let_def split: sum.splits)
  have cl: "map node_of (directory s') = clients s'" by (rule directory_nodes[OF st(2)])
  have "length (directory s') = Suc (length (directory s))" using st(3) by simp
  then have "length (clients s') = Suc (length (clients s))" by (simp add: directory_def)
  then have "recv_list (Exit 1) (map (\<lambda>(p, _). (Some (wire j p), srv)) out) (users c) = Some (Inr (users c @ clients s', []))"
    using recv_list_sent[of "clients s'" "Exit 1" j srv here "[]" "users c"] st(2,4) cl assms(5) by (simp add: server_ok_def)
  then have "ConnectToServer junk (map (\<lambda>(p, _). (Some (wire j p), srv)) out) c =
      Some (Inr ([(Message ?m, server c)], c\<lparr>users := users c @ clients s'\<rparr>, []))"
    by (simp add: ConnectToServer_def mk)
  with st show ?thesis by blast
qed

theorem login_gives_list_witness:
  "\<exists>m out s'. server_step some_server (Some m) (7, 8) = Inr (out, s') \<and>
    directory s' = [(ascii ''bob'', (3, 4)), (alice, (7, 8))] \<and>
    ConnectToServer (replicate 24 9) (map (\<lambda>(p, _). (Some (wire 0 p), (1, 2))) out) (alice_client\<lparr>users := []\<rparr>) =
      Some (Inr ([(Message m, (1, 2))], alice_client\<lparr>users := clients s'\<rparr>, []))"
proof -
  have c: "0 \<in> set (UserName alice_client)" "length (UserName alice_client) = NAME_LEN" "str_at (UserName alice_client) 0 = alice"
    by code_simp+
  have d: "directory some_server = [(ascii ''bob'', (3, 4))]" by code_simp
  have "length (replicate 24 (9 :: byte)) = MESSAGE_SIZE" "int (length (clients some_server)) < int_max"
    by (simp_all add: MESSAGE_SIZE_def some_server_def int_max_def)
  from login_gives_list[OF some_users(4) _ _ this, of "alice_client\<lparr>users := []\<rparr>" "(7, 8)" 0 "(1, 2)"] c d
  show ?thesis by (auto simp: alice_client_def)
qed

end
