(* ===== verification/Transitions.thy ===== *)
theory Transitions
  imports Main
begin

text \<open>
  The interface of the parts that are step relations: an invariant that holds at the start and is kept by
  every step, and for those that come to an end a bound on the steps that are left and a step in every
  state that is not final.  What follows for their runs is proved here once.
\<close>

section \<open>Runs\<close>

text \<open>A run, as the list of the states after the first one, and how many of its steps are of a kind \<open>own\<close>.\<close>

fun run_of :: "('s \<Rightarrow> 's \<Rightarrow> bool) \<Rightarrow> 's \<Rightarrow> 's list \<Rightarrow> bool" where
  "run_of step s [] = True"
| "run_of step s (t # ts) = (step s t \<and> run_of step t ts)"

fun steps_of :: "('s \<Rightarrow> 's \<Rightarrow> bool) \<Rightarrow> 's \<Rightarrow> 's list \<Rightarrow> nat" where
  "steps_of own s [] = 0"
| "steps_of own s (t # ts) = (if own s t then 1 else 0) + steps_of own t ts"

section \<open>Invariants of the states that can be reached\<close>

locale step_system =
  fixes starts :: "'s \<Rightarrow> bool" and step :: "'s \<Rightarrow> 's \<Rightarrow> bool" and inv :: "'s \<Rightarrow> bool"
  assumes start_inv: "starts s \<Longrightarrow> inv s"
    and step_inv: "step s s' \<Longrightarrow> inv s \<Longrightarrow> inv s'"
begin

lemma steps_inv: "step\<^sup>*\<^sup>* s s' \<Longrightarrow> inv s \<Longrightarrow> inv s'"
  by (induction rule: rtranclp_induct) (auto intro: step_inv)

lemma reach_inv: "starts s \<Longrightarrow> step\<^sup>*\<^sup>* s s' \<Longrightarrow> inv s'"
  by (rule steps_inv) (auto intro: start_inv)

end

section \<open>Runs that come to an end\<close>

text \<open>
  \<open>left s\<close> bounds the steps of the kind that is counted, \<open>own\<close>; the other ones, of an environment, may
  be as many as they like but do not add to it.
\<close>

locale bounded_system = step_system starts step inv
  for starts :: "'s \<Rightarrow> bool" and step :: "'s \<Rightarrow> 's \<Rightarrow> bool" and inv :: "'s \<Rightarrow> bool" +
  fixes own :: "'s \<Rightarrow> 's \<Rightarrow> bool" and final :: "'s \<Rightarrow> bool" and left :: "'s \<Rightarrow> nat"
  assumes own_step: "own s s' \<Longrightarrow> step s s'"
    and own_less: "inv s \<Longrightarrow> own s s' \<Longrightarrow> left s' < left s"
    and step_le: "inv s \<Longrightarrow> step s s' \<Longrightarrow> left s' \<le> left s"
    and can_step: "inv s \<Longrightarrow> \<not> final s \<Longrightarrow> \<exists>s'. own s s'"
begin

lemma own_inv: "own s s' \<Longrightarrow> inv s \<Longrightarrow> inv s'"
  using step_inv own_step by blast

text \<open>From every state the final ones can be reached by own steps alone, so the environment is not needed.\<close>

lemma reaches_final: "inv s \<Longrightarrow> \<exists>s'. own\<^sup>*\<^sup>* s s' \<and> final s'"
proof (induction "left s" arbitrary: s rule: less_induct)
  case less
  show ?case
  proof (cases "final s")
    case False
    with can_step less.prems obtain t where t: "own s t" by blast
    from less.hyps[OF own_less[OF less.prems t] own_inv[OF t less.prems]] obtain s' where "own\<^sup>*\<^sup>* t s'" "final s'" by blast
    with t show ?thesis by (meson converse_rtranclp_into_rtranclp)
  qed auto
qed

text \<open>A run has no more own steps than are left at its start.\<close>

lemma own_steps_bounded: "inv s \<Longrightarrow> run_of step s ts \<Longrightarrow> steps_of own s ts \<le> left s"
proof (induction ts arbitrary: s)
  case (Cons t ts)
  then have "step s t" "inv t" "steps_of own t ts \<le> left t" using step_inv by auto
  then show ?case using own_less[of s t] step_le[of s t] Cons.prems(1) by auto
qed simp

text \<open>No run has infinitely many own steps.\<close>

lemma chain_inv: "inv (f 0) \<Longrightarrow> \<forall>i. step (f i) (f (Suc i)) \<Longrightarrow> inv (f i)"
  by (induction i) (auto intro: step_inv)

lemma finitely_many_own:
  assumes "inv (f 0)" and "\<forall>i. step (f i) (f (Suc i))"
  shows "\<exists>n. \<forall>i\<ge>n. \<not> own (f i) (f (Suc i))"
proof (rule ccontr)
  assume "\<not> ?thesis"
  then have inf: "\<forall>n. \<exists>i\<ge>n. own (f i) (f (Suc i))" by blast
  have le: "left (f (n + k)) \<le> left (f n)" for n k
    by (induction k) (use chain_inv[OF assms] assms(2) step_le order.trans in \<open>fastforce+\<close>)
  have "\<exists>n. left (f n) + k \<le> left (f 0)" for k
  proof (induction k)
    case (Suc k)
    then obtain n where n: "left (f n) + k \<le> left (f 0)" by blast
    from inf obtain i where i: "n \<le> i" "own (f i) (f (Suc i))" by blast
    then have "left (f (Suc i)) < left (f i)" using own_less chain_inv[OF assms] by blast
    moreover have "left (f i) \<le> left (f n)" using le[of n "i - n"] i(1) by simp
    ultimately have "left (f (Suc i)) + Suc k \<le> left (f 0)" using n by linarith
    then show ?case by blast
  qed (auto intro: exI[of _ 0])
  then obtain n where "left (f n) + Suc (left (f 0)) \<le> left (f 0)" by blast
  then show False by simp
qed

end

section \<open>Systems whose every step counts\<close>

locale ending_system = step_system starts step inv
  for starts :: "'s \<Rightarrow> bool" and step :: "'s \<Rightarrow> 's \<Rightarrow> bool" and inv :: "'s \<Rightarrow> bool" +
  fixes final :: "'s \<Rightarrow> bool" and left :: "'s \<Rightarrow> nat"
  assumes step_less: "inv s \<Longrightarrow> step s s' \<Longrightarrow> left s' < left s"
    and progress: "inv s \<Longrightarrow> \<not> final s \<Longrightarrow> \<exists>s'. step s s'"
begin

sublocale ending: bounded_system starts step inv step final left
  using step_less progress by unfold_locales (auto simp: less_imp_le)

lemma runs_bounded: "inv s \<Longrightarrow> (step ^^ n) s s' \<Longrightarrow> n + left s' \<le> left s"
proof (induction n arbitrary: s')
  case (Suc n)
  then obtain t where t: "(step ^^ n) s t" "step t s'" by auto
  then have "inv t" using Suc.prems(1) steps_inv relpowp_imp_rtranclp by metis
  with t Suc.IH[OF Suc.prems(1) t(1)] step_less[of t s'] show ?case by simp
qed simp

lemma ends: "inv s \<Longrightarrow> \<exists>s'. step\<^sup>*\<^sup>* s s' \<and> final s'"
  by (rule ending.reaches_final)

lemma stuck_final: "inv s \<Longrightarrow> \<nexists>s'. step s s' \<Longrightarrow> final s"
  using progress by blast

lemma no_infinite_run: "inv (f 0) \<Longrightarrow> \<exists>i. \<not> step (f i) (f (Suc i))"
  using ending.finitely_many_own by blast

end

end
