(* ===== verification/Memory_Leak.thy ===== *)
theory Memory_Leak
  imports C_Prelude Transitions
begin

text \<open>
  The checker for memory leaks, gcc/warp_malloc/CCheckMemoryLeak.cpp: a table of the allocated
  addresses kept by wrappers around the allocator, the report of what is in it, and the thread that
  watches its size.  What the allocator, backtrace and the demangler return is input.  The macro
  \<open>__HOOK__\<close> is 0, so the functions that exchange the hooks do nothing.
\<close>

section \<open>The table\<close>

type_synonym addr = nat
type_synonym size_t = "64 word"

text \<open>\<open>BtInfo_t\<close>: the frames as an array of strings, which may be null; \<open>size\<close> is their number.\<close>

record bt_info =
  bt_size :: nat
  str_bt :: "mem option list option"
  mem_size :: size_t
  bt_tid :: nat
  bt_pid :: nat

text \<open>std::map: the entries in the order of their addresses; insert keeps an entry that is there.\<close>

type_synonym table = "(addr \<times> bt_info) list"

fun table_insert :: "addr \<Rightarrow> bt_info \<Rightarrow> table \<Rightarrow> table" where
  "table_insert p i [] = [(p, i)]"
| "table_insert p i ((q, j) # t) =
     (if p < q then (p, i) # (q, j) # t else if p = q then (q, j) # t else (q, j) # table_insert p i t)"

fun table_erase :: "addr \<Rightarrow> table \<Rightarrow> table" where
  "table_erase p [] = []"
| "table_erase p ((q, j) # t) = (if p = q then t else (q, j) # table_erase p t)"

text \<open>The frames, if backtrace and backtrace_symbols succeed, and who calls.\<close>

record caller =
  c_frames :: "mem option list option"
  c_tid :: nat
  c_pid :: nat

definition get_backtrace_info :: "caller \<Rightarrow> (mem option list option \<times> nat)" where
  "get_backtrace_info cl = (case c_frames cl of None \<Rightarrow> (None, 0) | Some fs \<Rightarrow> if fs = [] then (None, 0) else (Some fs, length fs))"

text \<open>A null pointer is 0.\<close>

definition save_malloc_pointer_info :: "caller \<Rightarrow> addr \<Rightarrow> size_t \<Rightarrow> table \<Rightarrow> table" where
  "save_malloc_pointer_info cl ptr sz t =
     (if ptr = 0 then t
      else let (fs, n) = get_backtrace_info cl in
        table_insert ptr \<lparr>bt_size = n, str_bt = fs, mem_size = sz, bt_tid = c_tid cl, bt_pid = c_pid cl\<rparr> t)"

definition remove_free_pointer_info :: "addr \<Rightarrow> table \<Rightarrow> bool \<times> table" where
  "remove_free_pointer_info ptr t =
     (if ptr = 0 then (True, t) else if map_of t ptr = None then (False, t) else (True, table_erase ptr t))"

section \<open>The wrappers\<close>

text \<open>\<open>p\<close> is the result of the allocator; the wrapper returns it.\<close>

definition wrap_malloc :: "caller \<Rightarrow> addr \<Rightarrow> size_t \<Rightarrow> table \<Rightarrow> addr \<times> table" where
  "wrap_malloc cl p sz t = (p, save_malloc_pointer_info cl p sz t)"

definition wrap_free :: "addr \<Rightarrow> table \<Rightarrow> table" where
  "wrap_free ptr t = snd (remove_free_pointer_info ptr t)"

definition my_memalign :: "caller \<Rightarrow> addr \<Rightarrow> size_t \<Rightarrow> table \<Rightarrow> addr \<times> table" where
  "my_memalign cl p sz t = (p, save_malloc_pointer_info cl p sz t)"

definition wrap_realloc :: "caller \<Rightarrow> addr \<Rightarrow> addr \<Rightarrow> size_t \<Rightarrow> table \<Rightarrow> addr \<times> table" where
  "wrap_realloc cl p ptr sz t =
     (p, if p \<noteq> 0 then save_malloc_pointer_info cl p sz (snd (remove_free_pointer_info ptr t)) else t)"

definition wrap_calloc :: "caller \<Rightarrow> addr \<Rightarrow> size_t \<Rightarrow> size_t \<Rightarrow> table \<Rightarrow> addr \<times> table" where
  "wrap_calloc cl p numElements sizeOfElement t = (p, save_malloc_pointer_info cl p (numElements * sizeOfElement) t)"

section \<open>Symbols\<close>

fun first_index :: "byte \<Rightarrow> byte list \<Rightarrow> nat option" where
  "first_index c [] = None"
| "first_index c (b # s) = (if b = c then Some 0 else map_option Suc (first_index c s))"

fun last_index :: "byte \<Rightarrow> byte list \<Rightarrow> nat option" where
  "last_index c [] = None"
| "last_index c (b # s) = (case last_index c s of Some i \<Rightarrow> Some (Suc i) | None \<Rightarrow> if b = c then Some 0 else None)"

definition SYMBOL_LEN :: nat where "SYMBOL_LEN = 256"

text \<open>From behind the last slash to the end of the first ".so".\<close>

definition get_libname :: "mem option \<Rightarrow> mem option \<Rightarrow> (bool \<times> mem option) c" where
  "get_libname symbol libname =
     (case (symbol, libname) of (Some m, Some b) \<Rightarrow>
        cbind (strlen m 0) (\<lambda>_.
          let s = str_at m 0 in
          case sub_index s (ascii ''.so'') of None \<Rightarrow> Inr (False, libname)
          | Some e \<Rightarrow>
              (let sta = (case last_index 47 s of None \<Rightarrow> 0 | Some i \<Rightarrow> i + 1); n = int e + 3 - int sta in
               if n \<le> 0 then Inr (False, libname)
               else cbind (wrs b 0 (strncpy_bytes (drop sta s) (nat n))) (\<lambda>b. Inr (True, Some b))))
      | _ \<Rightarrow> Inr (False, libname))"

text \<open>From behind the first parenthesis to the first plus sign.\<close>

definition get_funcname :: "mem option \<Rightarrow> mem option \<Rightarrow> (bool \<times> mem option) c" where
  "get_funcname symbol funcname =
     (case (symbol, funcname) of (Some m, Some b) \<Rightarrow>
        cbind (strlen m 0) (\<lambda>_.
          let s = str_at m 0 in
          case first_index 40 s of None \<Rightarrow> Inr (False, funcname)
          | Some i \<Rightarrow> (case first_index 43 s of None \<Rightarrow> Inr (False, funcname)
            | Some e \<Rightarrow>
                (let n = int e - int (i + 1) in
                 if n \<le> 1 then Inr (False, funcname)
                 else cbind (wrs b 0 (strncpy_bytes (drop (i + 1) s) (nat n))) (\<lambda>b. Inr (True, Some b)))))
      | _ \<Rightarrow> Inr (False, funcname))"

text \<open>\<open>demangle\<close> is __cxa_demangle; the buffer has 256 bytes.\<close>

definition trans_symbol_name :: "(byte list \<Rightarrow> byte list option) \<Rightarrow> mem \<Rightarrow> (bool \<times> mem) c" where
  "trans_symbol_name demangle symbol_name =
     cbind (strlen symbol_name 0) (\<lambda>_.
       case demangle (str_at symbol_name 0) of None \<Rightarrow> Inr (False, symbol_name)
       | Some realname \<Rightarrow> cbind (wrs symbol_name 0 (strncpy_bytes realname SYMBOL_LEN)) (\<lambda>m. Inr (True, m)))"

text \<open>A line that is printed; of a frame, its number, function, file and line.\<close>

datatype report =
    Unfreed nat
  | Entry nat addr size_t nat nat
  | Backtrace nat nat
  | Frame int "byte list option" "byte list option" int
  | Sum nat size_t

text \<open>The counter of the frames is a global variable.\<close>

type_synonym printer = "int \<times> report list"

definition format_output_info :: "mem option \<Rightarrow> mem option \<Rightarrow> int \<Rightarrow> printer \<Rightarrow> printer c" where
  "format_output_info funcname file line pr =
     cbind (case funcname of None \<Rightarrow> Inr (Frame (fst pr) None None 0)
        | Some f \<Rightarrow> cbind (strlen f 0) (\<lambda>_. case file of None \<Rightarrow> Inr (Frame (fst pr) (Some (str_at f 0)) None 0)
            | Some g \<Rightarrow> cbind (strlen g 0) (\<lambda>_. Inr (Frame (fst pr) (Some (str_at f 0)) (Some (str_at g 0)) line))))
       (\<lambda>r. cbind (chk (fst pr + 1)) (\<lambda>k. Inr (k, snd pr @ [r])))"

definition parse_func_info :: "(byte list \<Rightarrow> byte list option) \<Rightarrow> mem option \<Rightarrow> printer \<Rightarrow> printer c" where
  "parse_func_info demangle symbol pr =
     (case symbol of None \<Rightarrow> Inr pr
      | Some m \<Rightarrow>
          cbind (get_funcname symbol (Some (replicate SYMBOL_LEN 0))) (\<lambda>(ok, f).
            if ok then
              (case f of None \<Rightarrow> Inl Null_deref
               | Some f \<Rightarrow> cbind (trans_symbol_name demangle f) (\<lambda>(_, f). format_output_info (Some f) None 0 pr))
            else format_output_info symbol None 0 pr))"

text \<open>The directory of the symbols: its entries, or \<open>None\<close> when it cannot be opened.\<close>

definition get_lib_symbol_path :: "byte list list option \<Rightarrow> byte list \<Rightarrow> byte list option" where
  "get_lib_symbol_path dir libname =
     (case dir of None \<Rightarrow> None | Some es \<Rightarrow> List.find (\<lambda>e. sub_index e libname \<noteq> None) es)"

text \<open>The buffer for the name of the function is not cleared here.\<close>

definition parse_lib_symbol_info ::
    "(byte list \<Rightarrow> byte list option) \<Rightarrow> mem \<Rightarrow> byte list list option \<Rightarrow> mem \<Rightarrow> mem option \<Rightarrow> mem \<Rightarrow> printer \<Rightarrow> printer c" where
  "parse_lib_symbol_info demangle dym_symbol_dir dir junk symbol libname pr =
     cbind (rd dym_symbol_dir 0) (\<lambda>d.
       if d = 0 then parse_func_info demangle symbol pr
       else cbind (get_funcname symbol (Some junk)) (\<lambda>(ok, f).
         if \<not> ok then format_output_info symbol None 0 pr
         else cbind (strlen libname 0) (\<lambda>_.
           case get_lib_symbol_path dir (str_at libname 0) of None \<Rightarrow> format_output_info f None 0 pr
           | Some e \<Rightarrow> Inr pr)))"

section \<open>The report\<close>

record symbol_env =
  demangler :: "byte list \<Rightarrow> byte list option"
  dym_symbol_dir :: mem
  dym_entries :: "byte list list option"
  stack_junk :: mem

definition report_frame :: "symbol_env \<Rightarrow> mem option \<Rightarrow> printer \<Rightarrow> printer c" where
  "report_frame en symbol pr =
     (case symbol of None \<Rightarrow> Inr pr
      | Some m \<Rightarrow> cbind (get_libname symbol (Some (replicate SYMBOL_LEN 0))) (\<lambda>(ok, l).
          case l of None \<Rightarrow> Inl Null_deref
          | Some l \<Rightarrow> if ok then parse_lib_symbol_info (demangler en) (dym_symbol_dir en) (dym_entries en) (stack_junk en) symbol l pr
              else parse_func_info (demangler en) symbol pr))"

fun report_frames :: "symbol_env \<Rightarrow> mem option list \<Rightarrow> nat \<Rightarrow> printer \<Rightarrow> printer c" where
  "report_frames en fs 0 pr = Inr pr"
| "report_frames en [] (Suc n) pr = Inl Read_oob"
| "report_frames en (f # fs) (Suc n) pr = cbind (report_frame en f pr) (report_frames en fs n)"

fun report_entries :: "symbol_env \<Rightarrow> table \<Rightarrow> nat \<Rightarrow> size_t \<Rightarrow> printer \<Rightarrow> (size_t \<times> printer) c" where
  "report_entries en [] count memsize pr = Inr (memsize, pr)"
| "report_entries en ((p, i) # t) count memsize pr =
     (let count = count + 1; memsize = memsize + mem_size i;
          pr = (fst pr, snd pr @ [Entry count p (mem_size i) (bt_tid i) (bt_pid i), Backtrace count (bt_size i)]) in
      cbind (case str_bt i of None \<Rightarrow> if bt_size i = 0 then Inr pr else Inl Null_deref
             | Some fs \<Rightarrow> report_frames en fs (bt_size i) pr) (\<lambda>pr.
        report_entries en t count memsize (fst pr, snd pr @ [Sum count memsize])))"

definition malloc_info_map_status :: "symbol_env \<Rightarrow> table \<Rightarrow> int \<Rightarrow> (int \<times> report list) c" where
  "malloc_info_map_status en t frame_pos =
     (if t = [] then Inr (frame_pos, [Unfreed 0])
      else cbind (report_entries en t 0 0 (0, [Unfreed (length t)])) (\<lambda>(_, pr). Inr pr))"

definition CCheckMemoryLeakGetMallocSizeInfo :: "table \<Rightarrow> size_t" where
  "CCheckMemoryLeakGetMallocSizeInfo t = of_nat (length t)"

text \<open>The name of the directory is copied with its full 256 bytes, whatever its length.\<close>

definition CCheckMemoryLeakSetDymSymbolDir :: "mem option \<Rightarrow> mem \<Rightarrow> mem c" where
  "CCheckMemoryLeakSetDymSymbolDir dir old =
     (case dir of None \<Rightarrow> Inr old
      | Some d \<Rightarrow> if length d < SYMBOL_LEN then Inl Read_oob else wrs old 0 (take SYMBOL_LEN d))"

section \<open>The table and the allocator\<close>

text \<open>
  What the allocator promises: a result that is not null is the address of a block that was not live,
  \<open>free\<close> is called on live blocks, \<open>realloc\<close> moves a block, and with size 0 it may free it and return
  null.  \<open>None\<close> is a call that breaks the contract.
\<close>

datatype request = Malloc size_t | Calloc size_t size_t | Memalign size_t | Free addr | Realloc addr size_t

type_synonym live = "addr \<Rightarrow> size_t option"

definition fresh_block :: "addr \<Rightarrow> size_t \<Rightarrow> live \<Rightarrow> live option" where
  "fresh_block p sz l = (if p = 0 then Some l else if l p = None then Some (l(p \<mapsto> sz)) else None)"

fun alloc_step :: "request \<Rightarrow> addr \<Rightarrow> live \<Rightarrow> live option" where
  "alloc_step (Malloc sz) p l = fresh_block p sz l"
| "alloc_step (Memalign sz) p l = fresh_block p sz l"
| "alloc_step (Calloc n k) p l = (if p \<noteq> 0 \<and> 2 ^ 64 \<le> unat n * unat k then None else fresh_block p (n * k) l)"
| "alloc_step (Free ptr) p l = (if ptr = 0 then Some l else if l ptr = None then None else Some (l(ptr := None)))"
| "alloc_step (Realloc ptr sz) p l =
     (if ptr = 0 then fresh_block p sz l
      else if l ptr = None then None
      else if p = 0 then Some (if sz = 0 then l(ptr := None) else l)
      else fresh_block p sz (l(ptr := None)))"

fun track_step :: "caller \<Rightarrow> request \<Rightarrow> addr \<Rightarrow> table \<Rightarrow> table" where
  "track_step cl (Malloc sz) p t = snd (wrap_malloc cl p sz t)"
| "track_step cl (Memalign sz) p t = snd (my_memalign cl p sz t)"
| "track_step cl (Calloc n k) p t = snd (wrap_calloc cl p n k t)"
| "track_step cl (Free ptr) p t = wrap_free ptr t"
| "track_step cl (Realloc ptr sz) p t = snd (wrap_realloc cl p ptr sz t)"

text \<open>A block given back through realloc.\<close>

fun freed_by_realloc :: "request \<Rightarrow> addr \<Rightarrow> bool" where
  "freed_by_realloc (Realloc ptr sz) p \<longleftrightarrow> ptr \<noteq> 0 \<and> p = 0 \<and> sz = 0"
| "freed_by_realloc _ p \<longleftrightarrow> False"

type_synonym trace = "(caller \<times> request \<times> addr) list"

fun alloc_all :: "trace \<Rightarrow> live \<Rightarrow> live option" where
  "alloc_all [] l = Some l"
| "alloc_all ((cl, r, p) # tr) l = (case alloc_step r p l of None \<Rightarrow> None | Some l' \<Rightarrow> alloc_all tr l')"

fun track_all :: "trace \<Rightarrow> table \<Rightarrow> table" where
  "track_all [] t = t"
| "track_all ((cl, r, p) # tr) t = track_all tr (track_step cl r p t)"

definition tracks :: "table \<Rightarrow> live \<Rightarrow> bool" where
  "tracks t l \<longleftrightarrow> sorted (map fst t) \<and> distinct (map fst t) \<and> l = map_option mem_size \<circ> map_of t"

lemma keys_insert: "set (map fst (table_insert p i t)) = insert p (set (map fst t))"
  by (induction p i t rule: table_insert.induct) auto

lemma keys_erase: "distinct (map fst t) \<Longrightarrow> set (map fst (table_erase p t)) = set (map fst t) - {p}"
  by (induction p t rule: table_erase.induct) auto

lemma insert_ok:
  "sorted (map fst t) \<Longrightarrow> distinct (map fst t) \<Longrightarrow>
     sorted (map fst (table_insert p i t)) \<and> distinct (map fst (table_insert p i t)) \<and>
     map_of (table_insert p i t) = (if p \<in> set (map fst t) then map_of t else (map_of t)(p \<mapsto> i))"
proof (induction p i t rule: table_insert.induct)
  case (2 p i q j t)
  have k: "set (map fst (table_insert p i t)) = insert p (set (map fst t))" by (rule keys_insert)
  show ?case
  proof (cases "q < p")
    case True
    then have "sorted (map fst (table_insert p i t))" "distinct (map fst (table_insert p i t))"
      "map_of (table_insert p i t) = (if p \<in> set (map fst t) then map_of t else (map_of t)(p \<mapsto> i))"
      using 2 by auto
    then show ?thesis using True k 2(2,3) by (auto simp del: set_map)
  next
    case False
    then show ?thesis using 2(2,3) by (auto simp: less_imp_le dest: order.strict_trans1)
  qed
qed simp

lemma erase_ok:
  "sorted (map fst t) \<Longrightarrow> distinct (map fst t) \<Longrightarrow>
     sorted (map fst (table_erase p t)) \<and> distinct (map fst (table_erase p t)) \<and>
     (\<forall>a. map_of (table_erase p t) a = (if a = p then None else map_of t a))"
proof (induction p t rule: table_erase.induct)
  case (2 p q j t)
  have "q \<noteq> p \<Longrightarrow> set (map fst (table_erase p t)) = set (map fst t) - {p}" using keys_erase 2(3) by simp
  moreover have "q \<notin> set (map fst t) \<Longrightarrow> map_of t q = None" by (simp add: map_of_eq_None_iff)
  ultimately show ?case using 2 by (cases "p = q") (auto simp del: set_map)
qed auto

lemma tracks_save:
  assumes "tracks t l" and "fresh_block p sz l = Some l'"
  shows "tracks (save_malloc_pointer_info cl p sz t) l'"
proof (cases "p = 0")
  case True
  with assms show ?thesis by (simp add: save_malloc_pointer_info_def fresh_block_def)
next
  case False
  then have l: "l p = None" "l' = l(p \<mapsto> sz)" using assms(2) by (auto simp: fresh_block_def split: if_splits)
  then have "p \<notin> set (map fst t)" using assms(1) by (simp add: tracks_def map_of_eq_None_iff)
  moreover have "map_option mem_size \<circ> (map_of t)(p \<mapsto> i) = (map_option mem_size \<circ> map_of t)(p \<mapsto> mem_size i)" for i
    by (simp add: fun_eq_iff)
  ultimately show ?thesis using insert_ok[of t p] l assms(1) False
    by (simp add: tracks_def save_malloc_pointer_info_def split: prod.split)
qed

lemma tracks_remove:
  assumes "tracks t l" and "p \<noteq> 0"
  shows "tracks (snd (remove_free_pointer_info p t)) (l(p := None))"
proof (cases "map_of t p")
  case None
  then show ?thesis using assms by (simp add: tracks_def remove_free_pointer_info_def fun_upd_idem)
next
  case (Some i)
  then show ?thesis using assms erase_ok[of t p] by (auto simp: tracks_def remove_free_pointer_info_def fun_eq_iff)
qed

lemma track_step_ok:
  assumes "tracks t l" and "alloc_step r p l = Some l'" and "\<not> freed_by_realloc r p"
  shows "tracks (track_step cl r p t) l'"
proof (cases r)
  case (Free ptr)
  with assms show ?thesis
    using tracks_remove[OF assms(1), of ptr] by (auto simp: wrap_free_def remove_free_pointer_info_def split: if_splits)
next
  case (Realloc ptr sz)
  show ?thesis
  proof (cases "ptr = 0")
    case True
    then show ?thesis using assms Realloc tracks_save[of t l p sz l' cl]
      by (auto simp: wrap_realloc_def remove_free_pointer_info_def fresh_block_def split: if_splits)
  next
    case False
    then show ?thesis using assms Realloc tracks_save[OF tracks_remove[OF assms(1) False], of p sz l' cl]
      by (auto simp: wrap_realloc_def split: if_splits)
  qed
qed (use assms tracks_save[OF assms(1)] in \<open>auto simp: wrap_malloc_def wrap_calloc_def my_memalign_def split: if_splits\<close>)

lemma track_all_ok:
  "tracks t l \<Longrightarrow> alloc_all tr l = Some l' \<Longrightarrow> \<forall>(cl, r, p) \<in> set tr. \<not> freed_by_realloc r p \<Longrightarrow> tracks (track_all tr t) l'"
proof (induction tr arbitrary: t l)
  case (Cons x tr)
  obtain cl r p where x: "x = (cl, r, p)" by (cases x) auto
  then obtain l1 where "alloc_step r p l = Some l1" "alloc_all tr l1 = Some l'"
    using Cons.prems(2) by (auto split: option.splits)
  with Cons.IH[of "track_step cl r p t" l1] track_step_ok[OF Cons.prems(1)] Cons.prems(3) x show ?case by simp
qed simp

lemma tracks_live: "tracks t l \<Longrightarrow> card (dom l) = length t"
proof -
  assume t: "tracks t l"
  then have "dom l = dom (map_of t)" by (auto simp only: tracks_def dom_def comp_apply option.map_disc_iff)
  then have "dom l = set (map fst t)" by (simp add: dom_map_of_conv_image_fst)
  then have "card (dom l) = length (map fst t)" using t by (simp add: tracks_def distinct_card del: set_map)
  then show ?thesis by simp
qed

text \<open>
  C3.  As long as the allocator keeps its contract and no block is freed by realloc, the table holds exactly the
  live blocks with their sizes, whatever the program allocates, frees and reallocates, and the number
  that is reported is the number of live blocks.
\<close>

theorem leak_table_exact:
  assumes "alloc_all tr (\<lambda>_. None) = Some l" and "\<forall>(cl, r, p) \<in> set tr. \<not> freed_by_realloc r p"
  shows "(\<forall>p. map_option mem_size (map_of (track_all tr []) p) = l p) \<and>
    CCheckMemoryLeakGetMallocSizeInfo (track_all tr []) = of_nat (card (dom l))"
proof -
  have "tracks [] (\<lambda>_. None)" by (simp add: tracks_def)
  from track_all_ok[OF this assms] have t: "tracks (track_all tr []) l" .
  then show ?thesis using tracks_live[OF t] by (simp add: tracks_def CCheckMemoryLeakGetMallocSizeInfo_def)
qed

definition some_caller :: caller where "some_caller = \<lparr>c_frames = None, c_tid = 1, c_pid = 1\<rparr>"

theorem leak_table_exact_witness:
  "map_option mem_size (map_of (track_all [(some_caller, Malloc 8, 5), (some_caller, Realloc 5 16, 3), (some_caller, Malloc 4, 5),
     (some_caller, Free 5, 0)] []) 3) = Some 16"
proof -
  let ?tr = "[(some_caller, Malloc 8, 5), (some_caller, Realloc 5 16, 3), (some_caller, Malloc 4, 5), (some_caller, Free 5, 0)]"
  have "alloc_all ?tr (\<lambda>_. None) = Some ((\<lambda>_. None)(5 := None, 3 \<mapsto> 16, 5 \<mapsto> 4, 5 := None))"
    by (simp add: fresh_block_def)
  from leak_table_exact[OF this] show ?thesis by simp
qed

text \<open>
  A block freed by realloc stays in the table, and the size of the next block at its address is not
  recorded.
\<close>

lemma realloc_zero_stale:
  "map_option mem_size (map_of (track_all [(some_caller, Malloc 8, 5), (some_caller, Realloc 5 0, 0)] []) 5) = Some 8"
  "map_option mem_size (map_of (track_all [(some_caller, Malloc 8, 5), (some_caller, Realloc 5 0, 0), (some_caller, Malloc 16, 5)] []) 5) = Some 8"
  "alloc_all [(some_caller, Malloc 8, 5), (some_caller, Realloc 5 0, 0)] (\<lambda>_. None) = Some ((\<lambda>_. None)(5 \<mapsto> 8, 5 := None))"
  by (code_simp, code_simp, simp add: fresh_block_def)

section \<open>What the report says\<close>

definition entries_of :: "report list \<Rightarrow> (addr \<times> size_t) list" where
  "entries_of rs = concat (map (\<lambda>r. case r of Entry n p sz tid pid \<Rightarrow> [(p, sz)] | _ \<Rightarrow> []) rs)"

lemma entries_of_simps [simp]:
  "entries_of [] = []" "entries_of (rs @ rs') = entries_of rs @ entries_of rs'"
  "entries_of (Entry n p sz tid pid # rs) = (p, sz) # entries_of rs" "entries_of (Unfreed n # rs) = entries_of rs"
  "entries_of (Backtrace n k # rs) = entries_of rs" "entries_of (Sum n sz # rs) = entries_of rs"
  "entries_of (Frame j f g line # rs) = entries_of rs"
  by (simp_all add: entries_of_def)

text \<open>Printing goes on from one state to another, with these entries in between.\<close>

definition adds :: "(addr \<times> size_t) list \<Rightarrow> printer \<Rightarrow> printer \<Rightarrow> bool" where
  "adds es pr pr' \<longleftrightarrow> (\<exists>rs. snd pr' = snd pr @ rs \<and> entries_of rs = es)"

lemma adds_refl [simp]: "adds [] pr pr"
  by (simp add: adds_def)

lemma adds_trans: "adds es pr pr1 \<Longrightarrow> adds es' pr1 pr2 \<Longrightarrow> adds (es @ es') pr pr2"
  by (auto simp: adds_def)

lemma format_adds: "format_output_info f g line pr = Inr pr' \<Longrightarrow> adds [] pr pr'"
  by (auto simp: format_output_info_def adds_def elim!: cbindE split: option.splits)

lemma func_adds: "parse_func_info d symbol pr = Inr pr' \<Longrightarrow> adds [] pr pr'"
  by (auto simp: parse_func_info_def elim!: cbindE split: option.splits if_splits intro: format_adds)

lemma lib_adds: "parse_lib_symbol_info d sd es junk symbol l pr = Inr pr' \<Longrightarrow> adds [] pr pr'"
  by (auto simp: parse_lib_symbol_info_def elim!: cbindE split: option.splits if_splits) (erule func_adds format_adds)+

lemma frame_adds: "report_frame en f pr = Inr pr' \<Longrightarrow> adds [] pr pr'"
  by (auto simp: report_frame_def elim!: cbindE split: option.splits if_splits intro: lib_adds func_adds)

lemma frames_adds: "report_frames en fs n pr = Inr pr' \<Longrightarrow> adds [] pr pr'"
proof (induction en fs n pr rule: report_frames.induct)
  case (3 en f fs n pr)
  from "3.prems" obtain pr1 where "report_frame en f pr = Inr pr1" "report_frames en fs n pr1 = Inr pr'"
    by (auto elim!: cbindE)
  with "3.IH"[of pr1] adds_trans[OF frame_adds, of en f pr pr1 "[]" pr'] show ?case by simp
qed auto

lemma report_entries_adds:
  "report_entries en t k m pr = Inr (m', pr') \<Longrightarrow>
     adds (map (\<lambda>(p, i). (p, mem_size i)) t) pr pr' \<and> m' = m + sum_list (map (mem_size \<circ> snd) t)"
proof (induction t arbitrary: k m pr)
  case (Cons x t)
  obtain p i where x: "x = (p, i)" by (cases x)
  let ?pr = "(fst pr, snd pr @ [Entry (k + 1) p (mem_size i) (bt_tid i) (bt_pid i), Backtrace (k + 1) (bt_size i)])"
  obtain pr1 where pr1: "(case str_bt i of None \<Rightarrow> if bt_size i = 0 then Inr ?pr else Inl Null_deref
      | Some fs \<Rightarrow> report_frames en fs (bt_size i) ?pr) = Inr pr1"
    and rest: "report_entries en t (k + 1) (m + mem_size i) (fst pr1, snd pr1 @ [Sum (k + 1) (m + mem_size i)]) = Inr (m', pr')"
    using Cons.prems unfolding x report_entries.simps Let_def by (elim cbindE) blast
  have "adds [] ?pr pr1" using pr1 by (auto split: option.splits if_splits dest: frames_adds)
  then have "adds [(p, mem_size i)] pr (fst pr1, snd pr1 @ [Sum (k + 1) (m + mem_size i)])" by (auto simp: adds_def)
  from adds_trans[OF this] Cons.IH[OF rest] show ?case by (fastforce simp: x add.assoc)
qed simp

text \<open>
  The report counts the entries of the table and lists each with its size, in the order of the
  addresses; with an empty table it only says 0.
\<close>

lemma status_lists_table:
  assumes "malloc_info_map_status en t k = Inr (k', out)"
  shows "hd out = Unfreed (length t) \<and> entries_of out = map (\<lambda>(p, i). (p, mem_size i)) t"
proof (cases "t = []")
  case False
  then obtain m where "report_entries en t 0 0 (0, [Unfreed (length t)]) = Inr (m, (k', out))"
    using assms by (auto simp: malloc_info_map_status_def elim!: cbindE)
  from report_entries_adds[OF this] show ?thesis by (auto simp: adds_def)
qed (use assms in \<open>auto simp: malloc_info_map_status_def\<close>)

text \<open>get_funcname takes the name out of a line like \<open>./prog(name+0x1d) [0x4008f6]\<close>, from two characters on.\<close>

lemma first_index_at: "c \<notin> set u \<Longrightarrow> first_index c (u @ c # v) = Some (length u)"
  by (induction u) auto

lemma get_funcname_symbol:
  assumes "40 \<notin> set u" and "43 \<notin> set u" and "43 \<notin> set nm" and "0 \<notin> set (u @ nm @ v)" and "length nm \<le> SYMBOL_LEN"
  shows "get_funcname (Some (u @ 40 # nm @ 43 # v @ [0])) (Some (replicate SYMBOL_LEN 0)) =
    Inr (if length nm \<le> 1 then (False, Some (replicate SYMBOL_LEN 0))
      else (True, Some (nm @ replicate (SYMBOL_LEN - length nm) 0)))"
proof -
  let ?s = "u @ 40 # nm @ 43 # v"
  have z: "0 \<notin> set ?s" "0 \<notin> set nm" using assms(4) by auto
  have m: "strlen (?s @ [0]) 0 = Inr (length ?s)" "str_at (?s @ [0]) 0 = ?s"
    using strlen_text[OF z(1)] str_at_text[OF z(1)] by simp_all
  have i: "first_index 40 ?s = Some (length u)" "first_index 43 ?s = Some (length u + 1 + length nm)"
    using first_index_at[OF assms(1)] first_index_at[of 43 "u @ 40 # nm" v] assms(2,3) by simp_all
  have tw: "takeWhile (\<lambda>b. b \<noteq> 0) nm = nm" by (rule takeWhile_id[OF z(2)])
  have "strncpy_bytes (nm @ 43 # v) (length nm) = nm" by (simp add: strncpy_bytes_def Let_def tw)
  with m i assms(5) show ?thesis by (simp add: get_funcname_def wrs_in)
qed

section \<open>The monitor and the end of the program\<close>

text \<open>
  The thread \<open>malloc_size_monitor\<close> beside the program, whose calls of the wrappers change the size of the
  table while the mutex is free, and the destructor: it takes the mutex, sets \<open>thread_exit\<close>, waits
  for the thread with the mutex held, and gives it back.  The thread takes the mutex for a report.
\<close>

datatype monitor_pc = Test | Compare | Acquire | Report | Pause | Gone
datatype exit_pc = Running | Destroy | Joining | Ended
datatype holder = Nobody | Monitor | Exiting

record sys =
  mon :: monitor_pc
  exi :: exit_pc
  mutex :: holder
  thread_exit :: bool
  entries :: nat

inductive sys_step :: "nat \<Rightarrow> sys \<Rightarrow> sys \<Rightarrow> bool" for check_point where
  go: "mon s = Test \<Longrightarrow> \<not> thread_exit s \<Longrightarrow> sys_step check_point s (s\<lparr>mon := Compare\<rparr>)"
| leave: "mon s = Test \<Longrightarrow> thread_exit s \<Longrightarrow> sys_step check_point s (s\<lparr>mon := Gone\<rparr>)"
| many: "mon s = Compare \<Longrightarrow> check_point \<le> entries s \<Longrightarrow> sys_step check_point s (s\<lparr>mon := Acquire\<rparr>)"
| few: "mon s = Compare \<Longrightarrow> entries s < check_point \<Longrightarrow> sys_step check_point s (s\<lparr>mon := Pause\<rparr>)"
| acquire: "mon s = Acquire \<Longrightarrow> mutex s = Nobody \<Longrightarrow> sys_step check_point s (s\<lparr>mon := Report, mutex := Monitor\<rparr>)"
| report: "mon s = Report \<Longrightarrow> sys_step check_point s (s\<lparr>mon := Pause, mutex := Nobody\<rparr>)"
| pause: "mon s = Pause \<Longrightarrow> sys_step check_point s (s\<lparr>mon := Test\<rparr>)"
| work: "exi s = Running \<Longrightarrow> mutex s = Nobody \<Longrightarrow> sys_step check_point s (s\<lparr>entries := n\<rparr>)"
| finish: "exi s = Running \<Longrightarrow> sys_step check_point s (s\<lparr>exi := Destroy\<rparr>)"
| destroy: "exi s = Destroy \<Longrightarrow> mutex s = Nobody \<Longrightarrow>
    sys_step check_point s (s\<lparr>exi := Joining, mutex := Exiting, thread_exit := True\<rparr>)"
| join: "exi s = Joining \<Longrightarrow> mon s = Gone \<Longrightarrow> sys_step check_point s (s\<lparr>exi := Ended, mutex := Nobody\<rparr>)"

definition sys_start :: sys where
  "sys_start = \<lparr>mon = Test, exi = Running, mutex = Nobody, thread_exit = False, entries = 0\<rparr>"

inductive sys_reach :: "nat \<Rightarrow> sys \<Rightarrow> bool" for check_point where
  start: "sys_reach check_point sys_start"
| step: "sys_reach check_point s \<Longrightarrow> sys_step check_point s s' \<Longrightarrow> sys_reach check_point s'"

text \<open>Who holds the mutex and when the flag is set.\<close>

definition sys_inv :: "sys \<Rightarrow> bool" where
  "sys_inv s \<longleftrightarrow> (mutex s = Monitor \<longleftrightarrow> mon s = Report) \<and> (mutex s = Exiting \<longleftrightarrow> exi s = Joining) \<and>
     (thread_exit s \<longleftrightarrow> exi s = Joining \<or> exi s = Ended)"

lemma sys_step_inv:
  assumes "sys_step cp s s'" and "sys_inv s"
  shows "sys_inv s'"
  using assms(1) by cases (use assms(2) in \<open>auto simp: sys_inv_def\<close>)

interpretation checker: step_system "\<lambda>s. s = sys_start" "sys_step cp" sys_inv for cp
  by unfold_locales (simp add: sys_inv_def sys_start_def, rule sys_step_inv)

lemma sys_reach_steps: "sys_reach cp s \<Longrightarrow> (sys_step cp)\<^sup>*\<^sup>* sys_start s"
  by (induction rule: sys_reach.induct) auto

inductive_simps sys_step_iff: "sys_step cp s s'"

text \<open>The states in which no step is possible.\<close>

lemma sys_inv_blocked:
  assumes "sys_inv s" and "exi s \<noteq> Ended"
  shows "(\<nexists>s'. sys_step cp s s') \<longleftrightarrow> mon s = Acquire \<and> exi s = Joining"
  using assms by (cases "mon s"; cases "exi s"; cases "mutex s"; auto simp: sys_step_iff sys_inv_def not_less)

lemma sys_blocked:
  "sys_reach cp s \<Longrightarrow> exi s \<noteq> Ended \<Longrightarrow> (\<nexists>s'. sys_step cp s s') \<longleftrightarrow> mon s = Acquire \<and> exi s = Joining"
  by (intro sys_inv_blocked checker.reach_inv[OF refl sys_reach_steps])

text \<open>
  The constructor starts with or without the thread.  Without it the wait is left out and the end cannot block.
\<close>

definition CCheckMemoryLeakInit :: "bool \<Rightarrow> sys" where
  "CCheckMemoryLeakInit created = sys_start\<lparr>mon := if created then Test else Gone\<rparr>"

interpretation unmonitored: step_system "\<lambda>s. s = CCheckMemoryLeakInit False" "sys_step cp" "\<lambda>s. sys_inv s \<and> mon s = Gone" for cp
proof
  show "s = CCheckMemoryLeakInit False \<Longrightarrow> sys_inv s \<and> mon s = Gone" for s
    by (simp add: CCheckMemoryLeakInit_def sys_start_def sys_inv_def)
  show "sys_inv s' \<and> mon s' = Gone" if "sys_step cp s s'" "sys_inv s \<and> mon s = Gone" for s s'
    using that sys_step_inv[OF that(1)] by (auto elim!: sys_step.cases)
qed

lemma unmonitored_ends: "(sys_step cp)\<^sup>*\<^sup>* (CCheckMemoryLeakInit False) s \<Longrightarrow> exi s \<noteq> Ended \<Longrightarrow> \<exists>s'. sys_step cp s s'"
  using unmonitored.reach_inv[OF refl, of cp s] sys_inv_blocked[of s cp] by auto

text \<open>
  C5.  The end of the program can block for ever, whatever the check point: the destructor holds the mutex
  while it waits for the thread, and the thread waits for the mutex to print its report.  That is the
  only way to block.
\<close>

theorem monitor_deadlock:
  "(\<exists>s. sys_reach cp s \<and> exi s \<noteq> Ended \<and> (\<nexists>s'. sys_step cp s s')) \<and>
   (\<forall>s. sys_reach cp s \<and> exi s \<noteq> Ended \<longrightarrow> ((\<nexists>s'. sys_step cp s s') \<longleftrightarrow> mon s = Acquire \<and> exi s = Joining))"
proof
  let ?s = "\<lambda>m e h x. \<lparr>mon = m, exi = e, mutex = h, thread_exit = x, entries = cp\<rparr>"
  have "sys_reach cp (?s Test Running Nobody False)"
    using sys_reach.step[OF sys_reach.start, of cp "sys_start\<lparr>entries := cp\<rparr>"] sys_step.work[of sys_start cp cp] by (simp add: sys_start_def)
  then have "sys_reach cp (?s Compare Running Nobody False)"
    by (rule sys_reach.step) (use sys_step.go[of "?s Test Running Nobody False" cp] in simp)
  then have "sys_reach cp (?s Acquire Running Nobody False)"
    by (rule sys_reach.step) (use sys_step.many[of "?s Compare Running Nobody False" cp] in simp)
  then have "sys_reach cp (?s Acquire Destroy Nobody False)"
    by (rule sys_reach.step) (use sys_step.finish[of "?s Acquire Running Nobody False" cp] in simp)
  then have r: "sys_reach cp (?s Acquire Joining Exiting True)"
    by (rule sys_reach.step) (use sys_step.destroy[of "?s Acquire Destroy Nobody False" cp] in simp)
  then show "\<exists>s. sys_reach cp s \<and> exi s \<noteq> Ended \<and> (\<nexists>s'. sys_step cp s s')"
    using sys_blocked[OF r] by (intro exI[of _ "?s Acquire Joining Exiting True"]) simp
qed (use sys_blocked in blast)

theorem monitor_deadlock_witness:
  "\<exists>s. sys_reach 1024 s \<and> mon s = Acquire \<and> exi s = Joining \<and> (\<nexists>s'. sys_step 1024 s s')"
  using monitor_deadlock[of 1024] by blast

end
