(* ===== verification/Network_Info.thy ===== *)
theory Network_Info
  imports Stdio
begin

text \<open>
  The network settings of Network/: the interfaces and their addresses (netInfaceName.c and
  centosNetworkInfo.c), the commands that read and change the settings of an interface and the conversions
  between netmasks and prefix lengths (centosNetworkInfo.c), and the reader of a command's output
  of sys/sys.c.  What getifaddrs and the commands started by popen answer is input; the commands passed to
  system are part of the result.  Strings that are only read are lists of bytes without the null byte.
\<close>

section \<open>Interfaces\<close>

record sockaddr =
  sa_family :: nat
  sin_addr :: "byte list"

record ifaddrs =
  ifa_name :: "byte list option"
  ifa_addr :: "sockaddr option"

definition AF_INET :: nat where "AF_INET = 2"
definition INET_ADDRSTRLEN :: int where "INET_ADDRSTRLEN = 16"

fun joined :: "byte \<Rightarrow> byte list list \<Rightarrow> byte list" where
  "joined sep [] = []"
| "joined sep [x] = x"
| "joined sep (x # y # xs) = x @ sep # joined sep (y # xs)"

text \<open>The text inet_ntop and inet_ntoa make of the four bytes of an address.\<close>

definition dotted :: "byte list \<Rightarrow> byte list" where
  "dotted a = joined 46 (map (\<lambda>b. dec_digits (unat b)) (take 4 a))"

text \<open>
  The names are written one behind the other; \<open>full\<close> is the text printed when one does not fit.  The
  result is the buffer, the room left and what is printed.
\<close>

fun names_loop :: "byte list \<Rightarrow> int \<Rightarrow> int \<Rightarrow> mem \<Rightarrow> ifaddrs list \<Rightarrow> byte list \<Rightarrow> (mem \<times> int \<times> byte list) c" where
  "names_loop full n avalible m [] out = Inr (m, avalible, out)"
| "names_loop full n avalible m (i # is) out =
     (case ifa_name i of
        None \<Rightarrow> names_loop full n avalible m is (out @ ascii ''ifa_name is null! skip.'')
      | Some nm \<Rightarrow>
          (case ifa_addr i of
             None \<Rightarrow> Inl Null_deref
           | Some a \<Rightarrow>
               if sa_family a \<noteq> AF_INET then names_loop full n avalible m is out
               else if avalible \<le> int (length nm) + 1 then Inr (m, avalible, out @ full)
               else cbind (wrs m (nat (n - avalible)) (nm @ [124, 0])) (\<lambda>m.
                 names_loop full n (avalible - (int (length nm) + 1)) m is out)))"

text \<open>The result of getifaddrs is not looked at: when it fails the list is indeterminate.\<close>

definition names_into :: "byte list \<Rightarrow> ifaddrs list option \<Rightarrow> mem option \<Rightarrow> int \<Rightarrow> (mem option \<times> byte list) c" where
  "names_into full ifs nameBuff n =
     (case nameBuff of
        None \<Rightarrow> Inr (None, ascii ''getInferfacesName len=0'' @ [10])
      | Some m \<Rightarrow>
          if n \<le> 0 then Inr (Some m, ascii ''getInferfacesName len=0'' @ [10])
          else case ifs of None \<Rightarrow> Inl Uninit
          | Some is \<Rightarrow> cbind (names_loop full n n m is []) (\<lambda>(m, avalible, out).
              cbind (wri m (n - avalible - 1) 0) (\<lambda>m. Inr (Some m, out))))"

definition getInferfacesName :: "ifaddrs list option \<Rightarrow> mem option \<Rightarrow> int \<Rightarrow> (mem option \<times> byte list) c" where
  "getInferfacesName = names_into (ascii ''Buffer is no enough! exit'' @ [10])"

definition centos_getInferfacesName :: "ifaddrs list option \<Rightarrow> mem option \<Rightarrow> int \<Rightarrow> (mem option \<times> byte list) c" where
  "centos_getInferfacesName = names_into (ascii ''Buffer is no enough! exit'')"

text \<open>\<open>say\<close> tells whether the address found is printed.\<close>

fun ip_loop :: "bool \<Rightarrow> byte list \<Rightarrow> mem \<Rightarrow> ifaddrs list \<Rightarrow> byte list \<Rightarrow> (mem \<times> byte list) c" where
  "ip_loop say ifName ip [] out = Inr (ip, out)"
| "ip_loop say ifName ip (i # is) out =
     (case ifa_addr i of
        None \<Rightarrow> Inl Null_deref
      | Some a \<Rightarrow>
          if sa_family a \<noteq> AF_INET then ip_loop say ifName ip is out
          else case ifa_name i of
            None \<Rightarrow> Inl Null_deref
          | Some nm \<Rightarrow>
              if take (length ifName) nm = ifName \<and> length ifName = length nm then
                cbind (wrs ip 0 (dotted (sin_addr a) @ [0])) (\<lambda>ip.
                  ip_loop say ifName ip is (if say then out @ ascii ''Ip:'' @ dotted (sin_addr a) @ [10] else out))
              else ip_loop say ifName ip is out)"

text \<open>The result is the variable \<open>ret\<close>, which stays 0.\<close>

definition ip_by_name :: "bool \<Rightarrow> byte list \<Rightarrow> ifaddrs list option \<Rightarrow> mem option \<Rightarrow> int \<Rightarrow> byte list option
    \<Rightarrow> (int \<times> mem option \<times> byte list) c" where
  "ip_by_name say wrong ifs ip n ifName =
     (case (ip, ifName) of
        (Some m, Some nm) \<Rightarrow>
          if n < INET_ADDRSTRLEN then Inr (0, Some m, wrong)
          else (case ifs of None \<Rightarrow> Inl Uninit
                | Some is \<Rightarrow> cbind (ip_loop say nm m is []) (\<lambda>(m, out). Inr (0, Some m, out)))
      | _ \<Rightarrow> Inr (0, ip, wrong))"

definition getIpByInterfaceName :: "ifaddrs list option \<Rightarrow> mem option \<Rightarrow> int \<Rightarrow> byte list option \<Rightarrow> (int \<times> mem option \<times> byte list) c" where
  "getIpByInterfaceName = ip_by_name True (ascii ''Invalid input.'' @ [10])"

definition centos_getIpByInterfaceName :: "ifaddrs list option \<Rightarrow> mem option \<Rightarrow> int \<Rightarrow> byte list option \<Rightarrow> (int \<times> mem option \<times> byte list) c" where
  "centos_getIpByInterfaceName = ip_by_name False []"

text \<open>The width of \<open>%15s\<close>.\<close>

definition pad_left :: "nat \<Rightarrow> byte list \<Rightarrow> byte list" where
  "pad_left n s = replicate (n - length s) 32 @ s"

fun printfInterfaceName :: "ifaddrs list \<Rightarrow> byte list c" where
  "printfInterfaceName [] = Inr []"
| "printfInterfaceName (i # is) =
     (case (ifa_name i, ifa_addr i) of
        (Some nm, Some a) \<Rightarrow> cbind (printfInterfaceName is) (\<lambda>out.
          Inr (ascii ''Interfaces: '' @ pad_left 15 nm @ ascii ''   NetWork Family: '' @ printf_d (int (sa_family a)) @ [10] @ out))
      | _ \<Rightarrow> Inl Null_deref)"

text \<open>
  An interface of the family AF_INET is met again and again: the \<open>continue\<close> does not advance.  The
  result is \<open>ret\<close>, the buffer and what is printed.
\<close>

partial_function (option) index_loop :: "mem \<Rightarrow> int \<Rightarrow> int \<Rightarrow> ifaddrs list \<Rightarrow> (int \<times> mem \<times> byte list) c option" where
  "index_loop ifName n index ifs =
     (case ifs of
        [] \<Rightarrow> Some (Inr (0, ifName, []))
      | i # is \<Rightarrow>
          if index < 0 then Some (Inr (0, ifName, []))
          else case ifa_addr i of
            None \<Rightarrow> Some (Inl Null_deref)
          | Some a \<Rightarrow>
              if sa_family a = AF_INET then index_loop ifName n index ifs
              else if index = 0 then
                (case ifa_name i of
                   None \<Rightarrow> Some (Inl Null_deref)
                 | Some nm \<Rightarrow>
                     if int (length nm) < n then
                       Some (cbind (wrs ifName 0 (replicate (nat n) 0)) (\<lambda>m.
                         cbind (wrs m 0 nm) (\<lambda>m. Inr (1, m, []))))
                     else Some (Inr (0, ifName, ascii ''Too small: Interface name len '' @ printf_d n @
                       ascii '', Buffer len '' @ printf_d (int (length nm)) @ [46, 10])))
              else index_loop ifName n (index - 1) is)"

definition getInterfaceByIndex :: "ifaddrs list option \<Rightarrow> mem option \<Rightarrow> int \<Rightarrow> int \<Rightarrow> (int \<times> mem option \<times> byte list) c option" where
  "getInterfaceByIndex ifs ifName n index =
     (case ifName of
        None \<Rightarrow> Some (Inr (0, None, ascii ''Invalid input.'' @ [10]))
      | Some m \<Rightarrow>
          if n \<le> 0 \<or> index < 0 then Some (Inr (0, Some m, ascii ''Invalid input.'' @ [10]))
          else case ifs of None \<Rightarrow> Some (Inl Uninit)
          | Some is \<Rightarrow> obind (index_loop m n index is) (\<lambda>(ret, m, out). Some (Inr (ret, Some m, out))))"

text \<open>The main program of netInfaceName.c; \<open>ifName\<close> is the array of ten indeterminate bytes.\<close>

definition netInfaceName_main :: "ifaddrs list \<Rightarrow> mem \<Rightarrow> byte list c option" where
  "netInfaceName_main ifs ifName =
     obind (Some (printfInterfaceName ifs)) (\<lambda>out0.
     obind (getInterfaceByIndex (Some ifs) (Some ifName) 10 0) (\<lambda>(_, nm, out1).
       let nm = the nm in
       Some (cbind (strlen nm 0) (\<lambda>_.
         cbind (getIpByInterfaceName (Some ifs) (Some (replicate 16 0)) 16 (Some (str_at nm 0))) (\<lambda>(_, ip, out2).
           let ip = the ip in
           cbind (strlen ip 0) (\<lambda>_.
             Inr (out0 @ out1 @ out2 @ ascii ''>>>Ifname: '' @ str_at nm 0 @ ascii '' Ip: '' @ str_at ip 0 @ ascii ''<<<'' @ [10])))))))"

section \<open>The names of the interfaces\<close>

text \<open>The names of the interfaces with an IPv4 address, and those of them that fit a buffer.\<close>

definition inet_names :: "ifaddrs list \<Rightarrow> byte list list" where
  "inet_names is = concat (map (\<lambda>i. case (ifa_name i, ifa_addr i) of
     (Some nm, Some a) \<Rightarrow> if sa_family a = AF_INET then [nm] else [] | _ \<Rightarrow> []) is)"

fun fitting :: "int \<Rightarrow> byte list list \<Rightarrow> byte list list" where
  "fitting k [] = []"
| "fitting k (n # ns) = (if k \<le> int (length n) + 1 then [] else n # fitting (k - (int (length n) + 1)) ns)"

definition addressed :: "ifaddrs list \<Rightarrow> bool" where
  "addressed is \<longleftrightarrow> (\<forall>i\<in>set is. ifa_name i \<noteq> None \<longrightarrow> ifa_addr i \<noteq> None)"

lemma inet_names_simps [simp]:
  "inet_names [] = []"
  "inet_names (i # is) = (case (ifa_name i, ifa_addr i) of
     (Some nm, Some a) \<Rightarrow> if sa_family a = AF_INET then [nm] else [] | _ \<Rightarrow> []) @ inet_names is"
  by (simp_all add: inet_names_def)

lemma addressed_simps [simp]:
  "addressed []"
  "addressed (i # is) \<longleftrightarrow> (ifa_name i \<noteq> None \<longrightarrow> ifa_addr i \<noteq> None) \<and> addressed is"
  by (auto simp: addressed_def)

definition listed :: "byte list list \<Rightarrow> byte list" where
  "listed ns = concat (map (\<lambda>n. n @ [124]) ns)"

lemma listed_simps [simp]: "listed [] = []" "listed (n # ns) = n @ 124 # listed ns"
  by (simp_all add: listed_def)

lemma names_loop_written:
  "addressed is \<Longrightarrow> k \<le> length rest \<Longrightarrow> 0 < k \<Longrightarrow>
     \<exists>out'. names_loop full (int (length done + k)) (int k) (done @ rest) is out =
       Inr (done @ listed (fitting (int k) (inet_names is)) @
              (if fitting (int k) (inet_names is) = [] then rest
               else 0 # drop (length (listed (fitting (int k) (inet_names is))) + 1) rest),
            int k - int (length (listed (fitting (int k) (inet_names is)))), out')"
proof (induction "is" arbitrary: "done" k rest out)
  case (Cons i "is")
  show ?case
  proof (cases "\<exists>nm a. ifa_name i = Some nm \<and> ifa_addr i = Some a \<and> sa_family a = AF_INET")
    case False
    then show ?thesis using Cons.IH[of k rest "done"] Cons.prems
      by (cases "ifa_name i"; cases "ifa_addr i") (auto simp del: fitting.simps)
  next
    case True
    then obtain nm a where i: "ifa_name i = Some nm" "ifa_addr i = Some a" "sa_family a = AF_INET" by blast
    show ?thesis
    proof (cases "int k \<le> int (length nm) + 1")
      case True
      with i show ?thesis by simp
    next
      case False
      define j where "j = k - (length nm + 1)"
      have k: "k = length nm + 1 + j" "0 < j" using False by (auto simp: j_def)
      define r where "r = drop (length nm + 1) rest"
      have w: "wrs (done @ rest) (length done) (nm @ [124, 0]) = Inr ((done @ nm @ [124]) @ 0 # drop 1 r)"
        using Cons.prems(2) k by (simp add: wrs_append_left r_def add.commute)
      have p: "addressed is" "j \<le> length (0 # drop 1 r)" "0 < j" using Cons.prems k by (auto simp: r_def)
      obtain out' where IH: "names_loop full (int (length (done @ nm @ [124]) + j)) (int j) ((done @ nm @ [124]) @ 0 # drop 1 r) is out =
          Inr ((done @ nm @ [124]) @ listed (fitting (int j) (inet_names is)) @
              (if fitting (int j) (inet_names is) = [] then 0 # drop 1 r
               else 0 # drop (length (listed (fitting (int j) (inet_names is))) + 1) (0 # drop 1 r)),
            int j - int (length (listed (fitting (int j) (inet_names is)))), out')"
        using Cons.IH[of j "0 # drop 1 r" "done @ nm @ [124]" out, OF p] by blast
      have d: "drop (length (listed (fitting (int j) (inet_names is))) + 1) (0 # drop 1 r)
          = drop (length nm + 1 + length (listed (fitting (int j) (inet_names is))) + 1) rest"
        if "fitting (int j) (inet_names is) \<noteq> []"
      proof -
        have "0 < length (listed (fitting (int j) (inet_names is)))" using that by (cases "fitting (int j) (inet_names is)") auto
        then show ?thesis by (simp add: r_def drop_Cons' add.commute add.left_commute)
      qed
      have e: "int k - (int (length nm) + 1) = int j" "\<not> int k \<le> int (length nm) + 1" "nat (int (length done + k) - int k) = length done"
        "int (length done + k) = int (length (done @ nm @ [124]) + j)"
        using k by simp_all
      have "names_loop full (int (length done + k)) (int k) (done @ rest) (i # is) out =
          names_loop full (int (length (done @ nm @ [124]) + j)) (int j) ((done @ nm @ [124]) @ 0 # drop 1 r) is out"
        using i e w by (simp only: names_loop.simps option.case if_False cbind.simps simp_thms)
      with IH d i e k show ?thesis by (auto simp: r_def)
    qed
  qed
qed simp

lemma listed_joined: "ns \<noteq> [] \<Longrightarrow> listed ns = joined 124 ns @ [124]"
  by (induction "124 :: byte" ns rule: joined.induct) auto

lemma fitting_length: "0 < k \<Longrightarrow> int (length (listed (fitting k ns))) < k"
proof (induction k ns rule: fitting.induct)
  case (2 k n ns)
  then show ?case by auto
qed simp

lemma set_fitting: "set (fitting k ns) \<subseteq> set ns"
  by (induction k ns rule: fitting.induct) auto

lemma joined_no_zero: "\<forall>n\<in>set ns. 0 \<notin> set n \<Longrightarrow> sep \<noteq> 0 \<Longrightarrow> 0 \<notin> set (joined sep ns)"
  by (induction sep ns rule: joined.induct) auto

text \<open>
  getInferfacesName leaves in the buffer the names of the interfaces with an IPv4 address, in
  order and with bars between them, as many as fit; when there is none of them, or the first does not fit, it
  writes a null byte before the buffer.
\<close>

theorem interface_names:
  assumes "addressed is" and "\<forall>n\<in>set (inet_names is). 0 \<notin> set n" and "0 < n" and "n \<le> length m"
  shows "if fitting (int n) (inet_names is) = [] then getInferfacesName (Some is) (Some m) (int n) = Inl Write_oob
    else \<exists>m' out. getInferfacesName (Some is) (Some m) (int n) = Inr (Some m', out) \<and> length m' = length m \<and>
      c_str m' 0 (joined 124 (fitting (int n) (inet_names is)))"
proof -
  let ?f = "fitting (int n) (inet_names is)"
  let ?l = "listed ?f"
  obtain out where run: "names_loop (ascii ''Buffer is no enough! exit'' @ [10]) (int n) (int n) m is [] =
      Inr (?l @ (if ?f = [] then m else 0 # drop (length ?l + 1) m), int n - int (length ?l), out)"
    using names_loop_written[of "is" n m _ "[]" "[]"] assms by auto
  show ?thesis
  proof (cases "?f = []")
    case True
    with run assms(3) show ?thesis by (simp add: getInferfacesName_def names_into_def wri_def)
  next
    case False
    have len: "length ?l < n" using fitting_length[of "int n" "inet_names is"] assms(3) by simp
    have l: "?l = joined 124 ?f @ [124]" using False by (rule listed_joined)
    then have pos: "int n - (int n - int (length ?l)) - 1 = int (length (joined 124 ?f))" by simp
    have z: "0 \<notin> set (joined 124 ?f)" using assms(2) set_fitting by (intro joined_no_zero) auto
    have "getInferfacesName (Some is) (Some m) (int n) =
        Inr (Some (joined 124 ?f @ 0 # 0 # drop (length ?l + 1) m), out)"
      using run False assms(3) pos
      by (simp add: getInferfacesName_def names_into_def del: of_nat_diff) (simp add: l list_update_append)
    with z len l False assms(4) show ?thesis by (auto simp: c_strI)
  qed
qed

definition sample_interfaces :: "ifaddrs list" where
  "sample_interfaces =
     [\<lparr>ifa_name = Some (ascii ''lo''), ifa_addr = Some \<lparr>sa_family = 17, sin_addr = []\<rparr>\<rparr>,
      \<lparr>ifa_name = Some (ascii ''lo''), ifa_addr = Some \<lparr>sa_family = 2, sin_addr = [127, 0, 0, 1]\<rparr>\<rparr>,
      \<lparr>ifa_name = Some (ascii ''enp2s0''), ifa_addr = Some \<lparr>sa_family = 2, sin_addr = [192, 168, 1, 167]\<rparr>\<rparr>]"

lemma sample_names: "inet_names sample_interfaces = [ascii ''lo'', ascii ''enp2s0'']" "addressed sample_interfaces"
  by (simp_all add: sample_interfaces_def AF_INET_def)

theorem interface_names_witness:
  "\<exists>m' out. getInferfacesName (Some sample_interfaces) (Some (replicate 11 7)) 11 = Inr (Some m', out) \<and>
     length m' = 11 \<and> c_str m' 0 (ascii ''lo|enp2s0'')"
proof -
  have "fitting 11 [ascii ''lo'', ascii ''enp2s0''] = [ascii ''lo'', ascii ''enp2s0'']" by (simp add: ascii_def)
  moreover have "joined 124 [ascii ''lo'', ascii ''enp2s0''] = ascii ''lo|enp2s0''" by (simp add: ascii_def)
  ultimately show ?thesis using interface_names[of sample_interfaces 11 "replicate 11 7"] sample_names
    by (auto simp: ascii_def)
qed

section \<open>The address of an interface\<close>

lemma wrs_self: "length xs \<le> length rest \<Longrightarrow> wrs rest 0 xs = Inr (xs @ drop (length xs) rest)"
  by (simp add: wrs_in)

lemma dec_digits_byte: "length (dec_digits (unat (b :: byte))) \<le> 3"
proof (rule dec_digits_length)
  have "unat b < 2 ^ LENGTH(8)" by (rule unsigned_less)
  then show "unat b < 10 ^ 3" by simp
qed simp

lemma joined_length: "length (joined sep ns) = sum_list (map length ns) + (length ns - 1)"
  by (induction sep ns rule: joined.induct) auto

lemma dotted_length: "length (dotted a) \<le> 15"
proof -
  have le: "sum_list (map length (map (\<lambda>b :: byte. dec_digits (unat b)) xs)) \<le> 3 * length xs" for xs
    by (induction xs) (auto intro: order_trans[OF add_mono[OF dec_digits_byte]])
  have "sum_list (map length (map (\<lambda>b :: byte. dec_digits (unat b)) (take 4 a))) \<le> 3 * length (take 4 a)" by (rule le)
  moreover have "length (take 4 a) \<le> 4" by simp
  ultimately show ?thesis by (simp add: dotted_def joined_length)
qed

text \<open>The addresses of the interfaces of a name.\<close>

definition addresses_of :: "byte list \<Rightarrow> ifaddrs list \<Rightarrow> byte list list" where
  "addresses_of nm is = concat (map (\<lambda>i. case ifa_addr i of
     Some a \<Rightarrow> if sa_family a = AF_INET \<and> ifa_name i = Some nm then [sin_addr a] else [] | None \<Rightarrow> []) is)"

definition complete :: "ifaddrs list \<Rightarrow> bool" where
  "complete is \<longleftrightarrow> (\<forall>i\<in>set is. ifa_name i \<noteq> None \<and> ifa_addr i \<noteq> None)"

lemma ip_loop_last:
  "complete is \<Longrightarrow> 16 \<le> length ip \<Longrightarrow>
     \<exists>ip' out'. ip_loop say nm ip is out = Inr (ip', out') \<and> length ip' = length ip \<and>
       (addresses_of nm is = [] \<longrightarrow> ip' = ip) \<and>
       (addresses_of nm is \<noteq> [] \<longrightarrow> (\<exists>z. ip' = dotted (last (addresses_of nm is)) @ 0 # z))"
proof (induction "is" arbitrary: ip out)
  case Nil
  then show ?case by (simp add: addresses_of_def)
next
  case (Cons i "is")
  then obtain n a where i: "ifa_name i = Some n" "ifa_addr i = Some a" by (auto simp: complete_def)
  have c: "complete is" using Cons.prems by (simp add: complete_def)
  show ?case
  proof (cases "sa_family a = AF_INET \<and> n = nm")
    case False
    then show ?thesis using Cons.IH[OF c Cons.prems(2), of out] i by (auto simp: addresses_of_def)
  next
    case True
    define ip1 where "ip1 = (dotted (sin_addr a) @ [0]) @ drop (length (dotted (sin_addr a) @ [0])) ip"
    have w: "wrs ip 0 (dotted (sin_addr a) @ [0]) = Inr ip1" "length ip1 = length ip"
      using dotted_length[of "sin_addr a"] Cons.prems(2) by (simp_all add: ip1_def wrs_self)
    define o1 where "o1 = (if say then out @ ascii ''Ip:'' @ dotted (sin_addr a) @ [10] else out)"
    have "ip_loop say nm ip (i # is) out = ip_loop say nm ip1 is o1"
      using True i w by (simp add: o1_def)
    moreover have "addresses_of nm (i # is) = sin_addr a # addresses_of nm is"
      using True i by (simp add: addresses_of_def)
    moreover have "\<exists>z. ip1 = dotted (sin_addr a) @ 0 # z" by (simp add: ip1_def)
    moreover obtain ip' out' where "ip_loop say nm ip1 is o1 = Inr (ip', out')" "length ip' = length ip1"
        "addresses_of nm is = [] \<longrightarrow> ip' = ip1"
        "addresses_of nm is \<noteq> [] \<longrightarrow> (\<exists>z. ip' = dotted (last (addresses_of nm is)) @ 0 # z)"
      using Cons.IH[OF c, of ip1 o1] w Cons.prems(2) by metis
    ultimately show ?thesis using w by auto
  qed
qed

lemma dec_digits_no_zero: "0 \<notin> set (dec_digits n)"
  using dec_digits_digits[of n] by (auto simp: list_all_iff is_digit_def word_le_def)

lemma dotted_no_zero: "0 \<notin> set (dotted a)"
  unfolding dotted_def by (intro joined_no_zero) (auto simp: dec_digits_no_zero)

text \<open>
  getIpByInterfaceName stores the last address of the interface, or nothing when it has none;
  its result is 0 in every case, so a caller cannot tell.
\<close>

theorem address_of_interface:
  assumes "complete is" and "16 \<le> n" and "16 \<le> length ip"
  shows "\<exists>ip' out. getIpByInterfaceName (Some is) (Some ip) n (Some nm) = Inr (0, Some ip', out) \<and>
    (if addresses_of nm is = [] then ip' = ip else c_str ip' 0 (dotted (last (addresses_of nm is))))"
proof -
  obtain ip' out where "ip_loop True nm ip is [] = Inr (ip', out)"
      "addresses_of nm is = [] \<longrightarrow> ip' = ip"
      "addresses_of nm is \<noteq> [] \<longrightarrow> (\<exists>z. ip' = dotted (last (addresses_of nm is)) @ 0 # z)"
    using ip_loop_last[OF assms(1,3), of True nm "[]"] by blast
  then show ?thesis using assms(2) by (auto simp: getIpByInterfaceName_def ip_by_name_def INET_ADDRSTRLEN_def c_strI dotted_no_zero)
qed

theorem address_of_interface_witness:
  "\<exists>ip' out. getIpByInterfaceName (Some sample_interfaces) (Some (replicate 16 0)) 16 (Some (ascii ''enp2s0'')) = Inr (0, Some ip', out) \<and>
     c_str ip' 0 (dotted [192, 168, 1, 167])"
  using address_of_interface[of sample_interfaces 16 "replicate 16 0" "ascii ''enp2s0''"]
  by (simp add: sample_interfaces_def complete_def addresses_of_def AF_INET_def ascii_def)

section \<open>The interface of an index\<close>

text \<open>No interface that is looked at before the index has an IPv4 address.\<close>

lemma index_loop_inet:
  assumes "index_loop m n k is = Some r" and "int j \<le> k" and "\<forall>i\<in>set (take j is). ifa_addr i \<noteq> None"
    and "j < length is" and "ifa_addr (is ! j) = Some a" and "sa_family a = AF_INET"
  shows False
proof -
  have "\<forall>j. \<not> (int j \<le> k \<and> (\<forall>i\<in>set (take j is). ifa_addr i \<noteq> None) \<and> j < length is \<and>
      (\<exists>a. ifa_addr (is ! j) = Some a \<and> sa_family a = AF_INET))"
    using assms(1)
  proof (induction rule: index_loop.raw_induct[rotated, consumes 1, case_names step])
    case (step f m n k "is" r)
    show ?case
    proof (rule allI, rule notI, elim conjE exE)
      fix j a assume j: "int j \<le> k" "\<forall>i\<in>set (take j is). ifa_addr i \<noteq> None" "j < length is"
        "ifa_addr (is ! j) = Some a" "sa_family a = AF_INET"
      obtain i is' where i: "is = i # is'" using j(3) by (cases "is") auto
      have "0 \<le> k" using j(1) by simp
      show False
      proof (cases j)
        case 0
        with j i step(2) \<open>0 \<le> k\<close> have "f m n k is = Some r" by simp
        from step(1)[OF this] j i 0 show False by (metis)
      next
        case (Suc j')
        with j i obtain b where b: "ifa_addr i = Some b" by auto
        show False
        proof (cases "sa_family b = AF_INET")
          case True
          with b i step(2) \<open>0 \<le> k\<close> have "f m n k is = Some r" by simp
          from step(1)[OF this] j show False by metis
        next
          case False
          have "k \<noteq> 0" using j(1) Suc by simp
          with False b i step(2) \<open>0 \<le> k\<close> have "f m n (k - 1) is' = Some r" by simp
          from step(1)[OF this] j i Suc show False by (metis insert_iff le_diff_eq length_Cons list.simps(15)
              nat_add_left_cancel_less nth_Cons_Suc of_nat_Suc plus_1_eq_Suc take_Suc_Cons add.commute)
        qed
      qed
    qed
  qed
  with assms show False by blast
qed

text \<open>
  C31.  getInterfaceByIndex does not return when an interface with an IPv4 address comes before or at the
  index: it is met again and again.  When there is none, it returns.
\<close>

theorem interface_by_index_returns:
  assumes "complete is" and "n \<le> int (length m)" and "0 < n" and "0 \<le> k"
  shows "(\<exists>r. getInterfaceByIndex (Some is) (Some m) n k = Some r) \<longleftrightarrow>
    (\<forall>i\<in>set (take (Suc (nat k)) is). sa_family (the (ifa_addr i)) \<noteq> AF_INET)"
proof -
  have returns: "\<exists>r. index_loop m n k xs = Some r"
    if "complete xs" "\<forall>i\<in>set (take (Suc (nat k)) xs). sa_family (the (ifa_addr i)) \<noteq> AF_INET" "0 \<le> k" for k xs
    using that
  proof (induction xs arbitrary: k)
    case (Cons i xs)
    then obtain nm a where i: "ifa_name i = Some nm" "ifa_addr i = Some a" by (auto simp: complete_def)
    show ?case
    proof (cases "k = 0")
      case True
      with i Cons.prems show ?thesis by (auto simp: index_loop.simps)
    next
      case False
      then have "nat k = Suc (nat (k - 1))" using Cons.prems(3) by simp
      with Cons.prems have "\<forall>i\<in>set (take (Suc (nat (k - 1))) xs). sa_family (the (ifa_addr i)) \<noteq> AF_INET" by simp
      then obtain r where "index_loop m n (k - 1) xs = Some r"
        using Cons.IH[of "k - 1"] Cons.prems False by (auto simp: complete_def)
      with i Cons.prems False show ?thesis by (subst index_loop.simps) (simp add: complete_def)
    qed
  qed (simp add: index_loop.simps)
  have forth: "\<forall>i\<in>set (take (Suc (nat k)) is). sa_family (the (ifa_addr i)) \<noteq> AF_INET"
    if r: "index_loop m n k is = Some r" for r
  proof
    fix i assume "i \<in> set (take (Suc (nat k)) is)"
    then obtain j where j: "j < length is" "j < Suc (nat k)" "is ! j = i" by (auto simp: in_set_conv_nth)
    with assms(1) obtain a where "ifa_addr i = Some a" by (metis complete_def nth_mem option.exhaust)
    moreover have "\<forall>i\<in>set (take j is). ifa_addr i \<noteq> None" using assms(1) by (auto simp: complete_def dest: in_set_takeD)
    moreover have "int j \<le> k" using j(2) assms(4) by linarith
    ultimately show "sa_family (the (ifa_addr i)) \<noteq> AF_INET"
      using index_loop_inet[OF r, of j] j by auto
  qed
  have "(\<exists>r. getInterfaceByIndex (Some is) (Some m) n k = Some r) \<longleftrightarrow> (\<exists>r. index_loop m n k is = Some r)"
    using assms by (auto simp: getInterfaceByIndex_def obind_def split: option.split sum.split)
  with returns[OF assms(1) _ assms(4)] forth show ?thesis by blast
qed

theorem interface_by_index_returns_witness:
  "(\<exists>r. getInterfaceByIndex (Some sample_interfaces) (Some (replicate 10 0)) 10 0 = Some r) \<and>
   \<not> (\<exists>r. getInterfaceByIndex (Some sample_interfaces) (Some (replicate 10 0)) 10 1 = Some r)"
proof -
  have c: "complete sample_interfaces" by (simp add: complete_def sample_interfaces_def)
  show ?thesis using interface_by_index_returns[OF c, of 10 "replicate 10 0" 0]
      interface_by_index_returns[OF c, of 10 "replicate 10 0" 1]
    by (simp add: sample_interfaces_def AF_INET_def)
qed

text \<open>The program on a machine whose first interface is the loopback without an IPv4 address.\<close>

declare index_loop.simps [code]

lemma netInfaceName_main_lo:
  "map_option (map_sum id (\<lambda>out. drop (length out - 31) out)) (netInfaceName_main sample_interfaces (replicate 10 7))
     = Some (Inr (ascii ''>>>Ifname: lo Ip: 127.0.0.1<<<'' @ [10]))"
  by code_simp

end
