(* ===== verification/Network_Config.thy ===== *)
theory Network_Config
  imports Network_Info
begin

text \<open>
  The settings of an interface in centosNetworkInfo.c: the commands that change and read the file of
  the interface, the conversions between netmasks and the length of the prefix, and the readers of
  a command's output (also the one of sys/sys.c).  A command that is given to popen answers with what it
  writes and whether reading ends with an error; the commands given to system are the result.
\<close>

section \<open>The output of a command\<close>

type_synonym shell = "byte list \<Rightarrow> (byte list \<times> bool) option"

text \<open>\<open>n\<close> is the room left of \<open>tot\<close> bytes.\<close>

function execute_loop :: "bool \<Rightarrow> int \<Rightarrow> int \<Rightarrow> stream \<Rightarrow> mem \<Rightarrow> (int \<times> mem) c" where
  "execute_loop err tot n s m =
     (if n \<le> 1 then Inr (-1, m)
      else let (d, s') = fread (nat n) s in
        if d = [] then (if err then Inr (-1, m) else cbind (strlen m 0) (\<lambda>k. Inr (int k, m)))
        else cbind (wrs m (nat (tot - n)) d) (\<lambda>m. execute_loop err tot (n - int (length d)) s' m))"
  by pat_completeness auto
termination
  by (relation "measure (\<lambda>(err, tot, n, s, m). nat n)") auto

declare execute_loop.simps [simp del]

definition executeCMD :: "shell \<Rightarrow> byte list option \<Rightarrow> mem option \<Rightarrow> int \<Rightarrow> (int \<times> mem option) c" where
  "executeCMD sh cmd buff n =
     (case (cmd, buff) of
        (Some cmd, Some m) \<Rightarrow>
          if n \<le> 0 then Inr (-1, Some m)
          else cbind (wrs m 0 (replicate (nat n) 0)) (\<lambda>m.
            case sh cmd of None \<Rightarrow> Inr (-1, Some m)
            | Some (out, err) \<Rightarrow> cbind (execute_loop err n n (fopen_r out) m) (\<lambda>(ret, m). Inr (ret, Some m)))
      | _ \<Rightarrow> Inr (-1, buff))"

text \<open>The function of sys/sys.c reads once, and tries again for ever when there is nothing to read.\<close>

partial_function (option) executeCommand_loop :: "bool \<Rightarrow> int \<Rightarrow> stream \<Rightarrow> mem \<Rightarrow> (int \<times> mem) c option" where
  "executeCommand_loop err n s m =
     (case fread (nat n) s of (d, s') \<Rightarrow>
        if d \<noteq> [] then Some (cbind (wrs m 0 d) (\<lambda>m. Inr (int (length d), m)))
        else if err then Some (Inr (-1, m))
        else executeCommand_loop err n s' m)"

definition executeCommand :: "shell \<Rightarrow> byte list option \<Rightarrow> mem option \<Rightarrow> int \<Rightarrow> (int \<times> mem option) c option" where
  "executeCommand sh cmd buff n =
     (case (cmd, buff) of
        (Some cmd, Some m) \<Rightarrow>
          if n \<le> 0 then Some (Inr (-1, Some m))
          else (case sh cmd of None \<Rightarrow> Some (Inr (-1, Some m))
            | Some (out, err) \<Rightarrow>
                obind (Some (wrs m 0 (replicate (nat n) 0))) (\<lambda>m.
                obind (executeCommand_loop err n (fopen_r out) m) (\<lambda>(ret, m). Some (Inr (ret, Some m)))))
      | _ \<Rightarrow> Some (Inr (-1, buff)))"

section \<open>The file of an interface\<close>

definition interfacePath :: "byte list" where
  "interfacePath = ascii ''/etc/sysconfig/network-scripts/ifcfg-''"

text \<open>A string formatted into an array of 256 characters.\<close>

definition sprintf256 :: "byte list \<Rightarrow> byte list c" where
  "sprintf256 s = (if 256 < length s + 1 then Inl Write_oob else Inr s)"

text \<open>The single quote around arguments of the shell.\<close>

definition quote :: "byte list" where "quote = [39]"

definition sed_command :: "byte list \<Rightarrow> byte list \<Rightarrow> byte list \<Rightarrow> byte list" where
  "sed_command key v fil = ascii ''sed -i '' @ quote @ ascii ''/'' @ key @ ascii ''=/c'' @ key @ ascii ''='' @ v @ quote @ ascii '' '' @ fil"

text \<open>The result is TRUE or FALSE and the command given to system.\<close>

definition updateNetworkInfoByFacesName :: "byte list option \<Rightarrow> byte list option \<Rightarrow> byte list option \<Rightarrow> (int \<times> byte list list) c" where
  "updateNetworkInfoByFacesName interfaceName networkInfoKey networkInfoVal =
     (case (interfaceName, networkInfoVal, networkInfoKey) of
        (Some i, Some v, Some k) \<Rightarrow>
          cbind (sprintf256 (interfacePath @ i)) (\<lambda>fil.
          cbind (sprintf256 (sed_command k v fil)) (\<lambda>cmd. Inr (1, [cmd])))
      | _ \<Rightarrow> Inr (0, []))"

definition setIpByInterfacesName :: "byte list option \<Rightarrow> byte list option \<Rightarrow> (int \<times> byte list list) c" where
  "setIpByInterfacesName interfaceName ip =
     (case (interfaceName, ip) of
        (Some i, Some v) \<Rightarrow>
          cbind (sprintf256 (interfacePath @ i)) (\<lambda>fil.
          cbind (sprintf256 (ascii ''sed -i '' @ quote @ ascii ''/IPADDR=/cIPADDR='' @ v @ quote @ ascii '' '' @ fil)) (\<lambda>cmd. Inr (1, [cmd])))
      | _ \<Rightarrow> Inr (0, []))"

definition cat_command :: "byte list \<Rightarrow> byte list \<Rightarrow> byte list" where
  "cat_command fil key = ascii ''cat '' @ fil @ ascii '' | grep '' @ key @ ascii '' | awk '' @ quote @
     ascii ''BEGIN{FS='' @ [34] @ ascii ''='' @ [34] @ ascii ''}{print $2}'' @ quote"

definition getNetworkInfoByFacesName :: "shell \<Rightarrow> byte list option \<Rightarrow> byte list option \<Rightarrow> mem option \<Rightarrow> int \<Rightarrow> (int \<times> mem option) c" where
  "getNetworkInfoByFacesName sh interfaceName networkInfoKey networkInfoVal n =
     (case (interfaceName, networkInfoVal, networkInfoKey) of
        (Some i, Some m, Some k) \<Rightarrow>
          cbind (sprintf256 (interfacePath @ i)) (\<lambda>fil.
          cbind (sprintf256 (cat_command fil k)) (\<lambda>cmd.
          cbind (executeCMD sh (Some cmd) (Some m) n) (\<lambda>(_, m).
            let m = the m in
            cbind (strlen m 0) (\<lambda>k.
            cbind (wri m (int k - 1) 0) (\<lambda>m. Inr (1, Some m))))))
      | _ \<Rightarrow> Inr (0, networkInfoVal))"

section \<open>Netmasks\<close>

text \<open>The octets the code knows, with the bits they count for.\<close>

definition mask_bits :: "(byte list \<times> int) list" where
  "mask_bits = [(ascii ''127'', 7), (ascii ''63'', 6), (ascii ''31'', 5), (ascii ''15'', 4), (ascii ''7'', 3), (ascii ''3'', 2), (ascii ''1'', 1)]"

lemma behind_dot: "46 \<in> set s \<Longrightarrow> length (tl (dropWhile (\<lambda>b. b \<noteq> 46) s)) < length (s :: byte list)"
  by (induction s) (auto simp: less_Suc_eq_le intro: order_trans[OF length_tl[THEN eq_refl]])

text \<open>The parts of the mask that end with a dot are looked at one after the other.\<close>

function prefix_loop :: "byte list \<Rightarrow> int \<Rightarrow> int" where
  "prefix_loop s prefix =
     (if 46 \<in> set s then
        (let part = takeWhile (\<lambda>b. b \<noteq> 46) s; next' = tl (dropWhile (\<lambda>b. b \<noteq> 46) s) in
         if part = ascii ''255'' then prefix_loop next' (prefix + 8)
         else case map_of mask_bits part of Some k \<Rightarrow> prefix + k | None \<Rightarrow> prefix_loop next' prefix)
      else prefix)"
  by pat_completeness auto
termination
  by (relation "measure (\<lambda>(s, prefix). length s)") (use behind_dot in \<open>auto simp del: length_tl\<close>)

declare prefix_loop.simps [simp del]

text \<open>The mask is copied into 20 characters and cut at its first \<open>0\<close>, wherever it stands.\<close>

definition getNetworkMaskPrerfix :: "byte list option \<Rightarrow> mem option \<Rightarrow> int \<Rightarrow> (int \<times> mem option) c" where
  "getNetworkMaskPrerfix networkmask strPrefix n =
     (case (networkmask, strPrefix) of
        (Some msk, Some m) \<Rightarrow>
          if n \<le> 0 then Inr (0, Some m)
          else cbind (wrs m 0 (replicate (nat n) 0)) (\<lambda>m.
            if 20 < length msk + 1 then Inl Write_oob
            else cbind (wrs m 0 (printf_d (prefix_loop (takeWhile (\<lambda>b. b \<noteq> 48) msk) 0) @ [0])) (\<lambda>m. Inr (1, Some m)))
      | _ \<Rightarrow> Inr (0, strPrefix))"

definition strcat :: "mem \<Rightarrow> byte list \<Rightarrow> mem c" where
  "strcat m s = cbind (strlen m 0) (\<lambda>k. wrs m k (s @ [0]))"

text \<open>Whole octets: the prefix left, the number of octets written and the text.\<close>

function octets_loop :: "int \<Rightarrow> int \<Rightarrow> mem \<Rightarrow> (int \<times> int \<times> mem) c" where
  "octets_loop prefix loop m =
     (if prefix - 8 \<ge> 0 then
        cbind (strcat m (ascii ''255.'')) (\<lambda>m.
          if prefix - 8 = 0 then Inr (0, loop + 1, m) else octets_loop (prefix - 8) (loop + 1) m)
      else Inr (prefix, loop, m))"
  by pat_completeness auto
termination
  by (relation "measure (\<lambda>(prefix, loop, m). nat prefix)") auto

declare octets_loop.simps [simp del]

definition mask_octet :: "int \<Rightarrow> byte list option" where
  "mask_octet prefix = map_of [(0, ascii ''0.''), (1, ascii ''1.''), (2, ascii ''3.''), (3, ascii ''7.''),
     (4, ascii ''15.''), (5, ascii ''31.''), (6, ascii ''63.''), (7, ascii ''127.'')] prefix"

function zeros_loop :: "int \<Rightarrow> mem \<Rightarrow> mem c" where
  "zeros_loop loop m = (if loop < 4 then cbind (strcat m (ascii ''0.'')) (\<lambda>m. zeros_loop (loop + 1) m) else Inr m)"
  by pat_completeness auto
termination
  by (relation "measure (\<lambda>(loop, m). nat (4 - loop))") auto

declare zeros_loop.simps [simp del]

definition getNetworkMaskStr :: "byte list option \<Rightarrow> mem option \<Rightarrow> int \<Rightarrow> (int \<times> mem option) c" where
  "getNetworkMaskStr strPrefix netmaskStr n =
     (case (strPrefix, netmaskStr) of
        (Some s, Some m) \<Rightarrow>
          if n \<le> 0 then Inr (0, Some m)
          else cbind (wrs m 0 (replicate (nat n) 0)) (\<lambda>m.
            cbind (chk (atoi s)) (\<lambda>prefix.
            cbind (octets_loop prefix 0 m) (\<lambda>(prefix, loop, m).
              if loop < 4 then
                cbind (case mask_octet prefix of Some t \<Rightarrow> strcat m t | None \<Rightarrow> Inr m) (\<lambda>m.
                cbind (zeros_loop (loop + 1) m) (\<lambda>m.
                cbind (strlen m 0) (\<lambda>k.
                cbind (wri m (int k - 1) 0) (\<lambda>m. Inr (1, Some m)))))
              else Inr (1, Some m))))
      | _ \<Rightarrow> Inr (0, netmaskStr))"

section \<open>All settings at once\<close>

text \<open>One command per setting that is given; the prefix has an array of four characters.\<close>

definition update_if :: "byte list option \<Rightarrow> byte list \<Rightarrow> byte list option \<Rightarrow> byte list list \<Rightarrow> byte list list c" where
  "update_if interfaceName key v cmds =
     (case v of None \<Rightarrow> Inr cmds
      | Some v \<Rightarrow> cbind (updateNetworkInfoByFacesName interfaceName (Some key) (Some v)) (\<lambda>(_, c). Inr (cmds @ c)))"

definition setNetworkInfoByFacesName :: "byte list option \<Rightarrow> byte list option \<Rightarrow> byte list option \<Rightarrow> byte list option
    \<Rightarrow> byte list option \<Rightarrow> byte list option \<Rightarrow> (int \<times> byte list list) c" where
  "setNetworkInfoByFacesName interfaceName ip gateway networkmask dns1 dns2 =
     (if interfaceName = None then Inr (0, [])
      else cbind (update_if interfaceName (ascii ''IPADDR'') ip []) (\<lambda>cmds.
        cbind (update_if interfaceName (ascii ''GATEWAY'') gateway cmds) (\<lambda>cmds.
        cbind (update_if interfaceName (ascii ''DNS1'') dns1 cmds) (\<lambda>cmds.
        cbind (update_if interfaceName (ascii ''DNS2'') dns2 cmds) (\<lambda>cmds.
          case networkmask of None \<Rightarrow> Inr (0, cmds)
          | Some _ \<Rightarrow>
              cbind (getNetworkMaskPrerfix networkmask (Some (replicate 4 0)) 4) (\<lambda>(b, prefix).
                if b = 1 then
                  cbind (strlen (the prefix) 0) (\<lambda>_.
                  cbind (update_if interfaceName (ascii ''PREFIX'') (Some (str_at (the prefix) 0)) cmds) (\<lambda>cmds. Inr (0, cmds)))
                else Inr (0, cmds)))))))"

text \<open>The test of the readers and the main program; \<open>networkmask\<close> is the array of 64 indeterminate bytes.\<close>

definition Test_getNetworkInfoByFacesName :: "shell \<Rightarrow> mem \<Rightarrow> (mem \<times> mem) c" where
  "Test_getNetworkInfoByFacesName sh networkmask =
     (let get = (\<lambda>key m. cbind (getNetworkInfoByFacesName sh (Some (ascii ''ip'')) (Some (ascii key)) (Some m) 64) (\<lambda>(_, m). Inr (the m))) in
      cbind (get ''IPADDR'' (replicate 64 0)) (\<lambda>v.
      cbind (get ''DNS1'' v) (\<lambda>v.
      cbind (get ''DNS2'' v) (\<lambda>v.
      cbind (get ''PREFIX1'' v) (\<lambda>v.
      cbind (strlen v 0) (\<lambda>_.
      cbind (getNetworkMaskStr (Some (str_at v 0)) (Some networkmask) 64) (\<lambda>(_, networkmask).
      cbind (get ''GATEWAY'' v) (\<lambda>v. Inr (v, the networkmask)))))))))"

definition centos_main :: "shell \<Rightarrow> ifaddrs list option \<Rightarrow> mem \<Rightarrow> (byte list list \<times> mem) c" where
  "centos_main sh ifs networkmask =
     cbind (setIpByInterfacesName (Some (ascii ''ip'')) (Some (ascii ''192.168.1.167''))) (\<lambda>(_, c1).
     cbind (setNetworkInfoByFacesName (Some (ascii ''ip'')) (Some (ascii ''192.168.3.221'')) (Some (ascii ''192.168.3.221''))
       (Some (ascii ''255.255.0.0'')) (Some (ascii ''192.168.3.221'')) (Some (ascii ''192.168.3.221''))) (\<lambda>(_, c2).
     cbind (centos_getIpByInterfaceName ifs (Some (replicate 36 0)) 36 (Some (ascii ''enp2s0''))) (\<lambda>(_, ip, _).
     cbind (Test_getNetworkInfoByFacesName sh networkmask) (\<lambda>_. Inr (c1 @ c2, the ip)))))"

section \<open>Reading what a command writes\<close>

lemma strlen_padded: "0 \<notin> set s \<Longrightarrow> 0 < k \<Longrightarrow> strlen (s @ replicate k 0 @ z) 0 = Inr (length s)"
  using c_str_strlen[OF c_strI[of s "replicate (k - 1) 0 @ z"]] by (cases k) auto

lemma execute_loop_stop: "n \<le> 1 \<Longrightarrow> execute_loop err tot n s m = Inr (-1, m)"
  by (simp add: execute_loop.simps)

lemma execute_loop_end:
  "1 < n \<Longrightarrow> left s = [] \<Longrightarrow>
     execute_loop err tot n s m = (if err then Inr (-1, m) else cbind (strlen m 0) (\<lambda>k. Inr (int k, m)))"
  by (simp add: execute_loop.simps fread_def)

lemma execute_loop_data:
  assumes "1 < n" and "out \<noteq> []" and "0 \<notin> set out" and "n \<le> length m"
  shows "execute_loop False (int n) (int n) (fopen_r out) (replicate n 0 @ drop n m) =
    Inr (if length out + 1 < n then int (length out) else -1, take n out @ replicate (n - length out) 0 @ drop n m)"
proof -
  define d where "d = take n out"
  have w: "wrs (replicate n 0 @ drop n m) 0 d = Inr (d @ replicate (n - length d) 0 @ drop n m)"
    using wrs_self[of d "replicate n 0 @ drop n m"] by (simp add: d_def)
  obtain s' where f: "fread n (fopen_r out) = (d, s')" "left s' = drop n out" by (simp add: fread_def fopen_r_def d_def)
  have one: "execute_loop False (int n) (int n) (fopen_r out) (replicate n 0 @ drop n m) =
      execute_loop False (int n) (int n - int (length d)) s' (d @ replicate (n - length d) 0 @ drop n m)"
    using assms f w by (subst execute_loop.simps) (auto simp: d_def)
  show ?thesis
  proof (cases "length out + 1 < n")
    case True
    then have "d = out" "left s' = []" using f by (simp_all add: d_def)
    moreover have "1 < int n - int (length out)" using True by simp
    ultimately show ?thesis using one True assms(3) strlen_padded[of out "n - length out" "drop n m"]
      by (simp add: execute_loop_end)
  next
    case False
    then have "int n - int (length d) \<le> 1" by (auto simp: d_def min_def)
    with False one show ?thesis by (simp add: execute_loop_stop d_def min_def)
  qed
qed

text \<open>
  C30.  executeCMD: what the command writes is in the buffer with null bytes behind it, and its length
  is the result, when two bytes of the buffer are left; otherwise the result is that of a failure, with
  the buffer filled to its last byte and, unless one byte was left, no null byte in it.
\<close>

theorem executeCMD_output:
  assumes "1 < n" and "n \<le> length m" and "0 \<notin> set out" and "sh cmd = Some (out, False)"
  shows "executeCMD sh (Some cmd) (Some m) (int n) =
    Inr (if length out + 1 < n then int (length out) else -1, Some (take n out @ replicate (n - length out) 0 @ drop n m))"
proof -
  have z: "wrs m 0 (replicate n 0) = Inr (replicate n 0 @ drop n m)" using assms(2) by (simp add: wrs_self)
  show ?thesis
  proof (cases "out = []")
    case True
    then show ?thesis using assms z strlen_padded[of "[]" n "drop n m"]
      by (simp add: executeCMD_def execute_loop_end fopen_r_def)
  next
    case False
    then show ?thesis using assms z execute_loop_data[of n out m] by (simp add: executeCMD_def)
  qed
qed

theorem executeCMD_output_witness:
  "executeCMD (\<lambda>_. Some (ascii ''255.0'', False)) (Some (ascii ''x'')) (Some (replicate 8 7)) 8
     = Inr (5, Some (ascii ''255.0'' @ replicate 3 0)) \<and>
   executeCMD (\<lambda>_. Some (ascii ''255.0'', False)) (Some (ascii ''x'')) (Some (replicate 8 7)) 5
     = Inr (-1, Some (ascii ''255.0'' @ replicate 3 7))"
  using executeCMD_output[of 8 "replicate 8 7" "ascii ''255.0''" "\<lambda>_. Some (ascii ''255.0'', False)" "ascii ''x''"]
    executeCMD_output[of 5 "replicate 8 7" "ascii ''255.0''" "\<lambda>_. Some (ascii ''255.0'', False)" "ascii ''x''"]
  by (simp add: ascii_def)

lemma obind_total: "(\<And>y. \<exists>r. f y = Some r) \<Longrightarrow> (\<exists>r. obind x f = Some r) \<longleftrightarrow> (\<exists>r. x = Some r)"
  by (auto simp: obind_def split: option.split sum.split)

text \<open>
  The reader of sys/sys.c does not return from a command that writes nothing, and returns from every
  other.
\<close>

theorem executeCommand_returns:
  assumes "0 < n" and "n \<le> int (length m)" and "sh cmd = Some (out, err)"
  shows "(\<exists>r. executeCommand sh (Some cmd) (Some m) n = Some r) \<longleftrightarrow> out \<noteq> [] \<or> err"
proof -
  have hang: False if "executeCommand_loop err n s m = Some r" "left s = []" "\<not> err" for err n s m r
  proof -
    have "\<not> (left s = [] \<and> \<not> err)"
      using that(1)
    proof (induction rule: executeCommand_loop.raw_induct[rotated, consumes 1, case_names step])
      case (step f err n s m r)
      show ?case
      proof (rule notI, elim conjE)
        assume a: "left s = []" "\<not> err"
        obtain s' where f: "fread (nat n) s = ([], s')" "left s' = []" using a(1) by (simp add: fread_def)
        with step(2) a have "f err n s' m = Some r" by simp
        from step(1)[OF this] f(2) a(2) show False by simp
      qed
    qed
    with that show False by simp
  qed
  have "\<exists>r. executeCommand_loop err n (fopen_r out) m' = Some r" if "out \<noteq> [] \<or> err" for m'
    using that assms(1) by (subst executeCommand_loop.simps) (auto simp: fread_def fopen_r_def)
  then have "(\<exists>r. executeCommand_loop err n (fopen_r out) m' = Some r) \<longleftrightarrow> out \<noteq> [] \<or> err" for m'
    using hang[of err n "fopen_r out" m'] by (cases err) (auto simp: fopen_r_def)
  then show ?thesis using assms by (simp add: executeCommand_def wrs_self obind_total split_beta)
qed

theorem executeCommand_returns_witness:
  "\<not> (\<exists>r. executeCommand (\<lambda>_. Some ([], False)) (Some (ascii ''true'')) (Some [7]) 1 = Some r) \<and>
   (\<exists>r. executeCommand (\<lambda>_. Some ([65], False)) (Some (ascii ''echo'')) (Some [7]) 1 = Some r)"
  using executeCommand_returns[of 1 "[7]" "\<lambda>_. Some ([], False)" "ascii ''true''" "[]" False]
    executeCommand_returns[of 1 "[7]" "\<lambda>_. Some ([65], False)" "ascii ''echo''" "[65]" False] by simp

section \<open>The commands\<close>

lemma sprintf256_fits [simp]: "length s < 256 \<Longrightarrow> sprintf256 s = Inr s"
  by (simp add: sprintf256_def)

lemma sprintf256_full: "256 \<le> length s \<Longrightarrow> sprintf256 s = Inl Write_oob"
  by (simp add: sprintf256_def)

text \<open>Setting the address is the same as updating the key IPADDR, overflows included.\<close>

lemma setIp_is_update:
  "setIpByInterfacesName i v = updateNetworkInfoByFacesName i (Some (ascii ''IPADDR'')) v"
  by (cases i; cases v) (simp_all add: setIpByInterfacesName_def updateNetworkInfoByFacesName_def sed_command_def ascii_def)

text \<open>
  The reader of a setting keeps what the command writes without its last character, the newline.  When the
  file has no such line the command writes nothing, and the null byte is written before the buffer.
\<close>

theorem getNetworkInfo_reads:
  assumes "length (interfacePath @ i) < 256" and "length (cat_command (interfacePath @ i) key) < 256"
    and "sh (cat_command (interfacePath @ i) key) = Some (out, False)" and "0 \<notin> set out"
    and "length out < n" and "1 < n" and "n \<le> length m"
  shows "if out = [] then getNetworkInfoByFacesName sh (Some i) (Some key) (Some m) (int n) = Inl Write_oob
    else \<exists>m'. getNetworkInfoByFacesName sh (Some i) (Some key) (Some m) (int n) = Inr (1, Some m') \<and>
      length m' = length m \<and> c_str m' 0 (butlast out)"
proof -
  define m1 where "m1 = out @ replicate (n - length out) 0 @ drop n m"
  have e: "\<exists>ret. executeCMD sh (Some (cat_command (interfacePath @ i) key)) (Some m) (int n) = Inr (ret, Some m1)"
  proof (cases "out = []")
    case True
    then show ?thesis using assms wrs_self[of "replicate n 0" m] strlen_padded[of "[]" n "drop n m"]
      by (simp add: executeCMD_def execute_loop_end fopen_r_def m1_def)
  next
    case False
    then show ?thesis using assms wrs_self[of "replicate n 0" m] execute_loop_data[of n out m]
      by (simp add: executeCMD_def m1_def)
  qed
  have l: "strlen m1 0 = Inr (length out)" using assms strlen_padded[of out "n - length out" "drop n m"] by (simp add: m1_def)
  show ?thesis
  proof (cases "out = []")
    case True
    then show ?thesis using e l assms by (auto simp: getNetworkInfoByFacesName_def Let_def wri_def)
  next
    case False
    then obtain v c where out: "out = v @ [c]" by (metis append_butlast_last_id)
    then have "int (length out) - 1 = int (length v)" by simp
    moreover have "m1[length v := 0] = v @ 0 # replicate (n - length out) 0 @ drop n m" by (simp add: m1_def out)
    moreover have "0 \<notin> set v" using assms(4) out by simp
    ultimately show ?thesis using e l assms out
      by (auto simp: getNetworkInfoByFacesName_def Let_def c_strI m1_def)
  qed
qed

definition address_shell :: shell where
  "address_shell cmd = (if cmd = cat_command (interfacePath @ ascii ''ip'') (ascii ''IPADDR'') then Some (ascii ''10.0.0.1'' @ [10], False)
     else Some ([], False))"

theorem getNetworkInfo_reads_witness:
  "(\<exists>m'. getNetworkInfoByFacesName address_shell (Some (ascii ''ip'')) (Some (ascii ''IPADDR'')) (Some (replicate 64 0)) 64 = Inr (1, Some m') \<and>
      length m' = 64 \<and> c_str m' 0 (ascii ''10.0.0.1'')) \<and>
   getNetworkInfoByFacesName address_shell (Some (ascii ''ip'')) (Some (ascii ''DNS2'')) (Some (replicate 64 0)) 64 = Inl Write_oob"
proof
  have l: "length (interfacePath @ ascii ''ip'') < 256" "length (cat_command (interfacePath @ ascii ''ip'') (ascii ''IPADDR'')) < 256"
    "length (cat_command (interfacePath @ ascii ''ip'') (ascii ''DNS2'')) < 256"
    by (simp_all add: interfacePath_def cat_command_def quote_def ascii_def)
  have "address_shell (cat_command (interfacePath @ ascii ''ip'') (ascii ''IPADDR'')) = Some (ascii ''10.0.0.1'' @ [10], False)"
    by (simp add: address_shell_def)
  from getNetworkInfo_reads[of "ascii ''ip''" "ascii ''IPADDR''" address_shell "ascii ''10.0.0.1'' @ [10]" 64 "replicate 64 0", OF l(1,2) this]
  show "\<exists>m'. getNetworkInfoByFacesName address_shell (Some (ascii ''ip'')) (Some (ascii ''IPADDR'')) (Some (replicate 64 0)) 64 = Inr (1, Some m') \<and>
      length m' = 64 \<and> c_str m' 0 (ascii ''10.0.0.1'')" by (simp add: ascii_def)
  have "address_shell (cat_command (interfacePath @ ascii ''ip'') (ascii ''DNS2'')) = Some ([], False)"
    by (simp add: address_shell_def cat_command_def ascii_def)
  from getNetworkInfo_reads[of "ascii ''ip''" "ascii ''DNS2''" address_shell "[]" 64 "replicate 64 0", OF l(1,3) this]
  show "getNetworkInfoByFacesName address_shell (Some (ascii ''ip'')) (Some (ascii ''DNS2'')) (Some (replicate 64 0)) 64 = Inl Write_oob"
    by simp
qed

section \<open>Masks and prefixes\<close>

lemma strcat_padded:
  "0 \<notin> set s \<Longrightarrow> length t < k \<Longrightarrow>
     strcat (s @ replicate k 0 @ z) t = Inr ((s @ t) @ replicate (k - length t) 0 @ z)"
proof -
  assume a: "0 \<notin> set s" "length t < k"
  then have "replicate (k - length t) 0 @ z = (0 :: byte) # replicate (k - length t - 1) 0 @ z"
    by (cases "k - length t") auto
  with a show ?thesis by (simp add: strcat_def strlen_padded wrs_append_left)
qed

lemma octets_loop_run:
  "0 \<notin> set s \<Longrightarrow> 4 * q < k \<Longrightarrow> 0 \<le> r \<Longrightarrow> r < 8 \<Longrightarrow>
     octets_loop (8 * int q + r) l (s @ replicate k 0 @ z) =
       Inr (r, l + int q, (s @ concat (replicate q (ascii ''255.''))) @ replicate (k - 4 * q) 0 @ z)"
proof (induction q arbitrary: s k l)
  case 0
  then show ?case by (simp add: octets_loop.simps)
next
  case (Suc q)
  have c: "strcat (s @ replicate k 0 @ z) (ascii ''255.'') = Inr ((s @ ascii ''255.'') @ replicate (k - 4) 0 @ z)"
    using strcat_padded[of s "ascii ''255.''" k z] Suc.prems by (simp add: ascii_def)
  have n: "0 \<notin> set (s @ ascii ''255.'')" using Suc.prems by (simp add: ascii_def)
  have p: "8 * int (Suc q) + r - 8 = 8 * int q + r" "0 \<le> 8 * int q + r" using Suc.prems by simp_all
  show ?case
  proof (cases "8 * int q + r = 0")
    case True
    then have "q = 0" "r = 0" using Suc.prems by simp_all
    with c p show ?thesis by (subst octets_loop.simps) simp
  next
    case False
    have "octets_loop (8 * int (Suc q) + r) l (s @ replicate k 0 @ z) =
        octets_loop (8 * int q + r) (l + 1) ((s @ ascii ''255.'') @ replicate (k - 4) 0 @ z)"
      using False c by (subst octets_loop.simps) (simp only: p cbind.simps if_True if_False simp_thms)
    with Suc.IH[OF n, of "k - 4" "l + 1"] Suc.prems show ?thesis by (simp add: diff_diff_eq add.commute)
  qed
qed

lemma zeros_loop_run:
  "0 \<notin> set s \<Longrightarrow> 2 * q < k \<Longrightarrow>
     zeros_loop (4 - int q) (s @ replicate k 0 @ z) =
       Inr ((s @ concat (replicate q (ascii ''0.''))) @ replicate (k - 2 * q) 0 @ z)"
proof (induction q arbitrary: s k)
  case 0
  then show ?case by (simp add: zeros_loop.simps)
next
  case (Suc q)
  have c: "strcat (s @ replicate k 0 @ z) (ascii ''0.'') = Inr ((s @ ascii ''0.'') @ replicate (k - 2) 0 @ z)"
    using strcat_padded[of s "ascii ''0.''" k z] Suc.prems by (simp add: ascii_def)
  have n: "0 \<notin> set (s @ ascii ''0.'')" using Suc.prems by (simp add: ascii_def)
  have "zeros_loop (4 - int (Suc q)) (s @ replicate k 0 @ z) = zeros_loop (4 - int q) ((s @ ascii ''0.'') @ replicate (k - 2) 0 @ z)"
    using c by (subst zeros_loop.simps) simp
  with Suc.IH[OF n, of "k - 2"] Suc.prems show ?case by (simp add: diff_diff_eq add.commute)
qed

lemma atoi_digits: "list_all is_digit ds \<Longrightarrow> atoi ds = dec_of ds"
proof (cases ds)
  case (Cons d u)
  assume a: "list_all is_digit ds"
  then have d: "is_digit d" using Cons by simp
  then have "d \<noteq> 32" "\<not> (9 \<le> d \<and> d \<le> 13)" "d \<noteq> 45" "d \<noteq> 43" by (auto simp: is_digit_def word_le_def)
  moreover have "takeWhile is_digit (d # u) = d # u" using a Cons by (simp add: takeWhile_eq_all_conv list_all_iff)
  ultimately show ?thesis using Cons by (auto simp: atoi_def Let_def)
qed (simp add: atoi_def)

text \<open>The octets the code writes for a prefix of at most 32 bits, and those of the netmask itself.\<close>

definition code_octets :: "nat \<Rightarrow> nat list" where
  "code_octets p = replicate (p div 8) 255 @ (if p < 32 then (2 ^ (p mod 8) - 1) # replicate (3 - p div 8) 0 else [])"

definition true_octets :: "nat \<Rightarrow> nat list" where
  "true_octets p = replicate (p div 8) 255 @ (if p < 32 then (256 - 2 ^ (8 - p mod 8)) # replicate (3 - p div 8) 0 else [])"

definition octets_text :: "nat list \<Rightarrow> byte list" where
  "octets_text os = joined 46 (map dec_digits os)"

text \<open>With all 32 bits set a dot is left behind the last octet.\<close>

definition code_mask :: "nat \<Rightarrow> byte list" where
  "code_mask p = octets_text (code_octets p) @ (if p < 32 then [] else [46])"

definition raw_mask :: "nat \<Rightarrow> byte list" where
  "raw_mask p = concat (replicate (p div 8) (ascii ''255.'')) @
     (if p < 32 then the (mask_octet (int (p mod 8))) @ concat (replicate (3 - p div 8) (ascii ''0.'')) else [])"

lemma masks_raw:
  "list_all (\<lambda>p. raw_mask p = (if p < 32 then code_mask p @ [46] else code_mask p)) [0..<33]"
  by code_simp

lemma masks_room:
  "list_all (\<lambda>p. 0 \<notin> set (code_mask p) \<and> length (raw_mask p) < 17 \<and> (p < 32 \<longrightarrow> mask_octet (int (p mod 8)) \<noteq> None)) [0..<33]"
  by code_simp

lemma masks_true:
  "list_all (\<lambda>p. (code_mask p = octets_text (true_octets p)) = (p < 32 \<and> p mod 8 = 0)) [0..<33]"
  by code_simp

lemma masks_back:
  "list_all (\<lambda>p. prefix_loop (takeWhile (\<lambda>b. b \<noteq> 48) (code_mask p)) 0 = (if p \<le> 24 \<or> p = 32 then int p else 24)) [0..<33]"
  by code_simp

lemma masks:
  assumes "p \<le> 32"
  shows "raw_mask p = (if p < 32 then code_mask p @ [46] else code_mask p)"
    and "0 \<notin> set (code_mask p)" and "length (raw_mask p) < 17"
    and "p < 32 \<Longrightarrow> mask_octet (int (p mod 8)) \<noteq> None"
    and "code_mask p = octets_text (true_octets p) \<longleftrightarrow> p < 32 \<and> p mod 8 = 0"
    and "prefix_loop (takeWhile (\<lambda>b. b \<noteq> 48) (code_mask p)) 0 = (if p \<le> 24 \<or> p = 32 then int p else 24)"
proof -
  have at: "Q p" if "list_all Q [0..<33]" for Q using that assms by (simp add: list_all_iff)
  show "raw_mask p = (if p < 32 then code_mask p @ [46] else code_mask p)" using at[OF masks_raw] .
  show "0 \<notin> set (code_mask p)" "length (raw_mask p) < 17" "p < 32 \<Longrightarrow> mask_octet (int (p mod 8)) \<noteq> None"
    using at[OF masks_room] by simp_all
  show "code_mask p = octets_text (true_octets p) \<longleftrightarrow> p < 32 \<and> p mod 8 = 0" using at[OF masks_true] .
  show "prefix_loop (takeWhile (\<lambda>b. b \<noteq> 48) (code_mask p)) 0 = (if p \<le> 24 \<or> p = 32 then int p else 24)"
    using at[OF masks_back] .
qed

lemma getNetworkMaskStr_text:
  assumes "p \<le> 32" and "17 \<le> n" and "n \<le> length m"
  shows "\<exists>m'. getNetworkMaskStr (Some (dec_digits p)) (Some m) (int n) = Inr (1, Some m') \<and> length m' = length m \<and> c_str m' 0 (code_mask p)"
proof -
  let ?q = "p div 8" and ?r = "p mod 8" and ?z = "drop n m"
  let ?o = "concat (replicate ?q (ascii ''255.''))"
  have w: "wrs m 0 (replicate n 0) = Inr (replicate n 0 @ ?z)" using assms(3) by (simp add: wrs_self)
  have a: "chk (atoi (dec_digits p)) = Inr (int p)"
    using assms(1) by (simp add: atoi_digits dec_digits_digits dec_of_dec_digits in_int_def int_min_def int_max_def)
  have p: "8 * int ?q + int ?r = int p" by (metis mult_div_mod_eq of_nat_add of_nat_mult of_nat_numeral)
  have q: "4 * ?q < n" "?q \<le> 4" using assms by linarith+
  have o: "0 \<notin> set ?o" by (auto simp: ascii_def)
  have oct: "octets_loop (int p) 0 (replicate n 0 @ ?z) = Inr (int ?r, int ?q, ?o @ replicate (n - 4 * ?q) 0 @ ?z)"
    using octets_loop_run[of "[]" ?q n "int ?r" 0 ?z] q by (simp add: p)
  have lo: "length ?o = 4 * ?q" by (simp add: length_concat sum_list_replicate ascii_def)
  have len: "length (raw_mask p) < 17" by (rule masks(3)[OF assms(1)])
  have nz: "0 \<notin> set (raw_mask p)" using masks(1,2)[OF assms(1)] by (auto split: if_splits)
  show ?thesis
  proof (cases "p < 32")
    case False
    then have "p = 32" using assms(1) by simp
    then have "raw_mask p = ?o" "code_mask p = ?o" "?q = 4" using masks(1)[OF assms(1)] by (simp_all add: raw_mask_def)
    moreover obtain k where "n - 16 = Suc k" using assms(2) by (cases "n - 16") auto
    ultimately show ?thesis using w a oct o lo assms
      by (auto simp: getNetworkMaskStr_def c_strI)
  next
    case True
    then obtain t where t: "mask_octet (int ?r) = Some t" using masks(4)[OF assms(1)] by auto
    define u where "u = ?o @ t"
    define v where "v = concat (replicate (3 - ?q) (ascii ''0.''))"
    have raw: "raw_mask p = u @ v" using True t by (simp add: raw_mask_def u_def v_def)
    have zu: "0 \<notin> set u" using nz raw by simp
    have lv: "length v = 2 * (3 - ?q)" by (simp add: v_def length_concat sum_list_replicate ascii_def)
    have room: "length u + length v < n" using len raw assms(2) by simp
    have c: "strcat (?o @ replicate (n - 4 * ?q) 0 @ ?z) t = Inr (u @ replicate (n - length u) 0 @ ?z)"
      using strcat_padded[OF o, of t "n - 4 * ?q" ?z] room lo by (simp add: u_def)
    have lt: "?q < 4" using True by linarith
    have l: "int ?q + 1 = 4 - int (3 - ?q)" using True by linarith
    have z: "zeros_loop (int ?q + 1) (u @ replicate (n - length u) 0 @ ?z) =
        Inr (raw_mask p @ replicate (n - length (raw_mask p)) 0 @ ?z)"
      using zeros_loop_run[OF zu, of "3 - ?q" "n - length u" ?z] room lv unfolding l
      by (simp add: raw flip: v_def)
    have s: "strlen (raw_mask p @ replicate (n - length (raw_mask p)) 0 @ ?z) 0 = Inr (length (raw_mask p))"
      using strlen_padded[OF nz] len assms(2) by simp
    have rm: "raw_mask p = code_mask p @ [46]" using masks(1)[OF assms(1)] True by simp
    then have i: "int (length (raw_mask p)) - 1 = int (length (code_mask p))" by simp
    have "getNetworkMaskStr (Some (dec_digits p)) (Some m) (int n) =
        Inr (1, Some (code_mask p @ 0 # replicate (n - length (raw_mask p)) 0 @ ?z))"
      using w a oct t c z s True lt assms(2) unfolding getNetworkMaskStr_def
      by (simp add: i) (simp add: rm)
    then show ?thesis using masks(2)[OF assms(1)] len rm assms by (auto simp: c_strI)
  qed
qed

text \<open>
  getNetworkMaskStr writes the netmask of a prefix of at most 32 bits only when the prefix ends with an
  octet before the last: otherwise the bits of the last octet are counted from the wrong end, and
  with 32 bits a dot is left behind.
\<close>

theorem netmask_of_prefix:
  assumes "p \<le> 32" and "17 \<le> n" and "n \<le> length m"
  shows "\<exists>m' s. getNetworkMaskStr (Some (dec_digits p)) (Some m) (int n) = Inr (1, Some m') \<and> c_str m' 0 s \<and>
    (s = octets_text (true_octets p) \<longleftrightarrow> p < 32 \<and> p mod 8 = 0)"
proof -
  obtain m' where "getNetworkMaskStr (Some (dec_digits p)) (Some m) (int n) = Inr (1, Some m')" "c_str m' 0 (code_mask p)"
    using getNetworkMaskStr_text[OF assms] by blast
  then show ?thesis using masks(5)[OF assms(1)] by (intro exI[of _ m'] exI[of _ "code_mask p"] conjI)
qed

theorem netmask_of_prefix_witness:
  "(\<exists>m' s. getNetworkMaskStr (Some (dec_digits 16)) (Some (replicate 64 7)) 64 = Inr (1, Some m') \<and> c_str m' 0 s \<and>
     s = octets_text (true_octets 16)) \<and>
   (\<exists>m' s. getNetworkMaskStr (Some (dec_digits 20)) (Some (replicate 64 7)) 64 = Inr (1, Some m') \<and> c_str m' 0 s \<and>
     s \<noteq> octets_text (true_octets 20))"
  using netmask_of_prefix[of 16 64 "replicate 64 7"] netmask_of_prefix[of 20 64 "replicate 64 7"] by auto

text \<open>
  C18.  From a prefix to a mask and back: the prefix comes back when it has at most 24 bits or
  all 32; from 25 to 31 bits the last octet, which has no dot behind it, is not counted and 24 comes back.
\<close>

theorem netmask_roundtrip:
  assumes "p \<le> 32" and "17 \<le> n" and "n \<le> length m" and "3 \<le> k" and "k \<le> length b"
  shows "\<exists>m' b'. getNetworkMaskStr (Some (dec_digits p)) (Some m) (int n) = Inr (1, Some m') \<and>
    getNetworkMaskPrerfix (Some (str_at m' 0)) (Some b) (int k) = Inr (1, Some b') \<and>
    c_str b' 0 (dec_digits (if p \<le> 24 \<or> p = 32 then p else 24))"
proof -
  obtain m' where m': "getNetworkMaskStr (Some (dec_digits p)) (Some m) (int n) = Inr (1, Some m')" "c_str m' 0 (code_mask p)"
    using getNetworkMaskStr_text[OF assms(1-3)] by blast
  let ?v = "if p \<le> 24 \<or> p = 32 then p else 24"
  let ?d = "dec_digits ?v"
  have "?v < 10 ^ 2" using assms(1) by simp
  then have l: "length ?d \<le> 2" by (rule dec_digits_length) simp
  have pv: "printf_d (if p \<le> 24 \<or> p = 32 then int p else 24) = ?d" by (simp add: printf_d_def)
  have cm: "length (code_mask p) + 1 \<le> 20" using masks(1,3)[OF assms(1)] by (auto split: if_splits)
  define z where "z = replicate (k - length ?d - 1) 0 @ drop k b"
  have w: "wrs b 0 (replicate k 0) = Inr (replicate k 0 @ drop k b)" using assms(5) by (simp add: wrs_self)
  have w2: "wrs (replicate k 0 @ drop k b) 0 (?d @ [0]) = Inr (?d @ 0 # z)"
    using l assms(4,5) wrs_self[of "?d @ [0]" "replicate k 0 @ drop k b"] by (simp add: z_def)
  have "getNetworkMaskPrerfix (Some (str_at m' 0)) (Some b) (int k) = Inr (1, Some (?d @ 0 # z))"
    using w w2 cm assms(4) c_str_str_at[OF m'(2)] masks(6)[OF assms(1)]
    by (simp only: getNetworkMaskPrerfix_def prod.case option.case) (simp add: pv)
  with m'(1) show ?thesis using c_strI[OF dec_digits_no_zero] by blast
qed

theorem netmask_roundtrip_witness:
  "(\<exists>m' b'. getNetworkMaskStr (Some (dec_digits 20)) (Some (replicate 17 7)) 17 = Inr (1, Some m') \<and>
      getNetworkMaskPrerfix (Some (str_at m' 0)) (Some (replicate 4 7)) 4 = Inr (1, Some b') \<and> c_str b' 0 (dec_digits 20)) \<and>
   (\<exists>m' b'. getNetworkMaskStr (Some (dec_digits 28)) (Some (replicate 17 7)) 17 = Inr (1, Some m') \<and>
      getNetworkMaskPrerfix (Some (str_at m' 0)) (Some (replicate 4 7)) 4 = Inr (1, Some b') \<and> c_str b' 0 (dec_digits 24))"
  using netmask_roundtrip[of 20 17 "replicate 17 7" 4 "replicate 4 7"] netmask_roundtrip[of 28 17 "replicate 17 7" 4 "replicate 4 7"]
  by simp

text \<open>A netmask written the usual way is cut at the zero inside its last octet.\<close>

lemma prefix_of_usual_masks:
  "prefix_loop (takeWhile (\<lambda>b. b \<noteq> 48) (ascii ''255.255.240.0'')) 0 = 16"
  "prefix_loop (takeWhile (\<lambda>b. b \<noteq> 48) (ascii ''255.255.255.255'')) 0 = 24"
  "prefix_loop (takeWhile (\<lambda>b. b \<noteq> 48) (ascii ''255.255.0.0'')) 0 = 16"
  by code_simp+

section \<open>The settings of an interface\<close>

lemma update_fits:
  "length (interfacePath @ i) < 256 \<Longrightarrow> length (sed_command k v (interfacePath @ i)) < 256 \<Longrightarrow>
     updateNetworkInfoByFacesName (Some i) (Some k) (Some v) = Inr (1, [sed_command k v (interfacePath @ i)])"
  by (simp add: updateNetworkInfoByFacesName_def)

lemma update_if_fits:
  "length (interfacePath @ i) < 256 \<Longrightarrow> v \<noteq> None \<Longrightarrow> length (sed_command k (the v) (interfacePath @ i)) < 256 \<Longrightarrow>
     update_if (Some i) k v cmds = Inr (cmds @ [sed_command k (the v) (interfacePath @ i)])"
  by (auto simp: update_if_def update_fits)

lemma update_if_None [simp]: "update_if i k None cmds = Inr cmds"
  by (simp add: update_if_def)

lemma length_ascii [simp]: "length (ascii s) = length s"
  by (simp add: ascii_def)

lemma sed_command_length: "length (sed_command k v f) = 15 + 2 * length k + length v + length f"
  by (simp add: sed_command_def quote_def ascii_def)

text \<open>
  setNetworkInfoByFacesName gives one command to the shell for each setting, in the order address, gateway,
  the two name servers and prefix, when the name of the interface and the values are short.  Every value stands
  in its command as it is.
\<close>

theorem settings_in_order:
  assumes "length i + 37 + 15 + 2 * 7 + 30 < 256"
    and "\<forall>v\<in>{ip, gw, d1, d2}. \<forall>s. v = Some s \<longrightarrow> length s \<le> 30"
    and "length msk \<le> 19"
    and "prefix = dec_digits (nat (prefix_loop (takeWhile (\<lambda>b. b \<noteq> 48) msk) 0))" and "length prefix \<le> 3"
    and "0 \<le> prefix_loop (takeWhile (\<lambda>b. b \<noteq> 48) msk) 0"
  shows "setNetworkInfoByFacesName (Some i) ip gw (Some msk) d1 d2 =
    Inr (0, map (\<lambda>(k, v). sed_command (ascii k) (the v) (interfacePath @ i))
      (filter (\<lambda>(k, v). v \<noteq> None) [(''IPADDR'', ip), (''GATEWAY'', gw), (''DNS1'', d1), (''DNS2'', d2), (''PREFIX'', Some prefix)]))"
proof -
  have p: "length interfacePath = 37" by (simp add: interfacePath_def ascii_def)
  have ks: "length (ascii ''IPADDR'') \<le> 7" "length (ascii ''GATEWAY'') \<le> 7" "length (ascii ''DNS1'') \<le> 7"
    "length (ascii ''DNS2'') \<le> 7" "length (ascii ''PREFIX'') \<le> 7"
    by (simp_all add: ascii_def)
  have u: "update_if (Some i) k v cmds = Inr (cmds @ (if v = None then [] else [sed_command k (the v) (interfacePath @ i)]))"
    if "length k \<le> 7" "\<forall>s. v = Some s \<longrightarrow> length s \<le> 30" for k v cmds
    using that assms(1) p by (cases v) (auto simp: update_if_fits sed_command_length)
  have pre: "printf_d (prefix_loop (takeWhile (\<lambda>b. b \<noteq> 48) msk) 0) = prefix" using assms(4,6) by (simp add: printf_d_def)
  have w: "wrs [0, 0, 0, 0] 0 (prefix @ [0]) = Inr (prefix @ 0 # drop (Suc (length prefix)) [0, 0, 0, 0])"
    using assms(5) wrs_self[of "prefix @ [0]" "[0, 0, 0, 0]"] by simp
  have m: "getNetworkMaskPrerfix (Some msk) (Some (replicate 4 0)) 4 = Inr (1, Some (prefix @ 0 # drop (Suc (length prefix)) [0, 0, 0, 0]))"
    using assms(3) w by (simp add: getNetworkMaskPrerfix_def pre numeral_eq_Suc)
  have "0 \<notin> set prefix" unfolding assms(4) by (rule dec_digits_no_zero)
  then have c: "c_str (prefix @ 0 # drop (Suc (length prefix)) [0, 0, 0, 0]) 0 prefix" by (rule c_strI)
  show ?thesis using u[OF ks(1)] u[OF ks(2)] u[OF ks(3)] u[OF ks(4)] u[OF ks(5), of "Some prefix"] assms(2,5) m
      c_str_strlen[OF c] c_str_str_at[OF c]
    by (simp add: setNetworkInfoByFacesName_def)
qed

theorem settings_in_order_witness:
  "setNetworkInfoByFacesName (Some (ascii ''ip'')) (Some (ascii ''192.168.3.221'')) None (Some (ascii ''255.255.0.0'')) None (Some (ascii ''1.1.1.1'')) =
    Inr (0, [sed_command (ascii ''IPADDR'') (ascii ''192.168.3.221'') (interfacePath @ ascii ''ip''),
      sed_command (ascii ''DNS2'') (ascii ''1.1.1.1'') (interfacePath @ ascii ''ip''),
      sed_command (ascii ''PREFIX'') (ascii ''16'') (interfacePath @ ascii ''ip'')])"
proof -
  have d: "dec_digits 16 = ascii ''16''" by code_simp
  show ?thesis
    using settings_in_order[of "ascii ''ip''" "Some (ascii ''192.168.3.221'')" None None "Some (ascii ''1.1.1.1'')" "ascii ''255.255.0.0''" "ascii ''16''"]
      prefix_of_usual_masks(3) d by (simp add: length_ascii)
qed

text \<open>The main program on a file that has an address but no name server.\<close>

lemma centos_main_without_dns: "centos_main address_shell (Some sample_interfaces) (replicate 64 7) = Inl Write_oob"
  by code_simp

end
