(* ===== verification/Net_Ioctl.thy ===== *)
theory Net_Ioctl
  imports Network_Info
begin

text \<open>
  Network/getNetWorkInfo.c: the properties of a network interface as the ioctl calls of Linux tell them.
  A struct ifreq is its name and the bytes of its union, which every call overwrites and every
  variant is read from: the flags are the first two bytes, an address has its family there, its
  four bytes from offset 4 and the hardware address from offset 2.  What socket and the calls answer is input.
\<close>

section \<open>The requests\<close>

record ifreq =
  ifr_name :: "byte list"
  ifr_ifru :: "byte list"

datatype request = SIOCGIFFLAGS | SIOCGIFADDR | SIOCGIFNETMASK | SIOCGIFHWADDR | SIOCGIFBRDADDR

text \<open>The union after a call that succeeds.\<close>

type_synonym kernel = "request \<Rightarrow> byte list \<Rightarrow> byte list option"

definition ifr_flags :: "ifreq \<Rightarrow> 16 word" where
  "ifr_flags r = ucast (ifr_ifru r ! 0) OR push_bit 8 (ucast (ifr_ifru r ! 1))"

definition ifr_sin_addr :: "ifreq \<Rightarrow> byte list" where
  "ifr_sin_addr r = take 4 (drop 4 (ifr_ifru r))"

definition ifr_hwaddr :: "ifreq \<Rightarrow> byte list" where
  "ifr_hwaddr r = take 6 (drop 2 (ifr_ifru r))"

definition IFF_UP :: "16 word" where "IFF_UP = 1"
definition IFF_PROMISC :: "16 word" where "IFF_PROMISC = 0x100"
definition MAXINTERFACES :: nat where "MAXINTERFACES = 16"

definition ioctl :: "kernel \<Rightarrow> request \<Rightarrow> ifreq \<Rightarrow> bool \<times> ifreq" where
  "ioctl kern req r = (case kern req (ifr_name r) of None \<Rightarrow> (False, r) | Some u \<Rightarrow> (True, r\<lparr>ifr_ifru := u\<rparr>))"

section \<open>One property of one interface\<close>

datatype InterfaceProp = NETINFO_STATUS | NETINFO_IPADDR | NETINFO_NETMASK | NETINFO_MAC | NETINFO_BROADCAST

definition prop_number :: "InterfaceProp \<Rightarrow> int" where
  "prop_number k = (case k of NETINFO_STATUS \<Rightarrow> 1 | NETINFO_IPADDR \<Rightarrow> 2 | NETINFO_NETMASK \<Rightarrow> 3 | NETINFO_MAC \<Rightarrow> 4 | NETINFO_BROADCAST \<Rightarrow> 5)"

definition hex_digit :: "nat \<Rightarrow> byte" where
  "hex_digit n = (if n < 10 then 48 + of_nat n else 87 + of_nat n)"

definition hw_text :: "byte list \<Rightarrow> byte list" where
  "hw_text a = joined 58 (map (\<lambda>b. [hex_digit (unat b div 16), hex_digit (unat b mod 16)]) a)"

definition strcpy :: "mem \<Rightarrow> byte list \<Rightarrow> mem c" where
  "strcpy m s = wrs m 0 (s @ [0])"

text \<open>An address that is asked for and, when it is shorter than the buffer, copied.\<close>

definition address_into :: "kernel \<Rightarrow> request \<Rightarrow> ifreq \<Rightarrow> mem \<Rightarrow> int \<Rightarrow> mem c" where
  "address_into kern req r m n =
     (case ioctl kern req r of (ok, r) \<Rightarrow>
        if ok then (let t = dotted (ifr_sin_addr r) in if int (length t) < n then strcpy m t else Inr m) else Inr m)"

definition property_into :: "kernel \<Rightarrow> InterfaceProp \<Rightarrow> ifreq \<Rightarrow> mem \<Rightarrow> int \<Rightarrow> (mem \<times> byte list) c" where
  "property_into kern key r m n =
     (case key of
        NETINFO_STATUS \<Rightarrow>
          if n < 5 then Inr (m, ascii ''interfacePropVal buffer is too smaall'' @ [10])
          else cbind (strcpy m (if ifr_flags r AND IFF_UP \<noteq> 0 then ascii ''UP'' else ascii ''DOWN'')) (\<lambda>m. Inr (m, []))
      | NETINFO_IPADDR \<Rightarrow> cbind (address_into kern SIOCGIFADDR r m n) (\<lambda>m. Inr (m, []))
      | NETINFO_NETMASK \<Rightarrow> cbind (address_into kern SIOCGIFNETMASK r m n) (\<lambda>m. Inr (m, []))
      | NETINFO_MAC \<Rightarrow>
          (case ioctl kern SIOCGIFHWADDR r of (ok, r) \<Rightarrow>
             if ok \<and> n > 18 then cbind (strcpy m (hw_text (ifr_hwaddr r))) (\<lambda>m. Inr (m, [])) else Inr (m, []))
      | NETINFO_BROADCAST \<Rightarrow> cbind (address_into kern SIOCGIFBRDADDR r m n) (\<lambda>m. Inr (m, [])))"

fun find_interface :: "byte list \<Rightarrow> ifreq list \<Rightarrow> ifreq option" where
  "find_interface nm [] = None"
| "find_interface nm (r # rs) = (if ifr_name r = nm then Some r else find_interface nm rs)"

text \<open>
  \<open>conf\<close> is what SIOCGIFCONF stores, if it succeeds.  The result is the length of the value, or -1, with the buffer
  and what is printed.
\<close>

definition getNetworkinfoByInterfaceName :: "bool \<Rightarrow> ifreq list option \<Rightarrow> kernel \<Rightarrow> byte list option \<Rightarrow> InterfaceProp option
    \<Rightarrow> mem option \<Rightarrow> int \<Rightarrow> (int \<times> mem option \<times> byte list) c" where
  "getNetworkinfoByInterfaceName sock conf kern interfaceName key val n =
     (case (interfaceName, key, val) of
        (Some nm, Some key, Some m) \<Rightarrow>
          if n \<le> 0 then Inr (-1, Some m, [])
          else cbind (wrs m 0 (replicate (nat n) 0)) (\<lambda>m.
            if \<not> sock then Inr (-1, Some m, [])
            else
              cbind (case conf of
                  None \<Rightarrow> Inr (m, ascii ''Get interface list failed'' @ [10])
                | Some rs \<Rightarrow>
                    case find_interface nm (take MAXINTERFACES rs) of
                      None \<Rightarrow> Inr (m, ascii ''Interface is'' @ [39] @ ascii ''t exist.'' @ [10])
                    | Some r \<Rightarrow> cbind (property_into kern key r m n) (\<lambda>(m, out).
                        cbind (strlen m 0) (\<lambda>_.
                          Inr (m, out @ nm @ ascii '':['' @ printf_d (prop_number key) @ ascii '']:'' @ str_at m 0 @ [10]))))
              (\<lambda>(m, out). cbind (strlen m 0) (\<lambda>k. Inr (int k, Some m, out))))
      | _ \<Rightarrow> Inr (-1, val, []))"

section \<open>All interfaces\<close>

text \<open>A line that is printed when the call succeeds; what is written to stderr otherwise is left out.\<close>

definition say_if :: "kernel \<Rightarrow> request \<Rightarrow> (ifreq \<Rightarrow> byte list) \<Rightarrow> ifreq \<Rightarrow> byte list \<times> ifreq" where
  "say_if kern req txt r = (case ioctl kern req r of (ok, r) \<Rightarrow> (if ok then txt r else [], r))"

text \<open>What is printed for one interface, and whether it is counted.\<close>

definition show_interface :: "kernel \<Rightarrow> ifreq \<Rightarrow> byte list \<times> bool" where
  "show_interface kern r =
     (let (ok, r) = ioctl kern SIOCGIFFLAGS r;
          promisc = ok \<and> ifr_flags r AND IFF_PROMISC \<noteq> 0;
          o1 = ascii ''net device '' @ ifr_name r @ [10] @
               (if promisc then ascii ''the interface is PROMISC'' @ [10] else []) @
               (if ifr_flags r AND IFF_UP \<noteq> 0 then ascii ''the interface status is UP'' @ [10]
                else ascii ''the interface status is DOWN'' @ [10]);
          (o2, r) = say_if kern SIOCGIFADDR (\<lambda>r. ascii ''IP address is: '' @ dotted (ifr_sin_addr r) @ [10]) r;
          (o3, r) = say_if kern SIOCGIFHWADDR (\<lambda>r. ascii ''HW address is:'' @ hw_text (ifr_hwaddr r) @ [10]) r;
          (o4, r) = say_if kern SIOCGIFNETMASK (\<lambda>r. ascii ''MASK:'' @ dotted (ifr_sin_addr r) @ [10]) r;
          (o5, r) = say_if kern SIOCGIFBRDADDR (\<lambda>r. ascii ''Broadcast Address:'' @ dotted (ifr_sin_addr r) @ [10]) r
      in (o1 @ o2 @ o3 @ o4 @ o5 @ [10, 10], promisc))"

text \<open>\<open>while (intrface-- > 0)\<close>: the index, the number counted and what is printed.\<close>

fun interfaces_loop :: "kernel \<Rightarrow> ifreq list \<Rightarrow> nat \<Rightarrow> int \<Rightarrow> byte list \<Rightarrow> (int \<times> byte list) c" where
  "interfaces_loop kern buf 0 retn out = Inr (retn, out)"
| "interfaces_loop kern buf (Suc k) retn out =
     cbind (rd buf k) (\<lambda>r. case show_interface kern r of (o1, promisc) \<Rightarrow>
       interfaces_loop kern buf k (if promisc then retn + 1 else retn) (out @ o1))"

definition getNetworkInfo :: "bool \<Rightarrow> ifreq list option \<Rightarrow> kernel \<Rightarrow> (int \<times> byte list) c" where
  "getNetworkInfo sock conf kern =
     (if \<not> sock then Inr (0, [])
      else case conf of None \<Rightarrow> Inr (0, [])
      | Some rs \<Rightarrow>
          (let buf = take MAXINTERFACES rs in
           interfaces_loop kern buf (length buf) 0 (ascii ''interface num is intrface='' @ printf_d (int (length buf)) @ [10])))"

definition getNetWorkInfo_main :: "bool \<Rightarrow> ifreq list option \<Rightarrow> kernel \<Rightarrow> mem \<Rightarrow> byte list c" where
  "getNetWorkInfo_main sock conf kern netInfoBuff =
     cbind (getNetworkInfo sock conf kern) (\<lambda>(_, o0).
     let ask = (\<lambda>key m. getNetworkinfoByInterfaceName sock conf kern (Some (ascii ''docker0'')) (Some key) m 24) in
     cbind (ask NETINFO_MAC (Some netInfoBuff)) (\<lambda>(_, m, o1).
     cbind (ask NETINFO_IPADDR m) (\<lambda>(_, m, o2).
     cbind (ask NETINFO_NETMASK m) (\<lambda>(_, m, o3).
     cbind (ask NETINFO_STATUS m) (\<lambda>(_, m, o4).
     cbind (ask NETINFO_BROADCAST m) (\<lambda>(_, m, o5). Inr (o0 @ o1 @ o2 @ o3 @ o4 @ o5)))))))"

section \<open>What the functions tell\<close>

lemma find_interface_Some: "find_interface nm rs = Some r \<Longrightarrow> r \<in> set rs \<and> ifr_name r = nm"
  by (induction rs) (auto split: if_splits)

lemma find_interface_None: "find_interface nm rs = None \<longleftrightarrow> (\<forall>r\<in>set rs. ifr_name r \<noteq> nm)"
  by (induction rs) auto

lemma flags_of_inet: "ifr_ifru r = 2 # 0 # z \<Longrightarrow> ifr_flags r AND IFF_UP = 0"
  by (simp add: ifr_flags_def IFF_UP_def)

lemma strcpy_cleared:
  "0 \<notin> set t \<Longrightarrow> length t < n \<Longrightarrow> n \<le> length m \<Longrightarrow>
     \<exists>m'. strcpy (replicate n 0 @ drop n m) t = Inr m' \<and> length m' = length m \<and> c_str m' 0 t"
  using wrs_self[of "t @ [0]" "replicate n 0 @ drop n m"] by (auto simp: strcpy_def c_strI)

text \<open>A value that the switch stores is what the function returns the length of.\<close>

lemma property_returned:
  assumes "find_interface nm (take MAXINTERFACES rs) = Some r" and "0 < n" and "n \<le> length m"
    and "property_into kern key r (replicate n 0 @ drop n m) (int n) = Inr (m', out)" and "length m' = length m" and "c_str m' 0 t"
  shows "\<exists>out. getNetworkinfoByInterfaceName True (Some rs) kern (Some nm) (Some key) (Some m) (int n) = Inr (int (length t), Some m', out)"
proof -
  have "wrs m 0 (replicate n 0) = Inr (replicate n 0 @ drop n m)" using assms(3) by (simp add: wrs_self)
  with assms show ?thesis using c_str_strlen[OF assms(6)] by (simp add: getNetworkinfoByInterfaceName_def)
qed

text \<open>
  NETINFO_STATUS is answered with DOWN for every interface, up or not: the flags are not asked for, and
  what stands in their place is the family AF_INET of the address that SIOCGIFCONF stored.
\<close>

theorem status_always_down:
  assumes "\<forall>r\<in>set rs. \<exists>z. ifr_ifru r = 2 # 0 # z" and "\<exists>r\<in>set (take MAXINTERFACES rs). ifr_name r = nm"
    and "5 \<le> n" and "n \<le> length m"
  shows "\<exists>m' out. getNetworkinfoByInterfaceName True (Some rs) kern (Some nm) (Some NETINFO_STATUS) (Some m) (int n) = Inr (4, Some m', out) \<and>
    c_str m' 0 (ascii ''DOWN'')"
proof -
  obtain r where r: "find_interface nm (take MAXINTERFACES rs) = Some r" using assms(2) find_interface_None by fastforce
  then have "r \<in> set rs" using find_interface_Some in_set_takeD by fastforce
  then have f: "ifr_flags r AND IFF_UP = 0" using assms(1) flags_of_inet by blast
  have d: "0 \<notin> set (ascii ''DOWN'')" "length (ascii ''DOWN'') = 4" by (simp_all add: ascii_def)
  obtain m' where m': "strcpy (replicate n 0 @ drop n m) (ascii ''DOWN'') = Inr m'" "length m' = length m" "c_str m' 0 (ascii ''DOWN'')"
    using strcpy_cleared[OF d(1), of n m] d(2) assms(3,4) by auto
  have "property_into kern NETINFO_STATUS r (replicate n 0 @ drop n m) (int n) = Inr (m', [])"
    using f m'(1) assms(3) by (simp add: property_into_def)
  from property_returned[OF r _ assms(4) this m'(2,3)] assms(3) d(2) m'(3) show ?thesis by auto
qed

definition up_kernel :: kernel where
  "up_kernel req nm = Some (case req of SIOCGIFFLAGS \<Rightarrow> [0x43, 0x10, 0, 0] | SIOCGIFHWADDR \<Rightarrow> [1, 0, 2, 66, 172, 17, 0, 9]
     | SIOCGIFNETMASK \<Rightarrow> [2, 0, 0, 0, 255, 255, 0, 0] | _ \<Rightarrow> [2, 0, 0, 0, 172, 17, 0, 1])"

definition docker_conf :: "ifreq list" where
  "docker_conf = [\<lparr>ifr_name = ascii ''lo'', ifr_ifru = [2, 0, 0, 0, 127, 0, 0, 1]\<rparr>,
     \<lparr>ifr_name = ascii ''docker0'', ifr_ifru = [2, 0, 0, 0, 172, 17, 0, 1]\<rparr>]"

theorem status_always_down_witness:
  "\<exists>m' out. getNetworkinfoByInterfaceName True (Some docker_conf) up_kernel (Some (ascii ''docker0'')) (Some NETINFO_STATUS) (Some (replicate 24 7)) 24
      = Inr (4, Some m', out) \<and> c_str m' 0 (ascii ''DOWN'')"
  using status_always_down[of docker_conf "ascii ''docker0''" 24 "replicate 24 7" up_kernel]
  by (simp add: docker_conf_def MAXINTERFACES_def)

text \<open>Addresses and masks.\<close>

lemma address_into_stored:
  assumes "kern req (ifr_name r) = Some u" and "16 \<le> n" and "n \<le> length m"
  shows "\<exists>m'. address_into kern req r (replicate n 0 @ drop n m) (int n) = Inr m' \<and> length m' = length m \<and>
    c_str m' 0 (dotted (take 4 (drop 4 u)))"
proof -
  let ?t = "dotted (take 4 (drop 4 u))"
  have "length ?t < n" using dotted_length[of "take 4 (drop 4 u)"] assms(2) by simp
  with assms strcpy_cleared[OF dotted_no_zero, of "take 4 (drop 4 u)" n m]
  show ?thesis by (simp add: address_into_def ioctl_def ifr_sin_addr_def)
qed

definition address_request :: "InterfaceProp \<Rightarrow> request option" where
  "address_request k = (case k of NETINFO_IPADDR \<Rightarrow> Some SIOCGIFADDR | NETINFO_NETMASK \<Rightarrow> Some SIOCGIFNETMASK
     | NETINFO_BROADCAST \<Rightarrow> Some SIOCGIFBRDADDR | _ \<Rightarrow> None)"

text \<open>
  The address, the netmask and the broadcast address of an interface are stored as text, with
  its length as result, when the system answers and the buffer has the 16 characters an address may need.
\<close>

theorem address_property:
  assumes "\<exists>r\<in>set (take MAXINTERFACES rs). ifr_name r = nm" and "address_request key = Some req" and "kern req nm = Some u"
    and "16 \<le> n" and "n \<le> length m"
  shows "\<exists>m' out. getNetworkinfoByInterfaceName True (Some rs) kern (Some nm) (Some key) (Some m) (int n)
      = Inr (int (length (dotted (take 4 (drop 4 u)))), Some m', out) \<and> c_str m' 0 (dotted (take 4 (drop 4 u)))"
proof -
  obtain r where r: "find_interface nm (take MAXINTERFACES rs) = Some r" using assms(1) find_interface_None by fastforce
  then have "ifr_name r = nm" using find_interface_Some by blast
  with assms(3-5) obtain m' where m': "address_into kern req r (replicate n 0 @ drop n m) (int n) = Inr m'" "length m' = length m"
      "c_str m' 0 (dotted (take 4 (drop 4 u)))"
    using address_into_stored[of kern req r u n m] by auto
  have "property_into kern key r (replicate n 0 @ drop n m) (int n) = Inr (m', [])"
    using m'(1) assms(2) by (auto simp: property_into_def address_request_def split: InterfaceProp.splits)
  from property_returned[OF r _ assms(5) this m'(2,3)] assms(4) m'(3) show ?thesis by auto
qed

theorem address_property_witness:
  "\<exists>m' out. getNetworkinfoByInterfaceName True (Some docker_conf) up_kernel (Some (ascii ''docker0'')) (Some NETINFO_NETMASK) (Some (replicate 24 7)) 24
      = Inr (int (length (dotted [255, 255, 0, 0])), Some m', out) \<and> c_str m' 0 (dotted [255, 255, 0, 0])"
  using address_property[of docker_conf "ascii ''docker0''" NETINFO_NETMASK SIOCGIFNETMASK up_kernel "[2, 0, 0, 0, 255, 255, 0, 0]" 24 "replicate 24 7"]
  by (simp add: docker_conf_def MAXINTERFACES_def address_request_def up_kernel_def)

section \<open>The list of all interfaces\<close>

lemma interfaces_loop_rev:
  "k \<le> length buf \<Longrightarrow> interfaces_loop kern buf k retn out =
     Inr (retn + int (length (filter (\<lambda>r. snd (show_interface kern r)) (take k buf))),
          out @ concat (map (\<lambda>r. fst (show_interface kern r)) (rev (take k buf))))"
proof (induction k arbitrary: retn out)
  case (Suc k)
  then have "take (Suc k) buf = take k buf @ [buf ! k]" by (simp add: take_Suc_conv_app_nth)
  with Suc show ?case by (cases "show_interface kern (buf ! k)") simp
qed simp

text \<open>
  getNetworkInfo describes the first 16 interfaces, the last of them first, and returns the number of those that
  listen to every frame.
\<close>

theorem interfaces_described:
  "getNetworkInfo True (Some rs) kern =
    Inr (int (length (filter (\<lambda>r. \<exists>u. kern SIOCGIFFLAGS (ifr_name r) = Some u \<and>
           ifr_flags (r\<lparr>ifr_ifru := u\<rparr>) AND IFF_PROMISC \<noteq> 0) (take MAXINTERFACES rs))),
         ascii ''interface num is intrface='' @ printf_d (int (min (length rs) MAXINTERFACES)) @ [10] @
         concat (map (\<lambda>r. fst (show_interface kern r)) (rev (take MAXINTERFACES rs))))"
proof -
  have "snd (show_interface kern r) \<longleftrightarrow> (\<exists>u. kern SIOCGIFFLAGS (ifr_name r) = Some u \<and> ifr_flags (r\<lparr>ifr_ifru := u\<rparr>) AND IFF_PROMISC \<noteq> 0)" for r
    by (auto simp: show_interface_def ioctl_def Let_def split: option.splits prod.splits)
  then show ?thesis by (simp add: getNetworkInfo_def Let_def interfaces_loop_rev)
qed

lemma getNetworkInfo_shows:
  "map_sum id snd (getNetworkInfo True (Some [hd docker_conf]) (\<lambda>req nm. if req = SIOCGIFNETMASK then None else up_kernel req nm)) =
    Inr (ascii ''interface num is intrface=1'' @ [10] @ ascii ''net device lo'' @ [10] @ ascii ''the interface status is UP'' @ [10] @
      ascii ''IP address is: 172.17.0.1'' @ [10] @ ascii ''HW address is:02:42:ac:11:00:09'' @ [10] @
      ascii ''Broadcast Address:172.17.0.1'' @ [10, 10, 10])"
  by code_simp

end
