(* ===== verification/Udp_Proxy.thy ===== *)
theory Udp_Proxy
  imports C_Prelude
begin

text \<open>
  Network/udp_proxy.c: a server that runs the command in every datagram that has the form of a
  request and answers each datagram.  What the calls on the socket answer is input; the commands given to
  system and the datagrams sent are the effects.
\<close>

section \<open>Requests\<close>

definition ZM_PROXY_MSG_LEN :: nat where "ZM_PROXY_MSG_LEN = 2048"

definition apos :: byte where "apos = 39"

text \<open>The format of sscanf: what stands before each value, and the size of its array.\<close>

definition ZM_PROXY_CMD_PROTOCOL :: "(byte list \<times> nat) list" where
  "ZM_PROXY_CMD_PROTOCOL =
     [(ascii ''{'' @ apos # ascii ''version'' @ apos # ascii '':'' @ [apos], 48),
      (apos # ascii '','' @ apos # ascii ''app'' @ apos # ascii '':'' @ [apos], 128),
      (apos # ascii '','' @ apos # ascii ''request'' @ apos # ascii '':'' @ [apos], 256)]"

text \<open>
  The values up to a quote, at least one character each, until something does not match.  What stands
  behind the last value makes no difference to the result.
\<close>

fun scan_quoted :: "(byte list \<times> nat) list \<Rightarrow> byte list \<Rightarrow> byte list list c" where
  "scan_quoted [] s = Inr []"
| "scan_quoted ((lit, n) # fs) s =
     (if take (length lit) s \<noteq> lit then Inr []
      else
        let r = drop (length lit) s; w = takeWhile (\<lambda>b. b \<noteq> apos) r in
        if w = [] then Inr []
        else if n < length w + 1 then Inl Write_oob
        else cbind (scan_quoted fs (dropWhile (\<lambda>b. b \<noteq> apos) r)) (\<lambda>ws. Inr (w # ws)))"

section \<open>The server\<close>

type_synonym addr = "byte list \<times> nat"

datatype effect = Run "byte list" | Send addr "byte list"

text \<open>The number of bytes sent, as sendto answers, or 0 when nothing is sent; the address may be null.\<close>

definition send_proxy_data :: "int \<Rightarrow> int \<Rightarrow> addr option \<Rightarrow> int \<Rightarrow> byte list option \<Rightarrow> int \<Rightarrow> (int \<times> effect list) c" where
  "send_proxy_data sent proxySock client clientAddrLen msg n =
     (case (client, msg) of
        (Some a, Some m) \<Rightarrow>
          if n \<le> 0 \<or> clientAddrLen < 0 then Inr (0, [])
          else if proxySock < 0 then Inr (0, [])
          else if length m < nat n then Inl Read_oob
          else Inr (sent, [Send a (take (nat n) m)])
      | _ \<Rightarrow> Inr (0, []))"

text \<open>A call of recvfrom: a datagram and its sender, or an error; and what sendto will answer.\<close>

type_synonym event = "(byte list \<times> addr) option \<times> int"

definition proxy_step :: "int \<Rightarrow> event \<Rightarrow> effect list c" where
  "proxy_step proxySock ev =
     (case ev of
        (None, _) \<Rightarrow> Inr []
      | (Some (d, client), sent) \<Rightarrow>
          let d = take ZM_PROXY_MSG_LEN d;
              recvData = d @ replicate (ZM_PROXY_MSG_LEN - length d) 0 in
          cbind (strlen recvData 0) (\<lambda>_.
          cbind (scan_quoted ZM_PROXY_CMD_PROTOCOL (str_at recvData 0)) (\<lambda>ws.
          cbind (send_proxy_data sent proxySock (Some client) 16 (Some (ascii ''OK1'' @ [0])) 3) (\<lambda>(_, es).
            Inr ((if length ws = 3 then [Run (ws ! 2)] else []) @ es)))))"

fun proxy_loop :: "int \<Rightarrow> event list \<Rightarrow> effect list c" where
  "proxy_loop proxySock [] = Inr []"
| "proxy_loop proxySock (e # es) =
     cbind (proxy_step proxySock e) (\<lambda>xs. cbind (proxy_loop proxySock es) (\<lambda>ys. Inr (xs @ ys)))"

text \<open>The calls that set the socket up: its number, and whether bind and fcntl succeed.\<close>

record socket_setup =
  sock_fd :: int
  bind_ok :: bool
  fcntl_ok :: bool

datatype served =
    Told "byte list"                       \<comment> \<open>the program prints a text and ends\<close>
  | Failed                                 \<comment> \<open>the socket cannot be set up\<close>
  | Served "byte list" "effect list"       \<comment> \<open>the address it is bound to, and the effects so far\<close>

definition proxy_main :: "byte list \<Rightarrow> socket_setup \<Rightarrow> event list \<Rightarrow> byte list list \<Rightarrow> served c" where
  "proxy_main built su evs argv =
     (let arg = (if length argv = 2 then argv ! 1 else []);
          ip = (if take 2 arg = ascii ''-m'' then ascii ''0.0.0.0'' else ascii ''127.0.0.1'') in
      if take 5 arg = ascii ''-help'' then
        Inr (Told (ascii ''ZM_proxy default bind ip is '' @ ip @ [10] @ ascii ''-m  ZM_proxy bind ip is 0.0.0.0'' @ [10]))
      else if take 2 arg = ascii ''-v'' then Inr (Told (ascii ''ZM_proxy: '' @ built @ [10]))
      else if sock_fd su = -1 \<or> \<not> bind_ok su \<or> \<not> fcntl_ok su then Inr Failed
      else cbind (proxy_loop (sock_fd su) evs) (\<lambda>es. Inr (Served ip es)))"

section \<open>What it runs\<close>

definition request_text :: "byte list \<Rightarrow> byte list \<Rightarrow> byte list \<Rightarrow> byte list" where
  "request_text version app cmd =
     concat (map2 (@) (map fst ZM_PROXY_CMD_PROTOCOL) [version, app, cmd]) @ apos # ascii ''}''"

definition value_ok :: "byte list \<Rightarrow> nat \<Rightarrow> bool" where
  "value_ok w n \<longleftrightarrow> w \<noteq> [] \<and> apos \<notin> set w \<and> 0 \<notin> set w \<and> length w < n"

lemma take_quoted: "apos \<notin> set w \<Longrightarrow> takeWhile (\<lambda>b. b \<noteq> apos) (w @ apos # z) = w \<and> dropWhile (\<lambda>b. b \<noteq> apos) (w @ apos # z) = apos # z"
  by (induction w) auto

lemma scan_quoted_value:
  "value_ok w n \<Longrightarrow> scan_quoted ((lit, n) # fs) (lit @ w @ apos # z) = cbind (scan_quoted fs (apos # z)) (\<lambda>ws. Inr (w # ws))"
  using take_quoted[of w z] by (auto simp: value_ok_def Let_def)

lemma scan_request:
  assumes "value_ok v 48" and "value_ok a 128" and "value_ok c 256"
  shows "scan_quoted ZM_PROXY_CMD_PROTOCOL (request_text v a c) = Inr [v, a, c]"
proof -
  obtain l1 l2 l3 where l: "ZM_PROXY_CMD_PROTOCOL = [(l1, 48), (apos # l2, 128), (apos # l3, 256)]"
    by (simp add: ZM_PROXY_CMD_PROTOCOL_def)
  have "request_text v a c = l1 @ v @ apos # l2 @ a @ apos # l3 @ c @ apos # ascii ''}''" by (simp add: request_text_def l)
  then show ?thesis
    using scan_quoted_value[OF assms(1), of l1 "[(apos # l2, 128), (apos # l3, 256)]" "l2 @ a @ apos # l3 @ c @ apos # ascii ''}''"]
      scan_quoted_value[OF assms(2), of "apos # l2" "[(apos # l3, 256)]" "l3 @ c @ apos # ascii ''}''"]
      scan_quoted_value[OF assms(3), of "apos # l3" "[]" "ascii ''}''"]
    by (simp only: l append_Cons) simp
qed

text \<open>A datagram as the server stores it.\<close>

lemma datagram_stored:
  assumes "length d < ZM_PROXY_MSG_LEN"
  shows "strlen (take ZM_PROXY_MSG_LEN d @ replicate (ZM_PROXY_MSG_LEN - length (take ZM_PROXY_MSG_LEN d)) 0) 0
      = Inr (length (takeWhile (\<lambda>b. b \<noteq> 0) d))"
    and "str_at (take ZM_PROXY_MSG_LEN d @ replicate (ZM_PROXY_MSG_LEN - length (take ZM_PROXY_MSG_LEN d)) 0) 0
      = takeWhile (\<lambda>b. b \<noteq> 0) d"
proof -
  obtain k where k: "ZM_PROXY_MSG_LEN - length d = Suc k" using assms by (cases "ZM_PROXY_MSG_LEN - length d") auto
  have t: "takeWhile (\<lambda>b. b \<noteq> 0) (d @ 0 # z) = takeWhile (\<lambda>b. b \<noteq> (0 :: byte)) d" for z by (induction d) auto
  show "strlen (take ZM_PROXY_MSG_LEN d @ replicate (ZM_PROXY_MSG_LEN - length (take ZM_PROXY_MSG_LEN d)) 0) 0
      = Inr (length (takeWhile (\<lambda>b. b \<noteq> 0) d))" using assms k by (simp add: strlen_def t)
  show "str_at (take ZM_PROXY_MSG_LEN d @ replicate (ZM_PROXY_MSG_LEN - length (take ZM_PROXY_MSG_LEN d)) 0) 0
      = takeWhile (\<lambda>b. b \<noteq> 0) d" using assms k by (simp add: str_at_def t)
qed

lemma request_no_zero: "value_ok v 48 \<Longrightarrow> value_ok a 128 \<Longrightarrow> value_ok c 256 \<Longrightarrow> 0 \<notin> set (request_text v a c)"
  by (simp add: request_text_def value_ok_def ZM_PROXY_CMD_PROTOCOL_def ascii_def apos_def)

lemma request_length: "value_ok v 48 \<Longrightarrow> value_ok a 128 \<Longrightarrow> value_ok c 256 \<Longrightarrow> length (request_text v a c) < ZM_PROXY_MSG_LEN"
  by (simp add: request_text_def value_ok_def ZM_PROXY_CMD_PROTOCOL_def ascii_def ZM_PROXY_MSG_LEN_def)

lemma answer_sent: "0 \<le> fd \<Longrightarrow> send_proxy_data sent fd (Some client) 16 (Some (ascii ''OK1'' @ [0])) 3 = Inr (sent, [Send client (ascii ''OK1'')])"
  by (simp add: send_proxy_data_def ascii_def)

text \<open>
  C17.  Requests from anyone are run in the order they arrive, each command as it stands between its quotes, and
  each is answered to its sender.
\<close>

theorem proxy_runs_requests:
  assumes "0 \<le> fd" and "\<forall>((v, a, c), client, sent)\<in>set rs. value_ok v 48 \<and> value_ok a 128 \<and> value_ok c 256"
  shows "proxy_loop fd (map (\<lambda>((v, a, c), client, sent). (Some (request_text v a c, client), sent)) rs) =
    Inr (concat (map (\<lambda>((v, a, c), client, sent). [Run c, Send client (ascii ''OK1'')]) rs))"
  using assms(2)
proof (induction rs)
  case (Cons r rs)
  obtain v a c client sent where r: "r = ((v, a, c), client, sent)" by (metis prod.collapse)
  with Cons.prems have ok: "value_ok v 48" "value_ok a 128" "value_ok c 256" by simp_all
  note tw = takeWhile_id[OF request_no_zero[OF ok]]
  have "proxy_step fd (Some (request_text v a c, client), sent) = Inr [Run c, Send client (ascii ''OK1'')]"
    using datagram_stored[OF request_length[OF ok], unfolded tw] scan_request[OF ok] answer_sent[OF assms(1), of sent client]
    by (simp add: proxy_step_def Let_def)
  with Cons r show ?case by simp
qed simp

theorem proxy_runs_requests_witness:
  "proxy_loop 3 [(Some (request_text (ascii ''1'') (ascii ''x'') (ascii ''reboot''), ([10, 0, 0, 9], 5000)), 3)] =
    Inr [Run (ascii ''reboot''), Send ([10, 0, 0, 9], 5000) (ascii ''OK1'')]"
  using proxy_runs_requests[of 3 "[((ascii ''1'', ascii ''x'', ascii ''reboot''), ([10, 0, 0, 9], 5000), 3)]"]
  by (simp add: value_ok_def ascii_def apos_def)

text \<open>Datagrams sent, and datagrams that ask for a command.\<close>

definition is_send :: "effect \<Rightarrow> bool" where
  "is_send e = (case e of Send _ _ \<Rightarrow> True | Run _ \<Rightarrow> False)"

definition asks_for :: "byte list \<Rightarrow> event \<Rightarrow> bool" where
  "asks_for cmd ev = (case fst ev of None \<Rightarrow> False
     | Some (d, _) \<Rightarrow> \<exists>v a. scan_quoted ZM_PROXY_CMD_PROTOCOL (str_at (take ZM_PROXY_MSG_LEN d @ replicate (ZM_PROXY_MSG_LEN - length d) 0) 0) = Inr [v, a, cmd])"

lemma proxy_step_effects:
  assumes "proxy_step fd ev = Inr es" and "0 \<le> fd"
  shows "map_option snd (fst ev) = None \<and> es = [] \<or>
    (\<exists>d client run. fst ev = Some (d, client) \<and> es = run @ [Send client (ascii ''OK1'')] \<and>
       (run = [] \<or> (\<exists>cmd. run = [Run cmd] \<and> asks_for cmd ev)))"
proof (cases "fst ev")
  case None
  with assms show ?thesis by (cases ev) (simp add: proxy_step_def)
next
  case (Some p)
  obtain d client where p: "p = (d, client)" by (cases p)
  obtain sent where ev: "ev = (Some (d, client), sent)" using Some p by (cases ev) auto
  let ?m = "take ZM_PROXY_MSG_LEN d @ replicate (ZM_PROXY_MSG_LEN - length d) 0"
  have len: "ZM_PROXY_MSG_LEN - length (take ZM_PROXY_MSG_LEN d) = ZM_PROXY_MSG_LEN - length d" by simp
  from assms(1) obtain ws where ws: "scan_quoted ZM_PROXY_CMD_PROTOCOL (str_at ?m 0) = Inr ws"
      "es = (if length ws = 3 then [Run (ws ! 2)] else []) @ [Send client (ascii ''OK1'')]"
    by (auto simp: ev proxy_step_def Let_def cbind_Inr_iff len answer_sent[OF assms(2)] simp del: length_take)
  show ?thesis
  proof (cases "length ws = 3")
    case True
    then obtain v a c where "ws = [v, a, c]" by (auto simp: numeral_eq_Suc length_Suc_conv)
    with ws ev show ?thesis by (auto simp: asks_for_def)
  next
    case False
    with ws ev show ?thesis by auto
  qed
qed

text \<open>
  As long as the server runs, every datagram is answered once, request or not, and nothing is run that
  is not the third value of a datagram of the form of a request.
\<close>

theorem proxy_answers_once:
  assumes "proxy_loop fd evs = Inr es" and "0 \<le> fd"
  shows "filter is_send es = map (\<lambda>d. Send (snd d) (ascii ''OK1'')) (List.map_filter fst evs) \<and>
    (\<forall>cmd. Run cmd \<in> set es \<longrightarrow> (\<exists>ev\<in>set evs. asks_for cmd ev))"
  using assms(1)
proof (induction evs arbitrary: es)
  case (Cons ev evs)
  then obtain xs ys where s: "proxy_step fd ev = Inr xs" "proxy_loop fd evs = Inr ys" "es = xs @ ys"
    by (auto simp: cbind_Inr_iff)
  from proxy_step_effects[OF s(1) assms(2)] Cons.IH[OF s(2)] s(3) show ?case
    by (auto simp: is_send_def List.map_filter_simps split: option.split)
qed (simp add: List.map_filter_simps)

theorem proxy_answers_once_witness:
  "\<exists>es. proxy_loop 3 [(Some (ascii ''hello'', ([10, 0, 0, 9], 5000)), 3), (None, 0)] = Inr es \<and>
     filter is_send es = [Send ([10, 0, 0, 9], 5000) (ascii ''OK1'')]"
proof -
  have "proxy_loop 3 [(Some (ascii ''hello'', ([10, 0, 0, 9], 5000)), 3), (None, 0)] = Inr [Send ([10, 0, 0, 9], 5000) (ascii ''OK1'')]"
    by code_simp
  from proxy_answers_once[OF this] this show ?thesis by (auto simp: List.map_filter_simps)
qed

text \<open>A version of 48 characters is written past its array.\<close>

lemma long_version_overflows:
  assumes "length v = 48" and "apos \<notin> set v" and "0 \<notin> set v" and "value_ok a 128" and "value_ok c 256"
  shows "proxy_step fd (Some (request_text v a c, client), sent) = Inl Write_oob"
proof -
  obtain l1 l2 l3 where l: "ZM_PROXY_CMD_PROTOCOL = [(l1, 48), (apos # l2, 128), (apos # l3, 256)]"
    by (simp add: ZM_PROXY_CMD_PROTOCOL_def)
  have "request_text v a c = l1 @ v @ apos # l2 @ a @ apos # l3 @ c @ apos # ascii ''}''" by (simp add: request_text_def l)
  then have s: "scan_quoted ZM_PROXY_CMD_PROTOCOL (request_text v a c) = Inl Write_oob"
    using take_quoted[OF assms(2), of "l2 @ a @ apos # l3 @ c @ apos # ascii ''}''"] assms(1) by (auto simp: l Let_def)
  have z: "0 \<notin> set (request_text v a c)"
    using assms by (simp add: request_text_def value_ok_def ZM_PROXY_CMD_PROTOCOL_def ascii_def apos_def)
  have n: "length (request_text v a c) < ZM_PROXY_MSG_LEN"
    using assms by (simp add: request_text_def value_ok_def ZM_PROXY_CMD_PROTOCOL_def ascii_def ZM_PROXY_MSG_LEN_def)
  show ?thesis using datagram_stored[OF n, unfolded takeWhile_id[OF z]] s by (simp add: proxy_step_def Let_def)
qed

text \<open>A datagram that fills the buffer and has no null byte is read past its end.\<close>

lemma full_datagram_overread:
  "length d = ZM_PROXY_MSG_LEN \<Longrightarrow> 0 \<notin> set d \<Longrightarrow> proxy_step fd (Some (d, client), sent) = Inl Read_oob"
  by (simp add: proxy_step_def Let_def strlen_def)

end
