(* ===== verification/Mac_Receiver.thy ===== *)
theory Mac_Receiver
  imports Mac_Frame Network_Info
begin

text \<open>
  The receivers of mac/: the loop of receiver.c that answers a request with the settings of the interface
  and may change its address, the functions of communication.c that read and change these settings,
  and the loop of ss_mac_service.c.  With the objects as they are declared the first of these loops reads past
  a table of six bytes before it answers anything.  What the calls on the interface answer is input; the changes and the
  frames sent are the effects.
\<close>

section \<open>Settings of the interface\<close>

text \<open>
  What the system answers: whether a socket can be had, the hardware address of a name, address and
  netmask of eth0, the output of the command \<open>ip route\<close>, and whether the two changes succeed.
\<close>

record host =
  socket_ok :: bool
  hw_of :: "byte list \<Rightarrow> byte list option"
  inet_of :: "byte list option"
  mask_of :: "byte list option"
  routes :: "byte list option"
  set_addr_ok :: bool
  set_flags_ok :: bool

datatype change = SetAddr "byte list" "byte list" | SetFlags "byte list" "16 word"

text \<open>Only six characters of the name are copied.\<close>

definition get_hwaddr :: "host \<Rightarrow> byte list option \<Rightarrow> mem option \<Rightarrow> (int \<times> mem option) c" where
  "get_hwaddr h name hwaddr =
     (case (name, hwaddr) of
        (Some nm, Some m) \<Rightarrow>
          if \<not> socket_ok h then Inr (-1, Some m)
          else cbind (wrs m 0 (replicate 6 0)) (\<lambda>m.
            case hw_of h (take 6 nm) of
              None \<Rightarrow> Inr (-1, Some m)
            | Some a \<Rightarrow> cbind (wrs m 0 (take 6 a)) (\<lambda>m. Inr (if take 6 m = replicate 6 0 then -1 else 0, Some m)))
      | _ \<Rightarrow> Inr (-1, hwaddr))"

text \<open>The one of ss_mac_service.c goes on without a socket: the address is cleared, and the call fails.\<close>

definition ss_get_hwaddr :: "host \<Rightarrow> byte list option \<Rightarrow> mem option \<Rightarrow> (int \<times> mem option) c" where
  "ss_get_hwaddr h name hwaddr =
     (case (name, hwaddr) of
        (Some nm, Some m) \<Rightarrow>
          cbind (wrs m 0 (replicate 6 0)) (\<lambda>m.
            case (if socket_ok h then hw_of h (take 6 nm) else None) of
              None \<Rightarrow> Inr (-1, Some m)
            | Some a \<Rightarrow> cbind (wrs m 0 (take 6 a)) (\<lambda>m. Inr (if take 6 m = replicate 6 0 then -1 else 0, Some m)))
      | _ \<Rightarrow> Inr (-1, hwaddr))"

text \<open>Whether the result is the buffer or null, and the buffer.\<close>

definition get_ip :: "host \<Rightarrow> mem \<Rightarrow> (bool \<times> mem) c" where
  "get_ip h ip =
     (if \<not> socket_ok h then Inr (False, ip)
      else case inet_of h of None \<Rightarrow> Inr (False, ip)
      | Some a \<Rightarrow> cbind (wrs ip 0 (dotted a @ [0])) (\<lambda>ip. Inr (True, ip)))"

definition GetLocalNetMask :: "host \<Rightarrow> mem option \<Rightarrow> (int \<times> mem option) c" where
  "GetLocalNetMask h netmask_addr =
     (case netmask_addr of None \<Rightarrow> Inr (-1, None)
      | Some m \<Rightarrow>
          if \<not> socket_ok h then Inr (-1, Some m)
          else case mask_of h of None \<Rightarrow> Inr (-1, Some m)
          | Some a \<Rightarrow> cbind (wrs m 0 (dotted a @ [0])) (\<lambda>m. Inr (0, Some m)))"

text \<open>Lines up to the one that starts with \<open>default\<close>; the last line read stays in the buffer.\<close>

lemma fgets_shorter: "fgets n s = (Some l, s') \<Longrightarrow> length (left s') < length (left s)"
proof -
  assume f: "fgets n s = (Some l, s')"
  obtain k r e where t: "take_line (n - 1) (left s) = (k, r, e)" by (cases "take_line (n - 1) (left s)") auto
  with f have "k \<noteq> []" "left s' = r" by (auto simp: fgets_def split: if_splits)
  with take_line_length[OF t] show ?thesis by (cases k) auto
qed

function gateway_loop :: "stream \<Rightarrow> byte list option \<Rightarrow> byte list option" where
  "gateway_loop s buf =
     (case fgets 512 s of
        (None, s') \<Rightarrow> buf
      | (Some l, s') \<Rightarrow>
          let l = takeWhile (\<lambda>b. b \<noteq> 0) l in
          if take 7 (dropWhile is_space l) = ascii ''default'' then Some l else gateway_loop s' (Some l))"
  by pat_completeness auto
termination
  by (relation "measure (\<lambda>(s, buf). length (left s))") (auto dest: fgets_shorter[OF sym])

declare gateway_loop.simps [simp del]

text \<open>A word of \<open>%s\<close> and what follows it.\<close>

definition word_of_text :: "byte list \<Rightarrow> byte list \<times> byte list" where
  "word_of_text s = (let t = dropWhile is_space s in (takeWhile (\<lambda>b. \<not> is_space b) t, dropWhile (\<lambda>b. \<not> is_space b) t))"

definition third_word :: "byte list \<Rightarrow> byte list" where
  "third_word s = fst (word_of_text (snd (word_of_text (snd (word_of_text s)))))"

text \<open>When the command writes nothing the line is indeterminate.\<close>

definition GetGateWay :: "host \<Rightarrow> mem \<Rightarrow> (int \<times> mem) c" where
  "GetGateWay h gateway =
     (case routes h of None \<Rightarrow> Inr (-1, gateway)
      | Some out \<Rightarrow>
          (case gateway_loop (fopen_r out) None of None \<Rightarrow> Inl Uninit
           | Some l \<Rightarrow>
               if third_word l = [] then Inr (0, gateway)
               else cbind (wrs gateway 0 (third_word l @ [0])) (\<lambda>m. Inr (0, m))))"

text \<open>
  inet\_aton answers 0, never a negative number, for a text that is no address; the address then
  stays 0.  \<open>aton\<close> is the address of a text.
\<close>

definition SetIfAddr :: "(byte list \<Rightarrow> byte list option) \<Rightarrow> host \<Rightarrow> byte list \<Rightarrow> byte list \<Rightarrow> (int \<times> change list) c" where
  "SetIfAddr aton h ifname Ipaddr =
     (if \<not> socket_ok h then Inr (-1, [])
      else if IFNAMSIZ < length ifname + 1 then Inl Write_oob
      else let a = (case aton Ipaddr of Some a \<Rightarrow> a | None \<Rightarrow> [0, 0, 0, 0]) in
        Inr (if set_addr_ok h then 0 else -3, [SetAddr ifname a]))"

text \<open>
  inet\_addr answers 255.255.255.255 for a text that is no address.  The flags share their place with
  the family of the address, 2.
\<close>

definition set_hand_ip :: "(byte list \<Rightarrow> byte list option) \<Rightarrow> host \<Rightarrow> byte list option \<Rightarrow> int \<times> change list" where
  "set_hand_ip aton h ipaddr =
     (case ipaddr of None \<Rightarrow> (-1, [])
      | Some t \<Rightarrow>
          if \<not> socket_ok h then (-1, [])
          else let a = (case aton t of Some a \<Rightarrow> a | None \<Rightarrow> [255, 255, 255, 255]);
                   c1 = SetAddr (ascii ''eth0'') a; c2 = SetFlags (ascii ''eth0'') (2 OR 0x41) in
            if \<not> set_addr_ok h then (-1, [c1])
            else (if set_flags_ok h then 0 else -1, [c1, c2]))"

text \<open>The characters of the data are printed as numbers, then as they are; a char is signed in \<open>%x\<close>.\<close>

definition hex_char :: "byte \<Rightarrow> byte list" where
  "hex_char b = (if bit b 7 then ascii ''ffffff'' @ hex2 b else if b < 16 then [hex_low (unat b)] else hex2 b)"

definition show_data :: "mem \<Rightarrow> int \<Rightarrow> (byte list \<times> byte list) c" where
  "show_data str n =
     cbind (rd str message_length_pos) (\<lambda>k.
     cbind (for_n (nat n) 0 (\<lambda>i out. cbind (rd str (i + message_pos)) (\<lambda>b. Inr (out @ hex_char b @ [32]))) []) (\<lambda>o1.
     cbind (for_n (nat n) 0 (\<lambda>i out. cbind (rd str (i + message_pos)) (\<lambda>b. Inr (out @ [b]))) []) (\<lambda>o2.
       Inr (ascii ''data length is:'' @ printf_d (sint k) @ ascii '' my private data is:'' @ o1, o2))))"

section \<open>The loop of receiver.c\<close>

text \<open>The next token of strtok for a space, and what is left behind it.\<close>

definition next_token :: "byte list \<Rightarrow> (byte list \<times> byte list) option" where
  "next_token s = (let t = dropWhile (\<lambda>b. b = 32) s; w = takeWhile (\<lambda>b. b \<noteq> 32) t in
     if w = [] then None else Some (w, drop (length w + 1) t))"




datatype reaction = Change change | SendFrame "byte list"

text \<open>The part that obeys a request: whether the loop goes on to answer, and the changes.\<close>

definition obey :: "(byte list \<Rightarrow> byte list option) \<Rightarrow> host \<Rightarrow> mem \<Rightarrow> byte list \<Rightarrow> (bool \<times> reaction list) c" where
  "obey aton h hw text =
     (case next_token text of None \<Rightarrow> Inr (True, [])
      | Some (t, rest) \<Rightarrow>
          if t = ascii ''ModifyNetInfo'' then
            (case next_token rest of None \<Rightarrow> Inr (False, [])
             | Some (mac, rest) \<Rightarrow>
                 if length hw < mac_size then Inl Read_oob
                 else if take (length mac) (mac_text (take mac_size hw)) = mac then
                   (case next_token rest of None \<Rightarrow> Inr (False, [])
                    | Some (ip, _) \<Rightarrow> cbind (SetIfAddr aton h (ascii ''eth0'') ip) (\<lambda>(_, cs). Inr (True, map Change cs)))
                 else Inr (True, []))
          else if t = ascii ''getdev'' then Inr (True, [])
          else Inr (False, []))"





text \<open>The first of three device names that has a hardware address.\<close>

fun first_hwaddr :: "host \<Rightarrow> byte list list \<Rightarrow> mem \<Rightarrow> mem c" where
  "first_hwaddr h [] hwaddr = Inr hwaddr"
| "first_hwaddr h (d # ds) hwaddr =
     cbind (get_hwaddr h (Some d) (Some hwaddr)) (\<lambda>(ret, m). if ret \<noteq> 0 then first_hwaddr h ds (the m) else Inr (the m))"

section \<open>The loop of ss_mac_service.c\<close>

text \<open>
  The second comparison lacks its length; \<open>cmp\<close> is what it answers.  Both are true for addresses that differ.
  The loop ends with -1 when receiving fails.
\<close>

fun physical_loop :: "(byte list \<Rightarrow> int) \<Rightarrow> (mem \<Rightarrow> mem \<Rightarrow> bool) \<Rightarrow> int \<Rightarrow> mem \<Rightarrow> byte list option list \<Rightarrow> mem \<Rightarrow> byte list list c" where
  "physical_loop check cmp sock hwaddr [] buf = Inr []"
| "physical_loop check cmp sock hwaddr (None # fs) buf = Inr []"
| "physical_loop check cmp sock hwaddr (Some f # fs) buf =
     cbind (wrs buf 0 (take bufsize f)) (\<lambda>buf.
     cbind (if take 6 buf \<noteq> replicate 6 255 \<or> cmp buf hwaddr then
              cbind (rd buf protocol_pos) (\<lambda>p.
                if p = 0x88 then cbind (handle_mac_message check sock (Some buf) (Some hwaddr)) (\<lambda>(_, f). Inr (case f of None \<Rightarrow> [] | Some f \<Rightarrow> [f]))
                else Inr [])
            else Inr []) (\<lambda>xs.
     cbind (physical_loop check cmp sock hwaddr fs buf) (\<lambda>ys. Inr (xs @ ys))))"

definition physicalLayerCommunictionFunction :: "(byte list \<Rightarrow> int) \<Rightarrow> (mem \<Rightarrow> mem \<Rightarrow> bool) \<Rightarrow> host \<Rightarrow> int \<Rightarrow> bool
    \<Rightarrow> byte list option list \<Rightarrow> byte list list c" where
  "physicalLayerCommunictionFunction check cmp h sock sockopt_ok fs =
     (if sock < 0 \<or> \<not> sockopt_ok then Inr []
      else cbind (ss_get_hwaddr h (Some (ascii ''eth0'')) (Some (replicate 6 0))) (\<lambda>(_, hwaddr).
        physical_loop check cmp sock (the hwaddr) fs (replicate bufsize 0)))"

section \<open>Which frames the receiver takes\<close>










section \<open>The default gateway\<close>

definition route_line :: "byte list \<Rightarrow> bool" where
  "route_line l \<longleftrightarrow> 10 \<notin> set l \<and> 0 \<notin> set l \<and> length l < 511"

definition is_default :: "byte list \<Rightarrow> bool" where
  "is_default l \<longleftrightarrow> take 7 (dropWhile is_space l) = ascii ''default''"

lemma gateway_loop_lines:
  "\<forall>l\<in>set ls. route_line l \<Longrightarrow> left s = concat (map (\<lambda>l. l @ [10]) ls) \<Longrightarrow>
     gateway_loop s buf =
       (case find is_default (map (\<lambda>l. l @ [10]) ls) of Some l \<Rightarrow> Some l
        | None \<Rightarrow> if ls = [] then buf else Some (last ls @ [10]))"
proof (induction ls arbitrary: s buf)
  case Nil
  then show ?case using fgets_end[of s 512] by (subst gateway_loop.simps) simp
next
  case (Cons l ls)
  have f: "fgets 512 s = (Some (l @ [10]), s\<lparr>left := concat (map (\<lambda>l. l @ [10]) ls)\<rparr>)"
    using Cons.prems by (intro fgets_line) (simp_all add: route_line_def)
  have t: "takeWhile (\<lambda>b. b \<noteq> 0) (l @ [10]) = l @ [10]" using Cons.prems by (intro takeWhile_id) (simp add: route_line_def)
  have IH: "gateway_loop (s\<lparr>left := concat (map (\<lambda>l. l @ [10]) ls)\<rparr>) (Some (l @ [10])) =
      (case find is_default (map (\<lambda>l. l @ [10]) ls) of Some l \<Rightarrow> Some l | None \<Rightarrow> if ls = [] then Some (l @ [10]) else Some (last ls @ [10]))"
    using Cons.prems by (intro Cons.IH) simp_all
  show ?case using IH f t
    by (subst gateway_loop.simps) (auto simp: is_default_def Let_def split: option.split)
qed

text \<open>
  GetGateWay stores the third word of the first line that starts with \<open>default\<close>; when there is none, that
  of the last line, which names a device and no gateway.
\<close>

theorem gateway_found:
  assumes "routes h = Some (concat (map (\<lambda>l. l @ [10]) ls))" and "\<forall>l\<in>set ls. route_line l" and "ls \<noteq> []"
    and "w = third_word (case find is_default (map (\<lambda>l. l @ [10]) ls) of Some l \<Rightarrow> l | None \<Rightarrow> last ls @ [10])"
    and "w \<noteq> []" and "length w < length g" and "0 \<notin> set w"
  shows "\<exists>g'. GetGateWay h g = Inr (0, g') \<and> length g' = length g \<and> c_str g' 0 w"
proof -
  let ?l = "case find is_default (map (\<lambda>l. l @ [10]) ls) of Some l \<Rightarrow> l | None \<Rightarrow> last ls @ [10]"
  have "gateway_loop (fopen_r (concat (map (\<lambda>l. l @ [10]) ls))) None = Some ?l"
    using gateway_loop_lines[OF assms(2), of "fopen_r (concat (map (\<lambda>l. l @ [10]) ls))" None] assms(3)
    by (simp add: fopen_r_def split: option.splits)
  moreover have "wrs g 0 (w @ [0]) = Inr (w @ 0 # drop (length w + 1) g)" using assms(6) by (simp add: wrs_self)
  ultimately have "GetGateWay h g = Inr (0, w @ 0 # drop (length w + 1) g)"
    using assms(1,4,5) by (simp add: GetGateWay_def)
  then show ?thesis using assms(6,7) by (auto simp: c_strI)
qed

lemma third_words:
  "third_word (ascii ''default via 10.0.0.1 dev eth0'' @ [10]) = ascii ''10.0.0.1''"
  "third_word (ascii ''10.0.0.0/24 dev eth0 scope link'' @ [10]) = ascii ''eth0''"
  by code_simp+

definition sample_host :: "byte list list \<Rightarrow> host" where
  "sample_host ls = \<lparr>socket_ok = True, hw_of = \<lambda>_. Some [2, 0, 0, 0, 0, 1], inet_of = Some [10, 0, 0, 7], mask_of = Some [255, 255, 255, 0],
     routes = Some (concat (map (\<lambda>l. l @ [10]) ls)), set_addr_ok = True, set_flags_ok = True\<rparr>"

lemma sample_lines:
  "route_line (ascii ''10.0.0.0/24 dev eth0 scope link'')" "route_line (ascii ''default via 10.0.0.1 dev eth0'')"
  "\<not> is_default (ascii ''10.0.0.0/24 dev eth0 scope link'' @ [10])" "is_default (ascii ''default via 10.0.0.1 dev eth0'' @ [10])"
  by (simp_all add: route_line_def is_default_def ascii_def is_space_def)

theorem gateway_found_witness:
  "(\<exists>g. GetGateWay (sample_host [ascii ''10.0.0.0/24 dev eth0 scope link'', ascii ''default via 10.0.0.1 dev eth0'']) (replicate 20 0) = Inr (0, g) \<and>
      length g = 20 \<and> c_str g 0 (ascii ''10.0.0.1'')) \<and>
   (\<exists>g. GetGateWay (sample_host [ascii ''10.0.0.0/24 dev eth0 scope link'']) (replicate 20 0) = Inr (0, g) \<and>
      length g = 20 \<and> c_str g 0 (ascii ''eth0''))"
proof -
  have n: "ascii ''10.0.0.1'' \<noteq> []" "0 \<notin> set (ascii ''10.0.0.1'')" "ascii ''eth0'' \<noteq> []" "0 \<notin> set (ascii ''eth0'')" "length (ascii ''10.0.0.1'') = 8" "length (ascii ''eth0'') = 4"
    by (simp_all add: ascii_def)
  show ?thesis
    using gateway_found[of "sample_host [ascii ''10.0.0.0/24 dev eth0 scope link'', ascii ''default via 10.0.0.1 dev eth0'']"
        "[ascii ''10.0.0.0/24 dev eth0 scope link'', ascii ''default via 10.0.0.1 dev eth0'']" "ascii ''10.0.0.1''" "replicate 20 0"]
      gateway_found[of "sample_host [ascii ''10.0.0.0/24 dev eth0 scope link'']" "[ascii ''10.0.0.0/24 dev eth0 scope link'']" "ascii ''eth0''" "replicate 20 0"]
      sample_lines third_words n
    by (simp add: sample_host_def)
qed

section \<open>Requests\<close>

lemma next_token_word:
  "w \<noteq> [] \<Longrightarrow> 32 \<notin> set w \<Longrightarrow> next_token (w @ 32 # z) = Some (w, z)"
  "w \<noteq> [] \<Longrightarrow> 32 \<notin> set w \<Longrightarrow> next_token w = Some (w, [])"
proof -
  assume a: "w \<noteq> []" "32 \<notin> set w"
  then obtain c v where w: "w = c # v" "c \<noteq> 32" by (cases w) auto
  have t: "takeWhile (\<lambda>b. b \<noteq> 32) (w @ 32 # z) = w" "takeWhile (\<lambda>b. b \<noteq> 32) w = w" using a(2) by (induction w) auto
  have d: "dropWhile (\<lambda>b. b = 32) (w @ 32 # z) = w @ 32 # z" "dropWhile (\<lambda>b. b = 32) w = w" using w by simp_all
  show "next_token (w @ 32 # z) = Some (w, z)" "next_token w = Some (w, [])"
    using d t a by (simp_all add: next_token_def Let_def del: takeWhile_eq_all_conv)
qed

text \<open>
  C29.  A request to change the address is obeyed when the address it names is the start of the own hardware
  address, a single digit included, and the new address is given; a text that is no address sets 0.0.0.0.
\<close>

theorem modify_request_obeyed:
  assumes "m \<noteq> []" and "32 \<notin> set m" and "t \<noteq> []" and "32 \<notin> set t" and "socket_ok h" and "6 \<le> length hw"
  shows "obey aton h hw (ascii ''ModifyNetInfo'' @ 32 # m @ 32 # t) =
    Inr (True, if take (length m) (mac_text (take 6 hw)) = m
      then [Change (SetAddr (ascii ''eth0'') (case aton t of Some a \<Rightarrow> a | None \<Rightarrow> [0, 0, 0, 0]))] else [])"
proof -
  have k: "next_token (ascii ''ModifyNetInfo'' @ 32 # m @ 32 # t) = Some (ascii ''ModifyNetInfo'', m @ 32 # t)"
    by (rule next_token_word) (simp_all add: ascii_def)
  have e: "SetIfAddr aton h (ascii ''eth0'') t = Inr (if set_addr_ok h then 0 else -3, [SetAddr (ascii ''eth0'') (case aton t of Some a \<Rightarrow> a | None \<Rightarrow> [0, 0, 0, 0])])"
    using assms(5) by (simp add: SetIfAddr_def Let_def IFNAMSIZ_def ascii_def)
  show ?thesis using assms k e by (simp add: obey_def next_token_word mac_size_def)
qed

theorem modify_request_obeyed_witness:
  "obey (\<lambda>_. None) (sample_host []) [2, 0, 0, 0, 0, 1] (ascii ''ModifyNetInfo'' @ 32 # ascii ''0'' @ 32 # ascii ''nonsense'') =
    Inr (True, [Change (SetAddr (ascii ''eth0'') [0, 0, 0, 0])])"
  using modify_request_obeyed[of "ascii ''0''" "ascii ''nonsense''" "sample_host []" "[2, 0, 0, 0, 0, 1]" "\<lambda>_. None"]
  by (simp add: sample_host_def ascii_def hex2_def hex_low_def)

section \<open>The settings of the interface\<close>

text \<open>What the functions that read the settings leave in their arrays.\<close>

lemma settings_read:
  assumes "socket_ok h" and "inet_of h = Some a" and "mask_of h = Some k" and "16 \<le> length ip" and "16 \<le> length m"
  shows "\<exists>ip' m'. get_ip h ip = Inr (True, ip') \<and> c_str ip' 0 (dotted a) \<and> length ip' = length ip \<and>
    GetLocalNetMask h (Some m) = Inr (0, Some m') \<and> c_str m' 0 (dotted k) \<and> length m' = length m"
proof -
  have s: "\<exists>x'. wrs x 0 (dotted y @ [0]) = Inr x' \<and> c_str x' 0 (dotted y) \<and> length x' = length x" if "16 \<le> length x" for x :: mem and y
    using that dotted_length[of y] wrs_self[of "dotted y @ [0]" x] by (auto simp: c_strI dotted_no_zero)
  obtain x y where "wrs ip 0 (dotted a @ [0]) = Inr x" "c_str x 0 (dotted a)" "length x = length ip"
    "wrs m 0 (dotted k @ [0]) = Inr y" "c_str y 0 (dotted k)" "length y = length m"
    using s[OF assms(4)] s[OF assms(5)] by metis
  with assms show ?thesis by (auto simp: get_ip_def GetLocalNetMask_def)
qed

end
