(* ===== verification/Leak_Test.thy ===== *)
theory Leak_Test
  imports Memory_Leak Transitions
begin

text \<open>
  The program that tries the leak checker, gcc/warp_malloc/TestChkMemLeak.cpp: what its main function
  allocates, its two threads beside it as a step relation, and the wait for a key.  A wrapper holds the
  mutex from its first to its last statement, so a call is one step.  What the allocator answers
  is input, under the contract of \<open>Memory_Leak\<close>.
\<close>

section \<open>The calls of main\<close>

text \<open>The results of malloc, realloc and the two calls of calloc; a report follows each of the first three calls.\<close>

definition before_threads :: "caller \<Rightarrow> addr \<Rightarrow> addr \<Rightarrow> addr \<Rightarrow> addr \<Rightarrow> trace" where
  "before_threads cl p p2 q1 q2 =
     (if p \<noteq> 0 then [(cl, Malloc 100, p), (cl, Realloc p 2000, p2), (cl, Free p2, 0)] else [(cl, Malloc 100, p)]) @
     [(cl, Calloc 2 100, q1), (cl, Free q1, 0), (cl, Calloc 2 200, q2), (cl, Free q2, 0)]"

definition reported_tables :: "caller \<Rightarrow> addr \<Rightarrow> addr \<Rightarrow> table list" where
  "reported_tables cl p p2 =
     (if p \<noteq> 0 then map (\<lambda>n. track_all (take n [(cl, Malloc 100, p), (cl, Realloc p 2000, p2), (cl, Free p2, 0)]) []) [1, 2, 3] else [])"

section \<open>The threads\<close>

text \<open>
  A thread has the number of its round; it may hold a block, null when malloc failed.  The test of the
  flag and the call of malloc that follows it are one step: only the flag comes between them, and a flag set
  there is one set after the call.
\<close>

datatype worker = Absent | Loop nat | Holds nat addr | Finished

inductive worker_step :: "bool \<Rightarrow> caller \<Rightarrow> worker \<times> table \<times> live \<Rightarrow> worker \<times> table \<times> live \<Rightarrow> bool" for stop cl where
  get: "\<not> stop \<Longrightarrow> i < 10 \<Longrightarrow> fresh_block p 10 l = Some l' \<Longrightarrow>
    worker_step stop cl (Loop i, t, l) (Holds i p, snd (wrap_malloc cl p 10 t), l')"
| stopped: "stop \<Longrightarrow> worker_step stop cl (Loop i, t, l) (Finished, t, l)"
| tenth: "10 \<le> i \<Longrightarrow> worker_step stop cl (Loop i, t, l) (Finished, t, l)"
| give: "alloc_step (Free p) 0 l = Some l' \<Longrightarrow> worker_step stop cl (Holds i p, t, l) (Loop (i + 1), wrap_free p t, l')"

inductive_cases worker_stepE: "worker_step stop cl (w, t, l) (w', t', l')"

text \<open>Where the main function is: creating the threads, telling them to end, joining them.\<close>

datatype main_pc = Create1 | Create2 | Stop1 | Join1 | Stop2 | Join2 | Waiting

record prog =
  tab :: table
  blocks :: live
  wk1 :: worker
  wk2 :: worker
  stop1 :: bool
  stop2 :: bool
  main :: main_pc

text \<open>A thread that could not be created is not joined.\<close>

inductive prog_step :: "caller \<Rightarrow> caller \<Rightarrow> prog \<Rightarrow> prog \<Rightarrow> bool" for cl1 cl2 where
  create1: "main s = Create1 \<Longrightarrow> w \<in> {Absent, Loop 0} \<Longrightarrow> prog_step cl1 cl2 s (s\<lparr>wk1 := w, main := Create2\<rparr>)"
| create2: "main s = Create2 \<Longrightarrow> w \<in> {Absent, Loop 0} \<Longrightarrow> prog_step cl1 cl2 s (s\<lparr>wk2 := w, main := Stop1\<rparr>)"
| tell1: "main s = Stop1 \<Longrightarrow> prog_step cl1 cl2 s (s\<lparr>stop1 := True, main := Join1\<rparr>)"
| join1: "main s = Join1 \<Longrightarrow> wk1 s \<in> {Absent, Finished} \<Longrightarrow> prog_step cl1 cl2 s (s\<lparr>main := Stop2\<rparr>)"
| tell2: "main s = Stop2 \<Longrightarrow> prog_step cl1 cl2 s (s\<lparr>stop2 := True, main := Join2\<rparr>)"
| join2: "main s = Join2 \<Longrightarrow> wk2 s \<in> {Absent, Finished} \<Longrightarrow> prog_step cl1 cl2 s (s\<lparr>main := Waiting\<rparr>)"
| work1: "worker_step (stop1 s) cl1 (wk1 s, tab s, blocks s) (w, t, l) \<Longrightarrow> prog_step cl1 cl2 s (s\<lparr>wk1 := w, tab := t, blocks := l\<rparr>)"
| work2: "worker_step (stop2 s) cl2 (wk2 s, tab s, blocks s) (w, t, l) \<Longrightarrow> prog_step cl1 cl2 s (s\<lparr>wk2 := w, tab := t, blocks := l\<rparr>)"

definition prog_start :: "table \<Rightarrow> live \<Rightarrow> prog" where
  "prog_start t l = \<lparr>tab = t, blocks = l, wk1 = Absent, wk2 = Absent, stop1 = False, stop2 = False, main = Create1\<rparr>"

inductive prog_reach :: "caller \<Rightarrow> caller \<Rightarrow> table \<Rightarrow> live \<Rightarrow> prog \<Rightarrow> bool" for cl1 cl2 t l where
  start: "prog_reach cl1 cl2 t l (prog_start t l)"
| step: "prog_reach cl1 cl2 t l s \<Longrightarrow> prog_step cl1 cl2 s s' \<Longrightarrow> prog_reach cl1 cl2 t l s'"

section \<open>The wait for a key\<close>

text \<open>At the end of the input scanf leaves the character as it was.\<close>

partial_function (option) next_loop :: "byte \<Rightarrow> byte list \<Rightarrow> byte list option" where
  "next_loop c ins =
     (case ins of [] \<Rightarrow> if c = 110 then Some [] else next_loop c []
      | b # r \<Rightarrow> if b = 110 then Some r else next_loop b r)"

definition next_key :: "byte list \<Rightarrow> byte list option" where
  "next_key ins = next_loop 120 ins"

section \<open>Nothing is left\<close>

lemma next_loop_end: "next_loop c [] = Some r \<Longrightarrow> c = 110"
proof -
  have "ins = [] \<longrightarrow> c = 110" if "next_loop c ins = Some r" for c ins r
    using that
    by (induction rule: next_loop.raw_induct[rotated, consumes 1, case_names step]) (auto split: if_splits list.splits)
  then show "next_loop c [] = Some r \<Longrightarrow> c = 110" by blast
qed

text \<open>The program goes on after the threads when an n comes; at the end of the input it waits for ever.\<close>

theorem next_key_returns: "(\<exists>r. next_key ins = Some r) \<longleftrightarrow> 110 \<in> set ins"
proof -
  have "(\<exists>r. next_loop c ins = Some r) \<longleftrightarrow> c = 110 \<and> ins = [] \<or> 110 \<in> set ins" for c
  proof (induction ins arbitrary: c)
    case Nil
    have "next_loop 110 [] = Some []" by (subst next_loop.simps) simp
    then show ?case using next_loop_end[of c] by auto
  next
    case (Cons b r)
    have "next_loop c (b # r) = (if b = 110 then Some r else next_loop b r)" by (subst next_loop.simps) simp
    with Cons.IH[of b] show ?case by auto
  qed
  then show ?thesis by (simp add: next_key_def)
qed

lemma calloc_free_restores: "alloc_all ((cl, Calloc a b, q) # (cl, Free q, 0) # tr) m = Some l \<Longrightarrow> alloc_all tr m = Some l"
  by (cases "q = 0") (auto simp: fresh_block_def fun_upd_idem split: option.splits if_splits)

section \<open>Every interleaving ends without blocks\<close>

text \<open>The block a thread holds, and where the threads can be for a place of main.\<close>

definition held :: "worker \<Rightarrow> addr set" where
  "held w = {p. p \<noteq> 0 \<and> (\<exists>i. w = Holds i p)}"

definition rounds_ok :: "worker \<Rightarrow> bool" where
  "rounds_ok w = (case w of Loop i \<Rightarrow> i \<le> 10 | Holds i p \<Rightarrow> i < 10 | _ \<Rightarrow> True)"

definition main_ok :: "prog \<Rightarrow> bool" where
  "main_ok s = (case main s of
      Create1 \<Rightarrow> wk1 s = Absent \<and> wk2 s = Absent
    | Create2 \<Rightarrow> wk2 s = Absent
    | Stop1 \<Rightarrow> True
    | Join1 \<Rightarrow> True
    | Stop2 \<Rightarrow> wk1 s \<in> {Absent, Finished}
    | Join2 \<Rightarrow> wk1 s \<in> {Absent, Finished}
    | Waiting \<Rightarrow> wk1 s \<in> {Absent, Finished} \<and> wk2 s \<in> {Absent, Finished})"

definition prog_inv :: "live \<Rightarrow> prog \<Rightarrow> bool" where
  "prog_inv l0 s \<longleftrightarrow> tracks (tab s) (blocks s) \<and> main_ok s \<and> rounds_ok (wk1 s) \<and> rounds_ok (wk2 s) \<and>
     held (wk1 s) \<inter> held (wk2 s) = {} \<and> (held (wk1 s) \<union> held (wk2 s)) \<inter> dom l0 = {} \<and>
     (\<forall>p\<in>held (wk1 s) \<union> held (wk2 s). blocks s p = Some 10) \<and>
     (\<forall>p. p \<notin> held (wk1 s) \<union> held (wk2 s) \<longrightarrow> blocks s p = l0 p)"

lemma held_simps [simp]:
  "held Absent = {}" "held (Loop i) = {}" "held Finished = {}" "held (Holds i p) = (if p = 0 then {} else {p})"
  by (auto simp: held_def)

text \<open>A step of one thread, whatever the other one holds.\<close>

lemma worker_step_ok:
  assumes "worker_step stop cl (w, t, l) (w', t', l')" and "tracks t l" and "rounds_ok w"
    and "held w \<inter> H = {}" and "(held w \<union> H) \<inter> dom l0 = {}" and "\<forall>p\<in>held w \<union> H. l p = Some 10"
    and "\<forall>p. p \<notin> held w \<union> H \<longrightarrow> l p = l0 p"
  shows "tracks t' l' \<and> rounds_ok w' \<and> held w' \<inter> H = {} \<and> (held w' \<union> H) \<inter> dom l0 = {} \<and>
    (\<forall>p\<in>held w' \<union> H. l' p = Some 10) \<and> (\<forall>p. p \<notin> held w' \<union> H \<longrightarrow> l' p = l0 p)"
  using assms(1)
proof cases
  case (get i p)
  then have t: "tracks t' l'" using tracks_save[OF assms(2), of p 10 l' cl] by (simp add: wrap_malloc_def)
  show ?thesis
  proof (cases "p = 0")
    case True
    with get t assms show ?thesis by (simp add: fresh_block_def rounds_ok_def)
  next
    case False
    then have l: "l p = None" "l' = l(p \<mapsto> 10)" using get by (auto simp: fresh_block_def split: if_splits)
    then have "p \<notin> H" using assms(6) by auto
    then have "l0 p = None" using assms(7) l(1) get(1) by simp
    with l get t assms False \<open>p \<notin> H\<close> show ?thesis by (auto simp: rounds_ok_def)
  qed
next
  case (give p i)
  have t: "tracks t' l'" using track_step_ok[OF assms(2), of "Free p" 0 l' cl] give by simp
  show ?thesis
  proof (cases "p = 0")
    case True
    with give t assms show ?thesis by (auto simp: rounds_ok_def)
  next
    case False
    then have l: "l' = l(p := None)" using give by (auto split: if_splits)
    have "l0 p = None" using assms(5) give(1) False by auto
    with l give t assms False show ?thesis by (auto simp: rounds_ok_def)
  qed
qed (use assms in \<open>auto simp: rounds_ok_def\<close>)

lemma worker_step_alive: "worker_step stop cl (w, t, l) x \<Longrightarrow> w \<notin> {Absent, Finished}"
  by (cases x) (auto elim!: worker_stepE)

lemma main_ok_work:
  "main_ok s \<Longrightarrow> wk1 s \<notin> {Absent, Finished} \<Longrightarrow> main_ok (s\<lparr>wk1 := w, tab := t, blocks := l\<rparr>)"
  "main_ok s \<Longrightarrow> wk2 s \<notin> {Absent, Finished} \<Longrightarrow> main_ok (s\<lparr>wk2 := w, tab := t, blocks := l\<rparr>)"
  by (auto simp: main_ok_def split: main_pc.splits)

lemma prog_start_inv: "tracks t0 l0 \<Longrightarrow> prog_inv l0 (prog_start t0 l0)"
  by (simp add: prog_inv_def prog_start_def main_ok_def rounds_ok_def)

lemma prog_step_inv:
  assumes "prog_step cl1 cl2 s s'" and inv: "prog_inv l0 s"
  shows "prog_inv l0 s'"
  using assms(1)
proof cases
  case (work1 w t l)
  from worker_step_ok[OF work1(2), of "held (wk2 s)" l0] main_ok_work(1) worker_step_alive[OF work1(2)] inv work1(1)
  show ?thesis by (simp add: prog_inv_def)
next
  case (work2 w t l)
  from worker_step_ok[OF work2(2), of "held (wk1 s)" l0] main_ok_work(2) worker_step_alive[OF work2(2)] inv work2(1)
  show ?thesis by (simp add: prog_inv_def Un_commute Int_commute)
qed (use inv in \<open>auto simp: prog_inv_def main_ok_def rounds_ok_def split: main_pc.splits\<close>)

lemma prog_reach_steps: "prog_reach cl1 cl2 t l s \<longleftrightarrow> (prog_step cl1 cl2)\<^sup>*\<^sup>* (prog_start t l) s"
proof
  show "prog_reach cl1 cl2 t l s \<Longrightarrow> (prog_step cl1 cl2)\<^sup>*\<^sup>* (prog_start t l) s"
    by (induction rule: prog_reach.induct) auto
  show "(prog_step cl1 cl2)\<^sup>*\<^sup>* (prog_start t l) s \<Longrightarrow> prog_reach cl1 cl2 t l s"
    by (induction rule: rtranclp_induct) (auto intro: prog_reach.intros)
qed

text \<open>How many steps a thread, the main function and the program still have before them.\<close>

definition worker_left :: "worker \<Rightarrow> nat" where
  "worker_left w = (case w of Absent \<Rightarrow> 22 | Loop i \<Rightarrow> 2 * (10 - i) + 1 | Holds i p \<Rightarrow> 2 * (10 - i) | Finished \<Rightarrow> 0)"

definition main_left :: "main_pc \<Rightarrow> nat" where
  "main_left m = (case m of Create1 \<Rightarrow> 6 | Create2 \<Rightarrow> 5 | Stop1 \<Rightarrow> 4 | Join1 \<Rightarrow> 3 | Stop2 \<Rightarrow> 2 | Join2 \<Rightarrow> 1 | Waiting \<Rightarrow> 0)"

definition prog_left :: "prog \<Rightarrow> nat" where
  "prog_left s = main_left (main s) + worker_left (wk1 s) + worker_left (wk2 s)"

lemma worker_step_less: "worker_step stop cl (w, t, l) (w', t', l') \<Longrightarrow> rounds_ok w \<Longrightarrow> worker_left w' < worker_left w"
  by (auto elim!: worker_stepE simp: worker_left_def rounds_ok_def)

lemma worker_can_step:
  assumes "w \<notin> {Absent, Finished}" and "\<forall>p\<in>held w. l p = Some 10"
  shows "\<exists>w' t' l'. worker_step stop cl (w, t, l) (w', t', l')"
proof (cases w)
  case (Loop i)
  have "worker_step stop cl (Loop i, t, l) (Holds i 0, snd (wrap_malloc cl 0 10 t), l)" if "\<not> stop" "i < 10"
    using that by (intro worker_step.get) (simp_all add: fresh_block_def)
  then show ?thesis using worker_step.stopped[of stop cl i t l] worker_step.tenth[of i stop cl t l] Loop
    unfolding Loop by (metis linorder_not_less)
next
  case (Holds i p)
  then have "\<exists>l'. alloc_step (Free p) 0 l = Some l'" using assms(2) by auto
  then show ?thesis using Holds worker_step.give by blast
qed (use assms in auto)

lemma prog_step_less:
  assumes "prog_step cl1 cl2 s s'" and inv: "prog_inv l0 s"
  shows "prog_left s' < prog_left s"
  using assms(1)
proof cases
  case (create1 w)
  then show ?thesis using inv by (auto simp: prog_left_def main_left_def worker_left_def prog_inv_def main_ok_def)
next
  case (create2 w)
  then show ?thesis using inv by (auto simp: prog_left_def main_left_def worker_left_def prog_inv_def main_ok_def)
next
  case (work1 w t l)
  then show ?thesis using inv worker_step_less[OF work1(2)] by (simp add: prog_left_def prog_inv_def)
next
  case (work2 w t l)
  then show ?thesis using inv worker_step_less[OF work2(2)] by (simp add: prog_left_def prog_inv_def)
qed (auto simp: prog_left_def main_left_def)

lemma prog_can_step:
  assumes inv: "prog_inv l0 s" and "main s \<noteq> Waiting"
  shows "\<exists>s'. prog_step cl1 cl2 s s'"
proof -
  consider "wk1 s \<notin> {Absent, Finished}" | "wk2 s \<notin> {Absent, Finished}" | "wk1 s \<in> {Absent, Finished}" "wk2 s \<in> {Absent, Finished}"
    by blast
  then show ?thesis
  proof cases
    case 1
    with inv obtain w t l where "worker_step (stop1 s) cl1 (wk1 s, tab s, blocks s) (w, t, l)"
      using worker_can_step[OF 1, of "blocks s" "stop1 s" cl1 "tab s"] by (auto simp: prog_inv_def)
    then show ?thesis by (blast intro: prog_step.work1)
  next
    case 2
    with inv obtain w t l where "worker_step (stop2 s) cl2 (wk2 s, tab s, blocks s) (w, t, l)"
      using worker_can_step[OF 2, of "blocks s" "stop2 s" cl2 "tab s"] by (auto simp: prog_inv_def)
    then show ?thesis by (blast intro: prog_step.work2)
  next
    case 3
    with assms(2) show ?thesis by (cases "main s") (blast intro: prog_step.intros)+
  qed
qed

text \<open>The program as a system that ends, with the invariant and the measure.\<close>

interpretation leak: ending_system "\<lambda>s. \<exists>t0. tracks t0 l0 \<and> s = prog_start t0 l0" "prog_step cl1 cl2" "prog_inv l0"
    "\<lambda>s. main s = Waiting" prog_left for cl1 cl2 l0
  by unfold_locales (auto intro: prog_start_inv prog_step_inv prog_step_less prog_can_step)

lemma prog_reach_inv: "prog_reach cl1 cl2 t0 l0 s \<Longrightarrow> tracks t0 l0 \<Longrightarrow> prog_inv l0 s"
  using leak.reach_inv[where ?s = "prog_start t0 l0"] unfolding prog_reach_steps by blast

lemma tracks_empty: "tracks t (\<lambda>_. None) \<Longrightarrow> t = []"
proof (cases t)
  case (Cons x t')
  assume "tracks t (\<lambda>_. None)"
  then have "map_option mem_size (map_of t (fst x)) = None" by (auto simp: tracks_def fun_eq_iff)
  with Cons show ?thesis by (cases x) auto
qed

lemma before_threads_tracks:
  assumes "alloc_all (before_threads cl p p2 q1 q2) (\<lambda>_. None) = Some l"
  shows "tracks (track_all (before_threads cl p p2 q1 q2) []) l"
proof -
  have "tracks [] (\<lambda>_. None)" by (simp add: tracks_def)
  from track_all_ok[OF this assms] show ?thesis by (auto simp: before_threads_def)
qed

lemma before_threads_blocks:
  assumes "alloc_all (before_threads cl p p2 q1 q2) (\<lambda>_. None) = Some l"
  shows "l = (if p \<noteq> 0 \<and> p2 = 0 then [p \<mapsto> 100] else (\<lambda>_. None))"
proof -
  have q: "alloc_all [(cl, Calloc 2 100, q1), (cl, Free q1, 0), (cl, Calloc 2 200, q2), (cl, Free q2, 0)] m = Some l \<Longrightarrow> l = m" for m
    by (drule calloc_free_restores, drule calloc_free_restores) simp
  show ?thesis
  proof (cases "p = 0")
    case True
    then show ?thesis using assms q[of "\<lambda>_. None"] by (simp add: before_threads_def fresh_block_def)
  next
    case False
    then have "alloc_all [(cl, Calloc 2 100, q1), (cl, Free q1, 0), (cl, Calloc 2 200, q2), (cl, Free q2, 0)]
        (if p2 = 0 then [p \<mapsto> 100] else (\<lambda>_. None)) = Some l"
      using assms by (simp add: before_threads_def fresh_block_def fun_upd_idem split: if_splits)
    with q False show ?thesis by auto
  qed
qed

text \<open>
  C6.  However the calls of the two threads are interleaved, whichever of them are created and whichever allocations fail:
  when the program waits for its key the table is empty and the report says so, unless realloc failed,
  when the block of 100 bytes is the one that is left.
\<close>

theorem test_program_ends_clean:
  assumes "alloc_all (before_threads cl p p2 q1 q2) (\<lambda>_. None) = Some l"
    and "prog_reach cl1 cl2 (track_all (before_threads cl p p2 q1 q2) []) l s" and "main s = Waiting"
  shows "if p \<noteq> 0 \<and> p2 = 0 then map_option mem_size \<circ> map_of (tab s) = [p \<mapsto> 100]
    else tab s = [] \<and> malloc_info_map_status en (tab s) k = Inr (k, [Unfreed 0])"
proof -
  have inv: "prog_inv l s" by (rule prog_reach_inv[OF assms(2) before_threads_tracks[OF assms(1)]])
  with assms(3) have "held (wk1 s) = {} \<and> held (wk2 s) = {}" by (auto simp: prog_inv_def main_ok_def)
  with inv have "blocks s = l" by (auto simp: prog_inv_def)
  with inv have t: "tracks (tab s) (if p \<noteq> 0 \<and> p2 = 0 then [p \<mapsto> 100] else (\<lambda>_. None))"
    using before_threads_blocks[OF assms(1)] by (simp add: prog_inv_def)
  then have "\<not> (p \<noteq> 0 \<and> p2 = 0) \<Longrightarrow> tab s = []" using tracks_empty by auto
  with t show ?thesis by (auto simp: tracks_def malloc_info_map_status_def)
qed

text \<open>
  C12.  The program ends: however the threads are scheduled a run has no more than fifty steps before the program
  waits for its key, and from every state it can be in it gets there; nothing blocks for ever.
\<close>

theorem test_program_always_ends:
  assumes "tracks t0 l0"
  shows "(\<forall>n s. (prog_step cl1 cl2 ^^ n) (prog_start t0 l0) s \<longrightarrow> n \<le> 50) \<and>
    (\<forall>s. prog_reach cl1 cl2 t0 l0 s \<longrightarrow> (\<exists>s'. (prog_step cl1 cl2)\<^sup>*\<^sup>* s s' \<and> main s' = Waiting))"
proof -
  have "prog_left (prog_start t0 l0) = 50" by (simp add: prog_left_def prog_start_def main_left_def worker_left_def)
  then have "n \<le> 50" if "(prog_step cl1 cl2 ^^ n) (prog_start t0 l0) s" for n s
    using leak.runs_bounded[OF prog_start_inv[OF assms] that] by simp
  moreover have "\<exists>s'. (prog_step cl1 cl2)\<^sup>*\<^sup>* s s' \<and> main s' = Waiting" if "prog_reach cl1 cl2 t0 l0 s" for s
    by (rule leak.ends[OF prog_reach_inv[OF that assms]])
  ultimately show ?thesis by blast
qed

text \<open>It never blocks before it waits for its key, and every step brings it nearer.\<close>

theorem test_program_ends:
  assumes "prog_reach cl1 cl2 t0 l0 s" and "tracks t0 l0"
  shows "(main s \<noteq> Waiting \<longrightarrow> (\<exists>s'. prog_step cl1 cl2 s s')) \<and> (\<forall>s'. prog_step cl1 cl2 s s' \<longrightarrow> prog_left s' < prog_left s)"
  using prog_step_less prog_can_step prog_reach_inv[OF assms] by blast

text \<open>A run in which the first thread finishes one round and the second one cannot be created.\<close>

lemma one_round:
  assumes "tracks t (\<lambda>_. None)" and "map_of t 8 = None"
  shows "\<exists>s. prog_reach some_caller some_caller t (\<lambda>_. None) s \<and> main s = Waiting"
proof -
  let ?R = "prog_reach some_caller some_caller t (\<lambda>_. None)"
  let ?t1 = "snd (wrap_malloc some_caller 8 10 t)"
  have "?R (prog_start t (\<lambda>_. None))" by (rule prog_reach.start)
  then have "?R ((prog_start t (\<lambda>_. None))\<lparr>wk1 := Loop 0, main := Create2\<rparr>)"
    by (rule prog_reach.step) (intro prog_step.create1; simp add: prog_start_def)
  then have "?R \<lparr>tab = t, blocks = (\<lambda>_. None), wk1 = Loop 0, wk2 = Absent, stop1 = False, stop2 = False, main = Create2\<rparr>"
    by (simp add: prog_start_def)
  from prog_reach.step[OF this prog_step.create2[of _ Absent]]
  have "?R \<lparr>tab = t, blocks = (\<lambda>_. None), wk1 = Loop 0, wk2 = Absent, stop1 = False, stop2 = False, main = Stop1\<rparr>" by simp
  from prog_reach.step[OF this prog_step.work1[where w = "Holds 0 8" and t = ?t1 and l = "[8 \<mapsto> 10]"]]
  have "?R \<lparr>tab = ?t1, blocks = [8 \<mapsto> 10], wk1 = Holds 0 8, wk2 = Absent, stop1 = False, stop2 = False, main = Stop1\<rparr>"
    by (simp add: worker_step.get fresh_block_def)
  from prog_reach.step[OF this prog_step.work1[where w = "Loop 1" and t = "wrap_free 8 ?t1" and l = "\<lambda>_. None"]]
    worker_step.give[of 8 "[8 \<mapsto> 10]" "\<lambda>_. None" False some_caller 0 ?t1]
  have "?R \<lparr>tab = wrap_free 8 ?t1, blocks = (\<lambda>_. None), wk1 = Loop 1, wk2 = Absent, stop1 = False, stop2 = False, main = Stop1\<rparr>"
    by (simp add: fun_upd_idem)
  from prog_reach.step[OF this prog_step.tell1]
  have "?R \<lparr>tab = wrap_free 8 ?t1, blocks = (\<lambda>_. None), wk1 = Loop 1, wk2 = Absent, stop1 = True, stop2 = False, main = Join1\<rparr>" by simp
  from prog_reach.step[OF this prog_step.work1[where w = Finished and t = "wrap_free 8 ?t1" and l = "\<lambda>_. None"]]
  have "?R \<lparr>tab = wrap_free 8 ?t1, blocks = (\<lambda>_. None), wk1 = Finished, wk2 = Absent, stop1 = True, stop2 = False, main = Join1\<rparr>"
    by (simp add: worker_step.stopped)
  from prog_reach.step[OF this prog_step.join1]
  have "?R \<lparr>tab = wrap_free 8 ?t1, blocks = (\<lambda>_. None), wk1 = Finished, wk2 = Absent, stop1 = True, stop2 = False, main = Stop2\<rparr>" by simp
  from prog_reach.step[OF this prog_step.tell2]
  have "?R \<lparr>tab = wrap_free 8 ?t1, blocks = (\<lambda>_. None), wk1 = Finished, wk2 = Absent, stop1 = True, stop2 = True, main = Join2\<rparr>" by simp
  from prog_reach.step[OF this prog_step.join2]
  have "?R \<lparr>tab = wrap_free 8 ?t1, blocks = (\<lambda>_. None), wk1 = Finished, wk2 = Absent, stop1 = True, stop2 = True, main = Waiting\<rparr>" by simp
  then show ?thesis by force
qed

lemma sample_calls:
  "alloc_all (before_threads some_caller 8 9 8 9) (\<lambda>_. None) = Some (\<lambda>_. None)"
  by (simp add: before_threads_def fresh_block_def fun_upd_idem)

theorem test_program_ends_clean_witness:
  "\<exists>s. prog_reach some_caller some_caller (track_all (before_threads some_caller 8 9 8 9) []) (\<lambda>_. None) s \<and> main s = Waiting \<and> tab s = []"
proof -
  note t = before_threads_tracks[OF sample_calls]
  then have "map_of (track_all (before_threads some_caller 8 9 8 9) []) 8 = None" using tracks_empty by fastforce
  from one_round[OF t this] obtain s where s: "prog_reach some_caller some_caller (track_all (before_threads some_caller 8 9 8 9) []) (\<lambda>_. None) s"
      "main s = Waiting" by blast
  from test_program_ends_clean[OF sample_calls s] s show ?thesis by auto
qed

theorem test_program_ends_witness:
  "\<exists>s'. prog_step some_caller some_caller (prog_start [] (\<lambda>_. None)) s'"
proof -
  have t: "tracks [] (\<lambda>_. None)" by (simp add: tracks_def)
  have "main (prog_start [] (\<lambda>_. None)) \<noteq> Waiting" by (simp add: prog_start_def)
  with test_program_ends[OF prog_reach.start t] show ?thesis by blast
qed

theorem test_program_always_ends_witness:
  "\<exists>s'. (prog_step some_caller some_caller)\<^sup>*\<^sup>* (prog_start [] (\<lambda>_. None)) s' \<and> main s' = Waiting"
proof -
  have "tracks [] (\<lambda>_. None)" by (simp add: tracks_def)
  from test_program_always_ends[OF this] show ?thesis using prog_reach.start by blast
qed

end
