(* ===== verification/Malloc_Hook.thy ===== *)
theory Malloc_Hook
  imports C_Prelude
begin

text \<open>
  gcc/malloc_hook/mallochook.c: hooks of malloc and free that take themselves out while they call the
  allocator.  The hooks of glibc are part of the state; the allocator's results are input, and the lines
  printed are part of the state.
\<close>

section \<open>The hooks\<close>

datatype hook = Builtin | Mine

datatype line = Allocated nat nat | Freed nat nat   \<comment> \<open>the caller and the block\<close>

record hooks =
  replaced :: bool
  old_malloc_hook :: hook
  old_free_hook :: hook
  malloc_hook :: hook
  free_hook :: hook
  printed :: "line list"

definition replace_hook :: "hooks \<Rightarrow> hooks c" where
  "replace_hook s =
     (if replaced s then Inl Abort
      else Inr (s\<lparr>replaced := True, old_malloc_hook := malloc_hook s, old_free_hook := free_hook s,
        malloc_hook := Mine, free_hook := Mine\<rparr>))"

definition restore_hook :: "hooks \<Rightarrow> hooks c" where
  "restore_hook s =
     (if \<not> replaced s then Inl Abort
      else Inr (s\<lparr>replaced := False, malloc_hook := old_malloc_hook s, free_hook := old_free_hook s\<rparr>))"

text \<open>
  A call of malloc: without a hook the allocator answers \<open>p\<close>, with one the body of my_malloc_fun runs.
\<close>

function malloc_call :: "nat \<Rightarrow> nat \<Rightarrow> hooks \<Rightarrow> (nat \<times> hooks) c" where
  "malloc_call caller p s =
     (if malloc_hook s = Builtin then Inr (p, s)
      else cbind (restore_hook s) (\<lambda>s.
           cbind (malloc_call caller p s) (\<lambda>(ret, s).
           cbind (replace_hook (s\<lparr>printed := printed s @ [Allocated (caller - 1) ret]\<rparr>)) (\<lambda>s. Inr (ret, s)))))"
  by pat_completeness auto
termination
  by (relation "measure (\<lambda>(caller, p, s). if replaced s then 1 else 0)") (auto simp: restore_hook_def split: if_splits)

declare malloc_call.simps [simp del]

function free_call :: "nat \<Rightarrow> nat \<Rightarrow> hooks \<Rightarrow> hooks c" where
  "free_call caller p s =
     (if free_hook s = Builtin then Inr s
      else cbind (restore_hook s) (\<lambda>s.
           cbind (free_call caller p (s\<lparr>printed := printed s @ [Freed (caller - 1) p]\<rparr>)) replace_hook))"
  by pat_completeness auto
termination
  by (relation "measure (\<lambda>(caller, p, s). if replaced s then 1 else 0)") (auto simp: restore_hook_def split: if_splits)

declare free_call.simps [simp del]

definition hooks_start :: hooks where
  "hooks_start = \<lparr>replaced = False, old_malloc_hook = Builtin, old_free_hook = Builtin, malloc_hook = Builtin, free_hook = Builtin, printed = []\<rparr>"

text \<open>The main program; \<open>c1\<close> and \<open>c2\<close> are the addresses the calls return to.\<close>

definition mallochook_main :: "nat \<Rightarrow> nat \<Rightarrow> nat \<Rightarrow> hooks c" where
  "mallochook_main c1 c2 p =
     cbind (replace_hook hooks_start) (\<lambda>s.
     cbind (malloc_call c1 p s) (\<lambda>(p, s).
     cbind (free_call c2 p s) restore_hook))"

section \<open>Every call is seen once\<close>

definition hooked :: "hooks \<Rightarrow> bool" where
  "hooked s \<longleftrightarrow> replaced s \<and> old_malloc_hook s = Builtin \<and> old_free_hook s = Builtin \<and> malloc_hook s = Mine \<and> free_hook s = Mine"

lemma malloc_call_hooked: "hooked s \<Longrightarrow> malloc_call c p s = Inr (p, s\<lparr>printed := printed s @ [Allocated (c - 1) p]\<rparr>)"
  by (subst malloc_call.simps) (simp add: hooked_def restore_hook_def replace_hook_def malloc_call.simps)

lemma free_call_hooked: "hooked s \<Longrightarrow> free_call c p s = Inr (s\<lparr>printed := printed s @ [Freed (c - 1) p]\<rparr>)"
  by (subst free_call.simps) (simp add: hooked_def restore_hook_def replace_hook_def free_call.simps)

datatype call = Malloc_call nat nat | Free_call nat nat

fun run_call :: "call \<Rightarrow> hooks \<Rightarrow> hooks c" where
  "run_call (Malloc_call c p) s = cbind (malloc_call c p s) (\<lambda>(_, s). Inr s)"
| "run_call (Free_call c p) s = free_call c p s"

fun run_calls :: "call list \<Rightarrow> hooks \<Rightarrow> hooks c" where
  "run_calls [] s = Inr s"
| "run_calls (x # xs) s = cbind (run_call x s) (run_calls xs)"

fun line_of :: "call \<Rightarrow> line" where
  "line_of (Malloc_call c p) = Allocated (c - 1) p"
| "line_of (Free_call c p) = Freed (c - 1) p"

lemma run_calls_hooked: "hooked s \<Longrightarrow> run_calls xs s = Inr (s\<lparr>printed := printed s @ map line_of xs\<rparr>)"
proof (induction xs arbitrary: s)
  case (Cons x xs)
  then have "run_call x s = Inr (s\<lparr>printed := printed s @ [line_of x]\<rparr>)"
    by (cases x) (simp_all add: malloc_call_hooked free_call_hooked)
  moreover have "hooked (s\<lparr>printed := printed s @ [line_of x]\<rparr>)" using Cons.prems by (simp add: hooked_def)
  ultimately show ?case using Cons.IH by simp
qed simp

text \<open>
  Between replace_hook and restore_hook every call of malloc and free prints one line, no call recurses into its
  hook, no assertion fails, and the hooks of before are back at the end.
\<close>

theorem hooks_see_every_call:
  assumes "\<not> replaced s" and "malloc_hook s = Builtin" and "free_hook s = Builtin"
  shows "\<exists>s'. cbind (replace_hook s) (\<lambda>s. cbind (run_calls xs s) restore_hook) = Inr s' \<and>
    \<not> replaced s' \<and> malloc_hook s' = Builtin \<and> free_hook s' = Builtin \<and> printed s' = printed s @ map line_of xs"
proof -
  define s1 where "s1 = s\<lparr>replaced := True, old_malloc_hook := malloc_hook s, old_free_hook := free_hook s,
    malloc_hook := Mine, free_hook := Mine\<rparr>"
  then have s1: "replace_hook s = Inr s1" "hooked s1" "printed s1 = printed s"
    using assms by (simp_all add: replace_hook_def hooked_def)
  with run_calls_hooked[OF s1(2), of xs] show ?thesis by (simp add: restore_hook_def hooked_def)
qed

theorem hooks_see_every_call_witness:
  "\<exists>s'. cbind (replace_hook hooks_start) (\<lambda>s. cbind (run_calls [Malloc_call 101 8, Free_call 201 8] s) restore_hook) = Inr s' \<and>
     printed s' = [Allocated 100 8, Freed 200 8]"
  using hooks_see_every_call[of hooks_start "[Malloc_call 101 8, Free_call 201 8]"] by (auto simp: hooks_start_def)

lemma mallochook_main_prints: "map_sum id printed (mallochook_main 101 201 8) = Inr [Allocated 100 8, Freed 200 8]"
  by code_simp

text \<open>Replacing the hooks twice fails an assertion.\<close>

lemma replace_twice: "\<not> replaced s \<Longrightarrow> cbind (replace_hook s) replace_hook = Inl Abort"
  by (simp add: replace_hook_def)

end
