(* ===== verification/Unix_Echo.thy ===== *)
theory Unix_Echo
  imports Stdio
begin

text \<open>
  Network/unixSocketServer.c and Network/unixSocketClient.c: a server that echoes a stream and a client that
  sends its whole buffer to it and reads one byte less.  What the calls of read and fgets return is input;
  where the two programs run together, read gives as much as its argument allows of the stream.
\<close>

section \<open>The server\<close>

definition BUF_SIZE :: nat where "BUF_SIZE = 1024"

text \<open>What the calls of read return, \<open>None\<close> for an error; the result is what is written.\<close>

fun serve :: "byte list option list \<Rightarrow> byte list" where
  "serve [] = []"
| "serve (None # rs) = []"
| "serve (Some d # rs) = (if d = [] then [] else take BUF_SIZE d @ serve rs)"

text \<open>The calls that set the socket up; the first one that fails ends the program with status 1.\<close>

definition server_main :: "bool \<Rightarrow> bool \<Rightarrow> bool \<Rightarrow> byte list option list \<Rightarrow> byte list c" where
  "server_main bind_ok listen_ok accept_ok rs =
     (if \<not> bind_ok then Inl (Exit 1) else if \<not> listen_ok then Inl (Exit 1) else if \<not> accept_ok then Inl (Exit 1)
      else Inr (serve rs))"

section \<open>The client\<close>

text \<open>strcmp with the two texts stops at the first byte that differs.\<close>

definition is_quit :: "mem \<Rightarrow> bool" where
  "is_quit buf \<longleftrightarrow> str_at buf 0 = ascii ''q'' @ [10] \<or> str_at buf 0 = ascii ''Q'' @ [10]"

text \<open>
  One round: the line that fgets stores in the buffer (at most 1023 bytes and the end; nothing at the end of
  the input, which is not noticed), the whole buffer sent, and what read answers.  The result is \<open>None\<close>
  when the user quits and otherwise the buffer, what was sent, and the text printed.
\<close>

definition client_send :: "byte list option \<Rightarrow> mem \<Rightarrow> (mem \<times> byte list) option c" where
  "client_send l buf =
     cbind (store_line buf l) (\<lambda>buf. if is_quit buf then Inr None else Inr (Some (buf, take BUF_SIZE buf)))"

definition client_receive :: "byte list option \<Rightarrow> mem \<Rightarrow> (mem \<times> byte list) c" where
  "client_receive rcv buf =
     (case rcv of None \<Rightarrow> Inl Write_oob
      | Some d \<Rightarrow> let d = take (BUF_SIZE - 1) d in
          cbind (wrs buf 0 d) (\<lambda>buf. cbind (wr buf (length d) 0) (\<lambda>buf. Inr (buf, str_at buf 0))))"

text \<open>The rounds of the client for what fgets and read return; the result is what was sent and the texts printed.\<close>

fun client_rounds :: "(byte list option \<times> byte list option) list \<Rightarrow> mem \<Rightarrow> (byte list \<times> byte list list) c" where
  "client_rounds [] buf = Inr ([], [])"
| "client_rounds ((l, rcv) # ios) buf =
     cbind (client_send l buf) (\<lambda>r.
       case r of None \<Rightarrow> Inr ([], [])
       | Some (buf, out) \<Rightarrow> cbind (client_receive rcv buf) (\<lambda>(buf, txt).
           cbind (client_rounds ios buf) (\<lambda>(out', ts). Inr (out @ out', txt # ts))))"

section \<open>The two programs together\<close>

text \<open>The server answers with the stream it reads, in whatever pieces it gets it.\<close>

lemma serve_echoes: "\<forall>d\<in>set ds. d \<noteq> [] \<and> length d \<le> BUF_SIZE \<Longrightarrow> serve (map Some ds) = concat ds"
  by (induction ds) auto

text \<open>
  The rounds of a client whose server echoes: the state is the buffer and what of the echo has not been
  read yet.
\<close>

fun session :: "byte list list \<Rightarrow> mem \<Rightarrow> byte list \<Rightarrow> (mem \<times> byte list \<times> byte list list) c" where
  "session [] buf echo = Inr (buf, echo, [])"
| "session (l # ls) buf echo =
     cbind (client_send (Some l) buf) (\<lambda>r.
       case r of None \<Rightarrow> Inr (buf, echo, [])
       | Some (buf, out) \<Rightarrow> cbind (client_receive (Some (echo @ serve [Some out])) buf) (\<lambda>(buf, txt).
           cbind (session ls buf (drop (BUF_SIZE - 1) (echo @ serve [Some out]))) (\<lambda>(buf, echo, ts). Inr (buf, echo, txt # ts))))"

definition typed :: "byte list \<Rightarrow> bool" where
  "typed l \<longleftrightarrow> (\<exists>t. l = t @ [10]) \<and> 0 \<notin> set l \<and> length l < BUF_SIZE \<and>
     l \<noteq> ascii ''q'' @ [10] \<and> l \<noteq> ascii ''Q'' @ [10]"

definition filled :: "byte list \<Rightarrow> mem \<Rightarrow> mem" where
  "filled l buf = l @ 0 # drop (length l + 1) buf"

lemma length_filled: "typed l \<Longrightarrow> length buf = BUF_SIZE \<Longrightarrow> length (filled l buf) = BUF_SIZE"
  by (simp add: filled_def typed_def)

lemma client_send_typed:
  assumes "typed l" and "length buf = BUF_SIZE"
  shows "client_send (Some l) buf = Inr (Some (filled l buf, filled l buf))"
proof -
  have z: "0 \<notin> set l" using assms(1) by (simp add: typed_def)
  have s: "store_line buf (Some l) = Inr (filled l buf)"
    using assms by (simp add: store_line_def wrs_in typed_def filled_def)
  have "str_at (filled l buf) 0 = l" unfolding filled_def by (rule str_at_text[OF z])
  then have "\<not> is_quit (filled l buf)" using assms(1) by (simp add: is_quit_def typed_def)
  with s length_filled[OF assms] show ?thesis by (simp add: client_send_def)
qed

lemma client_receive_full:
  assumes "length buf = BUF_SIZE" and "BUF_SIZE \<le> length d"
  shows "client_receive (Some d) buf = Inr (take 1023 d @ [0], str_at (take 1023 d @ [0]) 0)"
proof -
  define e where "e = take 1023 d"
  have le: "length e = 1023" using assms(2) by (simp add: e_def BUF_SIZE_def)
  have "length (drop 1023 buf) = 1" using assms(1) by (simp add: BUF_SIZE_def)
  then obtain x where "drop 1023 buf = [x]" by (metis One_nat_def length_0_conv length_Suc_conv)
  then have "wrs buf 0 e = Inr (e @ [x])" using assms(1) le by (simp add: wrs_in BUF_SIZE_def)
  moreover have "wr (e @ [x]) (length e) 0 = Inr (e @ [0])" by (simp add: wr_def list_update_append)
  ultimately show ?thesis by (simp add: client_receive_def BUF_SIZE_def flip: e_def)
qed

text \<open>One round of the session, with the next buffer and what is left of the echo.\<close>

lemma session_round:
  assumes "typed l" and "length buf = BUF_SIZE"
  shows "session (l # ls) buf echo =
    cbind (session ls (take 1023 (echo @ filled l buf) @ [0]) (drop 1023 (echo @ filled l buf)))
      (\<lambda>(b, e, ts). Inr (b, e, str_at (take 1023 (echo @ filled l buf) @ [0]) 0 # ts))"
proof -
  have l: "length (filled l buf) = BUF_SIZE" by (rule length_filled[OF assms])
  then have "filled l buf \<noteq> []" by (auto simp: BUF_SIZE_def)
  then have "serve [Some (filled l buf)] = filled l buf" using l by simp
  moreover have "client_receive (Some (echo @ filled l buf)) (filled l buf) =
      Inr (take 1023 (echo @ filled l buf) @ [0], str_at (take 1023 (echo @ filled l buf) @ [0]) 0)"
    using l by (intro client_receive_full) auto
  ultimately show ?thesis using client_send_typed[OF assms] by (simp add: BUF_SIZE_def)
qed

declare session.simps(2) [simp del]

lemma session_lag:
  "\<forall>l\<in>set ls. typed l \<Longrightarrow> length buf = BUF_SIZE \<Longrightarrow>
   \<exists>buf' echo' ts. session ls buf echo = Inr (buf', echo', ts) \<and> length ts = length ls \<and> length echo' = length echo + length ls"
proof (induction ls arbitrary: buf echo)
  case (Cons l ls)
  then have t: "typed l" by simp
  have l: "length (filled l buf) = 1024" using length_filled[OF t Cons.prems(2)] by (simp add: BUF_SIZE_def)
  with Cons.IH[of "take 1023 (echo @ filled l buf) @ [0]" "drop 1023 (echo @ filled l buf)"] Cons.prems
  show ?case using session_round[OF t Cons.prems(2), of ls echo] by (fastforce simp: BUF_SIZE_def)
qed simp

lemma str_at_line: "typed l \<Longrightarrow> length l < n \<Longrightarrow> str_at (take n (filled l buf) @ z) 0 = l"
  by (simp add: filled_def str_at_def takeWhile_no_zero typed_def take_Cons')

text \<open>
  C16.  The client sends 1024 bytes and reads 1023 in each round, so with an echoing server the answers fall behind by one
  byte per round: after \<open>n\<close> lines \<open>n\<close> bytes of the echo are unread.  The answer to the first line is
  the line; the answer to the second one begins with the last byte of the buffer the client started with
  (it was never set), and is empty when that byte is zero.
\<close>

theorem answers_fall_behind:
  assumes "length buf = BUF_SIZE" and "\<forall>l\<in>set (l1 # l2 # ls). typed l" and "length l1 < 1023" and "length l2 < 1022"
  shows "\<exists>buf' echo' ts. session (l1 # l2 # ls) buf [] =
      Inr (buf', echo', l1 # (if last buf = 0 then [] else last buf # l2) # ts) \<and>
    length ts = length ls \<and> length echo' = length (l1 # l2 # ls)"
proof -
  let ?f1 = "filled l1 buf"
  define b1 where "b1 = take 1023 ?f1 @ [0]"
  have t: "typed l1" "typed l2" using assms(2) by auto
  have f1: "length ?f1 = 1024" using length_filled[OF t(1) assms(1)] by (simp add: BUF_SIZE_def)
  have lb: "length b1 = BUF_SIZE" using f1 by (simp add: b1_def BUF_SIZE_def)
  have "length (drop 1023 ?f1) = 1" using f1 by simp
  then obtain x where x: "drop 1023 ?f1 = [x]" by (metis One_nat_def length_0_conv length_Suc_conv)
  have "last (drop 1023 ?f1) = last ?f1" using f1 by (intro last_drop) simp
  then have "x = last ?f1" using x by simp
  then have lx: "x = last buf" using assms(1,3) by (simp add: filled_def BUF_SIZE_def)
  let ?f2 = "filled l2 b1"
  define b2 where "b2 = take 1023 (x # ?f2) @ [0]"
  have f2: "length ?f2 = 1024" using length_filled[OF t(2) lb] by (simp add: BUF_SIZE_def)
  have "length b2 = BUF_SIZE" using f2 by (simp add: b2_def BUF_SIZE_def)
  from session_lag[OF _ this, of ls "drop 1023 (x # ?f2)"] assms(2) f2
  obtain b e ts where rest: "session ls b2 (drop 1023 (x # ?f2)) = Inr (b, e, ts)" "length ts = length ls"
      "length e = 2 + length ls" by auto
  have a1: "str_at b1 0 = l1" unfolding b1_def by (rule str_at_line[OF t(1) assms(3)])
  have "b2 = x # (take 1022 ?f2 @ [0])" by (simp add: b2_def take_Cons')
  then have a2: "str_at b2 0 = (if x = 0 then [] else x # l2)"
    using str_at_line[OF t(2) assms(4), of b1 "[0]"] by (simp add: str_at_def)
  have "session (l2 # ls) b1 [x] = Inr (b, e, str_at b2 0 # ts)"
    unfolding session_round[OF t(2) lb] by (simp only: append_Cons append_Nil cbind.simps prod.case rest(1) flip: b2_def)
  then have "session (l1 # l2 # ls) buf [] = Inr (b, e, str_at b1 0 # str_at b2 0 # ts)"
    unfolding session_round[OF t(1) assms(1)] append_Nil x by (simp flip: b1_def)
  with rest a1 a2 lx show ?thesis by simp
qed

lemma line_typed: "typed [97, 10]" "typed [98, 10]"
  by (simp_all add: typed_def BUF_SIZE_def ascii_def)

theorem answers_fall_behind_witness:
  "\<exists>buf' echo'. session [[97, 10], [98, 10]] (replicate 1024 7) [] = Inr (buf', echo', [[97, 10], [7, 98, 10]]) \<and> length echo' = Suc (Suc 0)"
proof -
  have l: "last (replicate 1024 (7 :: byte)) = 7" by (rule last_replicate) simp
  have s: "\<forall>l\<in>set [[97, 10], [98, 10]]. typed l" using line_typed by simp
  from answers_fall_behind[OF _ s, of "replicate 1024 7"] show ?thesis unfolding l by (simp add: BUF_SIZE_def)
qed

text \<open>A failed read ends in a write before the buffer; at the end of the input the last line is sent again and again.\<close>

lemma failed_read: "client_receive None buf = Inl Write_oob"
  by (simp add: client_receive_def)

lemma resent: "length buf = BUF_SIZE \<Longrightarrow> \<not> is_quit buf \<Longrightarrow> client_send None buf = Inr (Some (buf, buf))"
  by (simp add: client_send_def store_line_def)

end
