(* ===== verification/Host_Lookup.thy ===== *)
theory Host_Lookup
  imports C_Prelude
begin

text \<open>
  Network/hostname.c: looks for a name in the host database and prints the entries.  What gethostent returns
  is the input, a list of entries; the text inet_ntop makes of an address is a parameter; the lines printed
  are the result, with the status the process ends with.
\<close>

section \<open>One entry\<close>

record hostent =
  h_name :: "byte list"
  h_aliases :: "byte list list"
  h_addrtype :: int
  h_length :: int
  h_addr_list :: "byte list list"

datatype line =
    Host_name "byte list"
  | Addr_type bool            \<comment> \<open>true for IPV4\<close>
  | Host_length int
  | Host_ip "byte list"
  | Host_alias nat "byte list"
  | Host_addr nat "byte list"
  | Usage

definition AF_INET :: int where "AF_INET = 2"

text \<open>inet_ntop into the cleared array of 16 characters: a text that does not fit leaves it empty.\<close>

definition ip_text :: "(int \<Rightarrow> byte list \<Rightarrow> byte list) \<Rightarrow> int \<Rightarrow> byte list \<Rightarrow> byte list" where
  "ip_text ntop af a = (if length (ntop af a) < 16 then ntop af a else [])"

fun numbered :: "(nat \<Rightarrow> 'a \<Rightarrow> line) \<Rightarrow> nat \<Rightarrow> 'a list \<Rightarrow> line list" where
  "numbered f i [] = []"
| "numbered f i (x # xs) = f i x # numbered f (i + 1) xs"

definition out_host :: "(int \<Rightarrow> byte list \<Rightarrow> byte list) \<Rightarrow> hostent \<Rightarrow> line list c" where
  "out_host ntop h =
     (case h_addr_list h of [] \<Rightarrow> Inl Null_deref
      | a # _ \<Rightarrow> Inr ([Host_name (h_name h), Addr_type (h_addrtype h = AF_INET), Host_length (h_length h),
            Host_ip (ip_text ntop (h_addrtype h) a)] @
          numbered Host_alias 0 (h_aliases h) @
          numbered (\<lambda>i a. Host_addr i (ip_text ntop (h_addrtype h) a)) 0 (h_addr_list h)))"

section \<open>The search\<close>

fun alias_matches :: "byte list \<Rightarrow> byte list list \<Rightarrow> bool" where
  "alias_matches k [] = False"
| "alias_matches k (a # as) = (if k = a then True else alias_matches k as)"

text \<open>The loop over the database: what is printed and the status.\<close>

fun search :: "(int \<Rightarrow> byte list \<Rightarrow> byte list) \<Rightarrow> byte list \<Rightarrow> hostent list \<Rightarrow> (line list \<times> int) c" where
  "search ntop k [] = Inr ([], 0)"
| "search ntop k (h # hs) =
     (if k = h_name h then cbind (out_host ntop h) (\<lambda>o1. cbind (search ntop k hs) (\<lambda>(o2, st). Inr (o1 @ o2, st)))
      else if alias_matches k (h_aliases h) then cbind (out_host ntop h) (\<lambda>o1. Inr (o1, 1))
      else search ntop k hs)"

definition hostname_main :: "(int \<Rightarrow> byte list \<Rightarrow> byte list) \<Rightarrow> byte list list \<Rightarrow> hostent list \<Rightarrow> (line list \<times> int) c" where
  "hostname_main ntop argv hs = (if length argv < 2 then Inr ([Usage], 1) else search ntop (argv ! 1) hs)"

section \<open>What is printed\<close>

lemma alias_matches_iff: "alias_matches k as \<longleftrightarrow> k \<in> set as"
  by (induction as) auto

text \<open>An entry is found by its name or by one of its aliases; the search goes on only after the former.\<close>

definition by_alias :: "byte list \<Rightarrow> hostent \<Rightarrow> bool" where
  "by_alias k h \<longleftrightarrow> k \<noteq> h_name h \<and> k \<in> set (h_aliases h)"

definition found :: "byte list \<Rightarrow> hostent list \<Rightarrow> hostent list" where
  "found k hs = filter (\<lambda>h. k = h_name h) (takeWhile (\<lambda>h. \<not> by_alias k h) hs) @ take 1 (dropWhile (\<lambda>h. \<not> by_alias k h) hs)"

fun shown :: "(int \<Rightarrow> byte list \<Rightarrow> byte list) \<Rightarrow> hostent list \<Rightarrow> line list c" where
  "shown ntop [] = Inr []"
| "shown ntop (h # hs) = cbind (out_host ntop h) (\<lambda>o1. cbind (shown ntop hs) (\<lambda>o2. Inr (o1 @ o2)))"

text \<open>
  The program prints the entries with that name before the first one that has it as an alias only, and
  that one; it ends with status 1, the one of a failure, exactly when there is such an entry, and with 0 when no entry
  is found at all.
\<close>

theorem hostname_prints_found:
  "hostname_main ntop [p, k] hs = cbind (shown ntop (found k hs)) (\<lambda>out. Inr (out, if \<exists>h\<in>set hs. by_alias k h then 1 else 0))"
proof -
  have "search ntop k hs = cbind (shown ntop (found k hs)) (\<lambda>out. Inr (out, if \<exists>h\<in>set hs. by_alias k h then 1 else 0))"
  proof (induction hs)
    case (Cons h hs)
    show ?case
    proof (cases "by_alias k h")
      case True
      then have "search ntop k (h # hs) = cbind (out_host ntop h) (\<lambda>o1. Inr (o1, 1))" "found k (h # hs) = [h]"
        by (simp_all add: by_alias_def alias_matches_iff found_def)
      then show ?thesis using True by (cases "out_host ntop h") simp_all
    next
      case False
      show ?thesis
      proof (cases "k = h_name h")
        case True
        with False have "found k (h # hs) = h # found k hs" by (simp add: found_def)
        with Cons.IH False True show ?thesis by (simp add: cbind_assoc)
      next
        case name: False
        with False have "found k (h # hs) = found k hs" by (simp add: found_def)
        with Cons.IH False name show ?thesis by (simp add: alias_matches_iff by_alias_def)
      qed
    qed
  qed (simp add: found_def)
  then show ?thesis by (simp add: hostname_main_def)
qed

text \<open>An entry without an address ends in an access through a null pointer; an address whose text needs 16 characters is printed as nothing.\<close>

lemma no_address: "h_addr_list h = [] \<Longrightarrow> out_host ntop h = Inl Null_deref"
  by (simp add: out_host_def)

lemma long_address: "h_addr_list h = [a] \<Longrightarrow> 16 \<le> length (ntop (h_addrtype h) a) \<Longrightarrow>
    \<exists>xs. out_host ntop h = Inr xs \<and> last xs = Host_addr 0 []"
  by (simp add: out_host_def ip_text_def)

lemma sample_host:
  "hostname_main (\<lambda>_ a. a) [[1], [7]]
     [\<lparr>h_name = [5], h_aliases = [[6], [7]], h_addrtype = 2, h_length = 4, h_addr_list = [[9]]\<rparr>,
      \<lparr>h_name = [7], h_aliases = [], h_addrtype = 2, h_length = 4, h_addr_list = [[8]]\<rparr>] =
   Inr ([Host_name [5], Addr_type True, Host_length 4, Host_ip [9], Host_alias 0 [6], Host_alias 1 [7], Host_addr 0 [9]], 1)"
  by code_simp

end
