(* ===== verification/Trad_Simp.thy ===== *)
theory Trad_Simp
  imports C_Prelude
begin

text \<open>
  traditionalTOSimplified/traditionalTOSimplified.c: Chinese text from one charset and script to the
  other.  iconv and OpenCC are parameters: \<open>ic from to\<close> is what a call of iconv writes for an input and the room it
  is given, \<open>None\<close> when iconv_open fails; \<open>oc\<close> is the text OpenCC returns, \<open>None\<close> for its null pointer.
\<close>

section \<open>The conversions\<close>

type_synonym iconv = "string \<Rightarrow> string \<Rightarrow> (byte list \<Rightarrow> nat \<Rightarrow> byte list) option"

datatype config = TRAD_TO_SIMP | SIMP_TO_TRAD

type_synonym opencc = "config \<Rightarrow> byte list \<Rightarrow> byte list option"

text \<open>
  A failed iconv_open returns (iconv_t)(-1) and not the 0 that is asked for; iconv and iconv_close then fail and
  write nothing.
\<close>

definition m_iconv :: "iconv \<Rightarrow> string \<Rightarrow> string \<Rightarrow> byte list \<Rightarrow> mem \<Rightarrow> nat \<Rightarrow> mem c" where
  "m_iconv ic from to inbuf outbuf outlen =
     cbind (wrs outbuf 0 (replicate outlen 0)) (\<lambda>outbuf.
       case ic from to of None \<Rightarrow> Inr outbuf | Some conv \<Rightarrow> wrs outbuf 0 (conv inbuf outlen))"

text \<open>Both directions have the same body up to the configuration; \<open>utf8\<close> and \<open>tempout\<close> are the local arrays.\<close>

definition convert_with :: "config \<Rightarrow> iconv \<Rightarrow> opencc \<Rightarrow> mem \<Rightarrow> mem \<Rightarrow> string \<Rightarrow> string \<Rightarrow> mem \<Rightarrow> mem \<Rightarrow> mem c" where
  "convert_with cfg ic oc utf8 tempout src_charset dest_charset src dest =
     cbind (strlen src 0) (\<lambda>n.
     cbind (m_iconv ic src_charset ''utf8'' (take n src) utf8 (length utf8)) (\<lambda>utf8.
     cbind (strlen utf8 0) (\<lambda>n.
       case oc cfg (take n utf8) of None \<Rightarrow> Inl Null_deref
       | Some conv \<Rightarrow>
         cbind (wrs tempout 0 (conv @ [0])) (\<lambda>tempout.
         cbind (strlen tempout 0) (\<lambda>len.
           m_iconv ic ''utf8'' dest_charset (take len tempout) dest (len * 2 + 1))))))"

definition cht2chs :: "iconv \<Rightarrow> opencc \<Rightarrow> mem \<Rightarrow> mem \<Rightarrow> string \<Rightarrow> string \<Rightarrow> mem \<Rightarrow> mem \<Rightarrow> mem c" where
  "cht2chs = convert_with TRAD_TO_SIMP"

definition chs2cht :: "iconv \<Rightarrow> opencc \<Rightarrow> mem \<Rightarrow> mem \<Rightarrow> string \<Rightarrow> string \<Rightarrow> mem \<Rightarrow> mem \<Rightarrow> mem c" where
  "chs2cht = convert_with SIMP_TO_TRAD"

text \<open>The main program, with its two characters in UTF-8.\<close>

definition sample_text :: "byte list" where
  "sample_text = [0xE5, 0x88, 0x86, 0xE6, 0x9C, 0xBA]"

definition trad_main :: "iconv \<Rightarrow> opencc \<Rightarrow> mem \<Rightarrow> mem \<Rightarrow> mem \<Rightarrow> byte list c" where
  "trad_main ic oc utf8 tempout dest =
     cbind (chs2cht ic oc utf8 tempout ''utf8'' ''big5'' (sample_text @ [0]) dest) (\<lambda>dest.
     cbind (strlen dest 0) (\<lambda>n. Inr (take n dest)))"

section \<open>What they do\<close>

lemma m_iconv_writes:
  assumes "ic from to = Some conv" and "length (conv inb n) \<le> n" and "n \<le> length out"
  shows "m_iconv ic from to inb out n = Inr (conv inb n @ replicate (n - length (conv inb n)) 0 @ drop n out)"
  using assms by (simp add: m_iconv_def wrs_in)

lemma m_iconv_failed_open:
  "ic from to = None \<Longrightarrow> n \<le> length out \<Longrightarrow> m_iconv ic from to inb out n = Inr (replicate n 0 @ drop n out)"
  by (simp add: m_iconv_def wrs_in)

lemma strlen_zeros: "0 \<notin> set s \<Longrightarrow> 0 < n \<Longrightarrow> strlen (s @ replicate n 0 @ z) 0 = Inr (length s)"
  using c_str_strlen[OF c_strI, of s "replicate (n - 1) 0 @ z"] by (cases n) simp_all

lemma convert_with_run:
  assumes "ic from ''utf8'' = Some c1" and "0 \<notin> set s" and "length (c1 s (length u)) < length u" and "0 \<notin> set (c1 s (length u))"
    and "oc cfg (c1 s (length u)) = Some t" and "0 \<notin> set t" and "length t < length tmp"
  shows "convert_with cfg ic oc u tmp from to (s @ 0 # z) dest = m_iconv ic ''utf8'' to t dest (length t * 2 + 1)"
proof -
  let ?w = "c1 s (length u)"
  have 1: "strlen (s @ 0 # z) 0 = Inr (length s)" by (rule strlen_text[OF assms(2)])
  have 2: "m_iconv ic from ''utf8'' s u (length u) = Inr (?w @ replicate (length u - length ?w) 0 @ [])"
    using m_iconv_writes[of ic "from" "''utf8''" c1 s "length u" u] assms(1,3) by simp
  have 3: "strlen (?w @ replicate (length u - length ?w) 0 @ []) 0 = Inr (length ?w)"
    using assms(3,4) by (intro strlen_zeros) auto
  have 4: "wrs tmp 0 (t @ [0]) = Inr (t @ 0 # drop (length t + 1) tmp)" using assms(7) by (simp add: wrs_in)
  have 5: "strlen (t @ 0 # drop (length t + 1) tmp) 0 = Inr (length t)" by (rule strlen_text[OF assms(6)])
  show ?thesis using 1 2 3 4 5 assms(5) by (simp add: convert_with_def)
qed

text \<open>
  C40.  When the text in UTF-8 and its conversion fit in the local arrays and the text in the target charset needs at most two
  bytes for each byte in UTF-8, the target holds that text, then null bytes up to \<open>2 * len + 1\<close>, where \<open>len\<close> is
  the length in UTF-8, and behind them what it held before; as a string it is that text.
\<close>

theorem chs2cht_converts:
  assumes "ic from ''utf8'' = Some c1" and "ic ''utf8'' to = Some c2" and "0 \<notin> set s"
    and "length (c1 s (length u)) < length u" and "0 \<notin> set (c1 s (length u))"
    and "oc SIMP_TO_TRAD (c1 s (length u)) = Some t" and "0 \<notin> set t" and "length t < length tmp"
    and "length (c2 t (2 * length t + 1)) \<le> 2 * length t" and "0 \<notin> set (c2 t (2 * length t + 1))" and "2 * length t < length dest"
    and "w = c2 t (2 * length t + 1)"
  shows "\<exists>dest'. chs2cht ic oc u tmp from to (s @ 0 # z) dest = Inr dest' \<and>
    dest' = w @ replicate (2 * length t + 1 - length w) 0 @ drop (2 * length t + 1) dest \<and> str_at dest' 0 = w"
proof -
  note w_def = assms(12)
  have lw: "length w \<le> 2 * length t" and zw: "0 \<notin> set w" using assms(9,10) by (simp_all add: w_def)
  define r where "r = w @ replicate (2 * length t + 1 - length w) 0 @ drop (2 * length t + 1) dest"
  have "chs2cht ic oc u tmp from to (s @ 0 # z) dest = m_iconv ic ''utf8'' to t dest (2 * length t + 1)"
    using convert_with_run[where s = s and u = u and ?c1.0 = c1 and ic = ic and oc = oc and t = t and ?from = "from", OF assms(1,3-8), of to z dest] by (simp add: chs2cht_def mult.commute)
  also have "\<dots> = Inr r"
    using m_iconv_writes[of ic "''utf8''" to c2 t "2 * length t + 1" dest] assms(2,11) lw by (simp add: r_def w_def)
  finally have "chs2cht ic oc u tmp from to (s @ 0 # z) dest = Inr r" .
  moreover have "str_at r 0 = w"
  proof -
    have "r = w @ 0 # (replicate (2 * length t - length w) 0 @ drop (2 * length t + 1) dest)"
      using lw by (simp add: r_def Suc_diff_le)
    then show ?thesis by (simp add: str_at_text[OF zw])
  qed
  ultimately show ?thesis by (auto simp: r_def)
qed

text \<open>A conversion that copies, as iconv does from UTF-8 to UTF-8, and an OpenCC that leaves the text alone.\<close>

definition copying :: iconv where "copying = (\<lambda>_ _. Some (\<lambda>s n. take n s))"

theorem chs2cht_converts_witness:
  "\<exists>d. chs2cht copying (\<lambda>_ t. Some t) (replicate 10 1) (replicate 10 2) ''utf8'' ''utf8'' (sample_text @ [0]) (replicate 20 3) = Inr d \<and>
     d = sample_text @ replicate 7 0 @ replicate 7 3 \<and> str_at d 0 = sample_text"
proof -
  have n: "0 \<notin> set sample_text" "length sample_text = 6" by (simp_all add: sample_text_def)
  from chs2cht_converts[of copying "''utf8''" "\<lambda>s n. take n s" "''utf8''" "\<lambda>s n. take n s" sample_text "replicate 10 1" "\<lambda>_ t. Some t"
      sample_text "replicate 10 2" "replicate 20 3" sample_text "[]"] n
  show ?thesis by (simp add: copying_def)
qed

text \<open>
  The target must have room for \<open>2 * len + 1\<close> bytes, however short the text in the target charset is: all
  of them are cleared first.
\<close>

lemma target_must_hold_double:
  assumes "ic from ''utf8'' = Some c1" and "0 \<notin> set s" and "length (c1 s (length u)) < length u" and "0 \<notin> set (c1 s (length u))"
    and "oc cfg (c1 s (length u)) = Some t" and "0 \<notin> set t" and "length t < length tmp" and "length dest \<le> 2 * length t"
  shows "convert_with cfg ic oc u tmp from to (s @ 0 # z) dest = Inl Write_oob"
proof -
  have "wrs dest 0 (replicate (length t * 2 + 1) 0) = Inl Write_oob" using assms(8) by (intro wrs_out) auto
  then show ?thesis unfolding convert_with_run[where s = s and u = u and ?c1.0 = c1 and ic = ic and oc = oc and t = t and ?from = "from", OF assms(1-7)] by (simp add: m_iconv_def)
qed

text \<open>With an unknown source charset the result is the empty text and no error is seen.\<close>

lemma unknown_charset_empty:
  assumes "ic from ''utf8'' = None" and "0 \<notin> set s" and "u \<noteq> []" and "oc cfg [] = Some []" and "tmp \<noteq> []"
    and "ic ''utf8'' to = Some c2" and "c2 [] 1 = []" and "dest \<noteq> []"
  shows "\<exists>d. convert_with cfg ic oc u tmp from to (s @ 0 # z) dest = Inr d \<and> str_at d 0 = []"
proof -
  have 1: "strlen (s @ 0 # z) 0 = Inr (length s)" by (rule strlen_text[OF assms(2)])
  have 2: "m_iconv ic from ''utf8'' s u (length u) = Inr (replicate (length u) 0)"
    using m_iconv_failed_open[of ic "from" "''utf8''" "length u" u s] assms(1) by simp
  have 3: "strlen (replicate (length u) 0) 0 = Inr 0" using strlen_zeros[of "[]" "length u" "[]"] assms(3) by simp
  have 4: "wrs tmp 0 [0] = Inr (0 # drop 1 tmp)" using wrs_in[of 0 "[0]" tmp] assms(5) by (cases tmp) simp_all
  have 5: "strlen (0 # drop 1 tmp) 0 = Inr 0" by (simp add: strlen_def)
  have 6: "m_iconv ic ''utf8'' to [] dest 1 = Inr (0 # drop 1 dest)"
    using m_iconv_writes[of ic "''utf8''" to c2 "[]" "1" dest] assms(6-8) by (cases dest) simp_all
  show ?thesis using 1 2 3 4 5 6 assms(4) by (simp add: convert_with_def str_at_def)
qed

end
