(* ===== verification/Su_Caps.thy ===== *)
theory Su_Caps
  imports C_Prelude
begin

text \<open>
  sys/su.c: a process that gives up its user and most capabilities before it runs another program.  The
  program is a tree of system calls, each with what is done for every answer; the kernel that answers them
  is a parameter, and a run is the list of the calls with the states they are made in.
\<close>

section \<open>Calls and runs\<close>

record cap_data =
  effective :: "32 word"
  permitted :: "32 word"
  inheritable :: "32 word"

datatype syscall =
    Setsid
  | Set_name string
  | Capget
  | Capset "32 word" "cap_data list"
  | Set_keepcaps nat
  | Setgid nat
  | Setuid nat
  | Pipe
  | Fork
  | Write nat "byte list"
  | Close nat
  | System string
  | Execvp string
  | Exit_process nat

datatype prog = Halt | Crash fault | Call syscall "int \<Rightarrow> prog"

text \<open>The kernel answers a call in a state, or the process does not go on after it.\<close>

type_synonym 's kernel = "syscall \<Rightarrow> 's \<Rightarrow> (int \<times> 's) option"

text \<open>A run: the calls with the state before and the answer.\<close>

primrec run :: "prog \<Rightarrow> 's kernel \<Rightarrow> 's \<Rightarrow> (syscall \<times> 's \<times> int option) list" where
  "run Halt k s = []"
| "run (Crash e) k s = []"
| "run (Call c f) k s = (case k c s of None \<Rightarrow> [(c, s, None)] | Some (r, s') \<Rightarrow> (c, s, Some r) # run (f r) k s')"

section \<open>Capabilities\<close>

definition cap :: "nat \<Rightarrow> 32 word" where "cap n = push_bit n 1"

definition CAP_SETGID :: nat where "CAP_SETGID = 6"
definition CAP_SETUID :: nat where "CAP_SETUID = 7"
definition CAP_NET_BIND_SERVICE :: nat where "CAP_NET_BIND_SERVICE = 10"
definition CAP_NET_ADMIN :: nat where "CAP_NET_ADMIN = 12"
definition CAP_NET_RAW :: nat where "CAP_NET_RAW = 13"

definition net_caps :: "32 word" where
  "net_caps = cap CAP_NET_BIND_SERVICE OR cap CAP_NET_ADMIN OR cap CAP_NET_RAW"

definition first_caps :: "32 word" where
  "first_caps = net_caps OR cap CAP_SETUID OR cap CAP_SETGID"

definition no_caps :: cap_data where
  "no_caps = \<lparr>effective = 0, permitted = 0, inheritable = 0\<rparr>"

text \<open>The version the calls are made with and the number of elements, from the version capget has stored.\<close>

definition version_size :: "32 word \<Rightarrow> 32 word \<times> nat" where
  "version_size v =
     (if v = 0x19980330 then (v, 1) else if v = 0x20071026 then (v, 2) else (0x20080522, 2))"

text \<open>
  set_process_env: \<open>m1\<close> and \<open>m2\<close> say whether the two allocations succeed; the failures are only printed.
  The text of child_process is the same up to its prints, so what follows is an argument.
\<close>

definition set_process_env :: "bool \<Rightarrow> bool \<Rightarrow> 32 word \<Rightarrow> prog \<Rightarrow> prog" where
  "set_process_env m1 m2 version rest =
     Call Setsid (\<lambda>_. Call (Set_name ''test_su_child'') (\<lambda>_.
     if \<not> m1 then Crash Null_deref
     else Call Capget (\<lambda>_.
       let (v, capsize) = version_size version in
       if \<not> m2 then Crash Null_deref
       else
         let data = replicate capsize no_caps;
             data = data[0 := \<lparr>effective = first_caps, permitted = first_caps, inheritable = first_caps\<rparr>];
             last = data[0 := \<lparr>effective = net_caps, permitted = net_caps, inheritable = 0\<rparr>];
             k = Call (Setgid 1001) (\<lambda>_. Call (Setuid 1001) (\<lambda>_. Call (Capset v last) (\<lambda>_. rest)))
         in Call (Capset v data) (\<lambda>r. if r = -1 then k else Call (Set_keepcaps 1) (\<lambda>_. k)))))"

definition child_process :: "nat \<Rightarrow> nat \<Rightarrow> bool \<Rightarrow> bool \<Rightarrow> 32 word \<Rightarrow> prog" where
  "child_process rfd wfd m1 m2 version =
     set_process_env m1 m2 version
       (Call (Close wfd) (\<lambda>_. Call (Setuid 0) (\<lambda>_.
        Call (System ''my_exe &'') (\<lambda>_. Call (Execvp ''my_exe'') (\<lambda>_.
        Call (Close rfd) (\<lambda>_. Call (Exit_process 0) (\<lambda>_. Halt)))))))"

section \<open>The main program\<close>

definition message :: "nat \<Rightarrow> int \<Rightarrow> int \<Rightarrow> int \<Rightarrow> byte list" where
  "message i pid uid gid =
     ascii ''[main process: i='' @ printf_d (int i) @ ascii '',pid='' @ printf_d pid @ ascii '',uid='' @ printf_d uid @
     ascii '',gid='' @ printf_d gid @ ascii '',exit='' @ printf_d (if i = 10 then 1 else 0) @ ascii '']''"

fun send_messages :: "nat \<Rightarrow> nat \<Rightarrow> int \<Rightarrow> int \<Rightarrow> int \<Rightarrow> nat \<Rightarrow> prog \<Rightarrow> prog" where
  "send_messages 0 i pid uid gid wfd rest = rest"
| "send_messages (Suc n) i pid uid gid wfd rest =
     Call (Write wfd (message i pid uid gid)) (\<lambda>_. send_messages n (i + 1) pid uid gid wfd rest)"

definition su_main :: "nat \<Rightarrow> nat \<Rightarrow> bool \<Rightarrow> bool \<Rightarrow> 32 word \<Rightarrow> int \<Rightarrow> int \<Rightarrow> int \<Rightarrow> prog" where
  "su_main rfd wfd m1 m2 version pid uid gid =
     Call Pipe (\<lambda>r. if r = -1 then Call (Exit_process 1) (\<lambda>_. Halt)
     else Call Fork (\<lambda>r. if r = -1 then Call (Exit_process 1) (\<lambda>_. Halt)
       else if r = 0 then child_process rfd wfd m1 m2 version
       else Call (Close rfd) (\<lambda>_. send_messages 11 0 pid uid gid wfd
              (Call (Close wfd) (\<lambda>_. Call (Exit_process 0) (\<lambda>_. Halt))))))"

text \<open>test_net: its result for the answer of bind, and the sockets it closes.\<close>

definition test_net :: "nat \<Rightarrow> int \<Rightarrow> int \<times> nat list" where
  "test_net sock bound = (if bound < 0 then (-1, []) else (0, [sock]))"

section \<open>What the kernel promises\<close>

record creds =
  ruid :: nat
  euid :: nat
  suid :: nat
  eff :: "32 word"
  perm :: "32 word"
  inh :: "32 word"

text \<open>
  The part of capset(2), setuid(2) and capabilities(7) that the program needs, for a view of the
  credentials of the process: a call that fails changes nothing; capset sets the three sets; setuid of a process with
  CAP_SETUID sets all three users, and without it fails unless the user is one of its own; calls that
  have nothing to do with credentials keep them.
\<close>

definition keeps_rules :: "'s kernel \<Rightarrow> ('s \<Rightarrow> creds) \<Rightarrow> bool" where
  "keeps_rules k cr \<longleftrightarrow>
     (\<forall>v d ds s r s'. k (Capset v (d # ds)) s = Some (r, s') \<longrightarrow>
        cr s' = (if r = -1 then cr s else (cr s)\<lparr>eff := effective d, perm := permitted d, inh := inheritable d\<rparr>)) \<and>
     (\<forall>u s r s'. k (Setuid u) s = Some (r, s') \<longrightarrow> r = -1 \<longrightarrow> cr s' = cr s) \<and>
     (\<forall>u s r s'. k (Setuid u) s = Some (r, s') \<longrightarrow> r \<noteq> -1 \<longrightarrow>
        (if bit (eff (cr s)) CAP_SETUID then ruid (cr s') = u \<and> euid (cr s') = u \<and> suid (cr s') = u
         else u \<in> {ruid (cr s), suid (cr s)})) \<and>
     (\<forall>c s r s'. k c s = Some (r, s') \<longrightarrow>
        c \<in> {Setsid, Set_name ''test_su_child'', Capget, Set_keepcaps 1, Setgid 1001} \<union> range Close \<longrightarrow> cr s' = cr s)"

section \<open>The program that is run\<close>

lemma setuid_not_kept: "\<not> bit net_caps CAP_SETUID" "bit first_caps CAP_SETUID"
  by (simp_all add: net_caps_def first_caps_def cap_def CAP_SETUID_def CAP_NET_BIND_SERVICE_def CAP_NET_ADMIN_def
      CAP_NET_RAW_def bit_or_iff bit_push_bit_iff)

lemma version_size_some: "\<exists>v' n. version_size v = (v', Suc n)"
  by (auto simp: version_size_def)

text \<open>A call that comes later in a run, and the answers before it.\<close>

lemma run_later:
  assumes "x \<in> set (run (Call c f) k s)" and "fst x \<noteq> c" and "set (run (Call c f) k s) \<subseteq> L"
  shows "\<exists>r t. k c s = Some (r, t) \<and> (c, s, Some r) \<in> L \<and> x \<in> set (run (f r) k t) \<and> set (run (f r) k t) \<subseteq> L"
  using assms by (auto split: option.splits)

text \<open>The calls of set_process_env that are answered, when something after it is reached.\<close>

definition granted :: "(syscall \<times> 's \<times> int option) set \<Rightarrow> bool" where
  "granted l \<longleftrightarrow> (\<forall>(c, s, r)\<in>l. c = Setuid 1001 \<or> (\<exists>v ds. c = Capset v ds) \<longrightarrow> r \<noteq> Some (-1))"

lemma granted_not: "granted l \<Longrightarrow> (c, s, Some r) \<in> l \<Longrightarrow> c = Setuid 1001 \<or> (\<exists>v ds. c = Capset v ds) \<Longrightarrow> r \<noteq> -1"
  by (fastforce simp: granted_def)

text \<open>The last three calls, from a state with CAP_SETUID.\<close>

lemma last_calls_drop:
  fixes ds :: "cap_data list" and v :: "32 word" and rest :: prog
  defines "lst \<equiv> \<lparr>effective = net_caps, permitted = net_caps, inheritable = 0\<rparr> # ds"
  defines "tail \<equiv> Call (Setgid 1001) (\<lambda>_. Call (Setuid 1001) (\<lambda>_. Call (Capset v lst) (\<lambda>_. rest)))"
  assumes "keeps_rules k cr" and "granted L" and "bit (eff (cr t)) CAP_SETUID"
    and "fst x \<noteq> Setgid 1001" and "fst x \<noteq> Setuid 1001" and "\<And>v ds. fst x \<noteq> Capset v ds"
    and "x \<in> set (run tail k t)" and "set (run tail k t) \<subseteq> L"
  shows "\<exists>t. x \<in> set (run rest k t) \<and> set (run rest k t) \<subseteq> L \<and>
    ruid (cr t) = 1001 \<and> euid (cr t) = 1001 \<and> suid (cr t) = 1001 \<and> eff (cr t) = net_caps \<and> perm (cr t) = net_caps \<and> inh (cr t) = 0"
proof -
  let ?s = "Call (Setuid 1001) (\<lambda>_. Call (Capset v lst) (\<lambda>_. rest))"
  from run_later[OF assms(9)[unfolded tail_def] assms(6) assms(10)[unfolded tail_def]] obtain r6 t6 where
      6: "k (Setgid 1001) t = Some (r6, t6)" "x \<in> set (run ?s k t6)" "set (run ?s k t6) \<subseteq> L" by blast
  have e6: "cr t6 = cr t" using assms(3) 6(1) unfolding keeps_rules_def by blast
  let ?s = "Call (Capset v lst) (\<lambda>_. rest)"
  from run_later[OF 6(2) assms(7) 6(3)] obtain r7 t7 where 7: "k (Setuid 1001) t6 = Some (r7, t7)" "(Setuid 1001, t6, Some r7) \<in> L"
      "x \<in> set (run ?s k t7)" "set (run ?s k t7) \<subseteq> L" by blast
  have r7: "r7 \<noteq> -1" by (rule granted_not[OF assms(4) 7(2)]) simp
  have e7: "ruid (cr t7) = 1001 \<and> euid (cr t7) = 1001 \<and> suid (cr t7) = 1001"
    using assms(3,5) 7(1) r7 e6 unfolding keeps_rules_def by metis
  from run_later[OF 7(3) assms(8) 7(4)] obtain r8 t8 where 8: "k (Capset v lst) t7 = Some (r8, t8)"
      "(Capset v lst, t7, Some r8) \<in> L" "x \<in> set (run rest k t8)" "set (run rest k t8) \<subseteq> L" by blast
  have r8: "r8 \<noteq> -1" by (rule granted_not[OF assms(4) 8(2)]) simp
  have "cr t8 = (cr t7)\<lparr>eff := net_caps, perm := net_caps, inh := 0\<rparr>"
    using assms(3) 8(1) r8 by (simp add: keeps_rules_def lst_def)
  with 8(3,4) e7 show ?thesis by fastforce
qed

lemma set_process_env_drops:
  assumes "keeps_rules k cr" and "x \<in> set (run (set_process_env m1 m2 v rest) k s0)"
    and "fst x \<notin> {Setsid, Set_name ''test_su_child'', Capget, Set_keepcaps 1, Setgid 1001, Setuid 1001}"
    and "\<And>v ds. fst x \<noteq> Capset v ds"
    and "granted (set (run (set_process_env m1 m2 v rest) k s0))"
  shows "\<exists>t. x \<in> set (run rest k t) \<and> set (run rest k t) \<subseteq> set (run (set_process_env m1 m2 v rest) k s0) \<and>
    ruid (cr t) = 1001 \<and> euid (cr t) = 1001 \<and> suid (cr t) = 1001 \<and> eff (cr t) = net_caps \<and> perm (cr t) = net_caps \<and> inh (cr t) = 0"
proof -
  obtain v' n where v: "version_size v = (v', Suc n)" using version_size_some by blast
  define last where "last = \<lparr>effective = net_caps, permitted = net_caps, inheritable = 0\<rparr> # replicate n no_caps"
  define first where "first = \<lparr>effective = first_caps, permitted = first_caps, inheritable = first_caps\<rparr> # replicate n no_caps"
  define tail where "tail = Call (Setgid 1001) (\<lambda>_. Call (Setuid 1001) (\<lambda>_. Call (Capset v' last) (\<lambda>_. rest)))"
  define caps where "caps = Call (Capset v' first) (\<lambda>r. if r = -1 then tail else Call (Set_keepcaps 1) (\<lambda>_. tail))"
  define body where "body = (if \<not> m1 then Crash Null_deref else Call Capget (\<lambda>_. if \<not> m2 then Crash Null_deref else caps))"
  have p: "set_process_env m1 m2 v rest = Call Setsid (\<lambda>_. Call (Set_name ''test_su_child'') (\<lambda>_. body))"
    by (simp add: set_process_env_def v Let_def caps_def tail_def first_def last_def body_def cong: if_cong)
  define L where "L = set (run (set_process_env m1 m2 v rest) k s0)"
  have g: "granted L" using assms(5) by (simp add: L_def)
  have nc: "fst x \<noteq> Setsid" "fst x \<noteq> Set_name ''test_su_child''" "fst x \<noteq> Capget" "fst x \<noteq> Set_keepcaps 1"
      "fst x \<noteq> Setgid 1001" "fst x \<noteq> Setuid 1001"
    using assms(3) by simp_all
  have "set (run (set_process_env m1 m2 v rest) k s0) \<subseteq> L" by (simp add: L_def)
  from run_later[OF assms(2)[unfolded p] nc(1) this[unfolded p]]
  obtain t1 where "x \<in> set (run (Call (Set_name ''test_su_child'') (\<lambda>_. body)) k t1)"
      "set (run (Call (Set_name ''test_su_child'') (\<lambda>_. body)) k t1) \<subseteq> L" by blast
  from run_later[OF this(1) nc(2) this(2)] obtain t2 where 2: "x \<in> set (run body k t2)" "set (run body k t2) \<subseteq> L" by blast
  then have m1 by (cases m1) (simp_all add: body_def)
  then have "body = Call Capget (\<lambda>_. if \<not> m2 then Crash Null_deref else caps)" by (simp add: body_def)
  from run_later[OF 2(1)[unfolded this] nc(3) 2(2)[unfolded this]]
  obtain t3 where 3: "x \<in> set (run (if \<not> m2 then Crash Null_deref else caps) k t3)"
      "set (run (if \<not> m2 then Crash Null_deref else caps) k t3) \<subseteq> L" by blast
  then have m2 by (cases m2) simp_all
  with 3 have 3: "x \<in> set (run caps k t3)" "set (run caps k t3) \<subseteq> L" by simp_all
  from run_later[OF 3(1)[unfolded caps_def] assms(4) 3(2)[unfolded caps_def]] obtain r4 t4 where
      4: "k (Capset v' first) t3 = Some (r4, t4)" "(Capset v' first, t3, Some r4) \<in> L"
      "x \<in> set (run (if r4 = -1 then tail else Call (Set_keepcaps 1) (\<lambda>_. tail)) k t4)"
      "set (run (if r4 = -1 then tail else Call (Set_keepcaps 1) (\<lambda>_. tail)) k t4) \<subseteq> L" by blast
  have r4: "r4 \<noteq> -1" by (rule granted_not[OF g 4(2)]) simp
  have e4: "eff (cr t4) = first_caps" using assms(1) 4(1) r4 by (simp add: keeps_rules_def first_def)
  have "x \<in> set (run (Call (Set_keepcaps 1) (\<lambda>_. tail)) k t4)" "set (run (Call (Set_keepcaps 1) (\<lambda>_. tail)) k t4) \<subseteq> L"
    using 4(3,4) unfolding if_not_P[OF r4] .
  from run_later[OF this(1) nc(4) this(2)] obtain r5 t5 where
      5: "k (Set_keepcaps 1) t4 = Some (r5, t5)" "x \<in> set (run tail k t5)" "set (run tail k t5) \<subseteq> L" by blast
  have e5: "cr t5 = cr t4" using assms(1) 5(1) unfolding keeps_rules_def by blast
  have "bit (eff (cr t5)) CAP_SETUID" using e4 e5 setuid_not_kept(2) by simp
  from last_calls_drop[OF assms(1) g this nc(5,6) assms(4) 5(2)[unfolded tail_def last_def] 5(3)[unfolded tail_def last_def]]
  show ?thesis unfolding L_def .
qed

text \<open>
  C11.  When setuid and the two calls of capset succeed, the program is run by the user 1001 with the three
  capabilities for the network and none to inherit, the attempt to become root again has failed, and both allocations were made.
\<close>

theorem child_runs_without_root:
  assumes "keeps_rules k cr" and "(System f, s, r) \<in> set (run (child_process rfd wfd m1 m2 v) k s0)"
    and "granted (set (run (child_process rfd wfd m1 m2 v) k s0))"
  shows "ruid (cr s) = 1001 \<and> euid (cr s) = 1001 \<and> suid (cr s) = 1001 \<and>
    eff (cr s) = net_caps \<and> perm (cr s) = net_caps \<and> inh (cr s) = 0 \<and>
    (\<exists>t. (Setuid 0, t, Some (-1)) \<in> set (run (child_process rfd wfd m1 m2 v) k s0))"
proof -
  let ?L = "set (run (child_process rfd wfd m1 m2 v) k s0)"
  let ?x = "(System f, s, r)"
  define after where "after = Call (System ''my_exe &'') (\<lambda>_. Call (Execvp ''my_exe'') (\<lambda>_. Call (Close rfd) (\<lambda>_. Call (Exit_process 0) (\<lambda>_. Halt))))"
  obtain t where t: "?x \<in> set (run (Call (Close wfd) (\<lambda>_. Call (Setuid 0) (\<lambda>_. after))) k t)"
      "set (run (Call (Close wfd) (\<lambda>_. Call (Setuid 0) (\<lambda>_. after))) k t) \<subseteq> ?L"
    and c: "ruid (cr t) = 1001" "euid (cr t) = 1001" "suid (cr t) = 1001" "eff (cr t) = net_caps" "perm (cr t) = net_caps" "inh (cr t) = 0"
    using set_process_env_drops[OF assms(1) assms(2)[unfolded child_process_def] _ _ assms(3)[unfolded child_process_def]]
    unfolding child_process_def after_def by auto
  from run_later[OF t(1) _ t(2)] obtain r1 t1 where 1: "k (Close wfd) t = Some (r1, t1)" "?x \<in> set (run (Call (Setuid 0) (\<lambda>_. after)) k t1)"
      "set (run (Call (Setuid 0) (\<lambda>_. after)) k t1) \<subseteq> ?L" by auto
  have e1: "cr t1 = cr t" using assms(1) 1(1) unfolding keeps_rules_def by blast
  from run_later[OF 1(2) _ 1(3)] obtain r2 t2 where 2: "k (Setuid 0) t1 = Some (r2, t2)" "(Setuid 0, t1, Some r2) \<in> ?L"
      "?x \<in> set (run after k t2)" by auto
  have r2: "r2 = -1"
  proof (rule ccontr)
    assume "r2 \<noteq> -1"
    with assms(1) 2(1) have "if bit (eff (cr t1)) CAP_SETUID then ruid (cr t2) = 0 \<and> euid (cr t2) = 0 \<and> suid (cr t2) = 0
        else 0 \<in> {ruid (cr t1), suid (cr t1)}" unfolding keeps_rules_def by blast
    with e1 c setuid_not_kept(1) show False by simp
  qed
  with assms(1) 2(1) have "cr t2 = cr t1" unfolding keeps_rules_def by blast
  moreover have "?x \<notin> set (run (Call (Execvp ''my_exe'') (\<lambda>_. Call (Close rfd) (\<lambda>_. Call (Exit_process 0) (\<lambda>_. Halt)))) k u)" for u
    by (simp split: option.split)
  then have "s = t2" using 2(3) by (simp add: after_def del: run.simps(3)) (auto simp: run.simps(3)[of "System ''my_exe &''"] split: option.split_asm)
  ultimately show ?thesis using c e1 2(2) r2 by auto
qed

text \<open>A kernel that keeps the rules, on the credentials themselves.\<close>

fun sample_kernel :: "creds kernel" where
  "sample_kernel (Capset v (d # ds)) s =
     (if permitted d AND NOT (perm s) = 0 then Some (0, s\<lparr>eff := effective d, perm := permitted d, inh := inheritable d\<rparr>)
      else Some (-1, s))"
| "sample_kernel (Setuid u) s =
     (if bit (eff s) CAP_SETUID then Some (0, s\<lparr>ruid := u, euid := u, suid := u\<rparr>)
      else if u = ruid s \<or> u = suid s then Some (0, s\<lparr>euid := u\<rparr>) else Some (-1, s))"
| "sample_kernel (Exit_process n) s = None"
| "sample_kernel _ s = Some (0, s)"

definition root :: creds where
  "root = \<lparr>ruid = 0, euid = 0, suid = 0, eff = -1, perm = -1, inh = 0\<rparr>"

lemma sample_kernel_rules: "keeps_rules sample_kernel id"
  by (auto simp: keeps_rules_def split: if_splits)

lemma sample_run:
  "granted (set (run (child_process 3 4 True True 0x20080522) sample_kernel root))"
  "\<exists>s r. (System ''my_exe &'', s, r) \<in> set (run (child_process 3 4 True True 0x20080522) sample_kernel root)"
proof -
  have c: "first_caps AND NOT (-1) = 0" "net_caps AND NOT first_caps = 0" 
    by (simp_all add: first_caps_def net_caps_def cap_def CAP_SETUID_def CAP_SETGID_def CAP_NET_BIND_SERVICE_def CAP_NET_ADMIN_def CAP_NET_RAW_def)
  show "granted (set (run (child_process 3 4 True True 0x20080522) sample_kernel root))"
    using c setuid_not_kept
    by (simp add: granted_def child_process_def set_process_env_def version_size_def Let_def root_def numeral_2_eq_2)
  show "\<exists>s r. (System ''my_exe &'', s, r) \<in> set (run (child_process 3 4 True True 0x20080522) sample_kernel root)"
    using c setuid_not_kept
    by (simp add: child_process_def set_process_env_def version_size_def Let_def root_def numeral_2_eq_2)
qed

theorem child_runs_without_root_witness:
  "\<exists>s r. (System ''my_exe &'', s, r) \<in> set (run (child_process 3 4 True True 0x20080522) sample_kernel root) \<and>
     euid s = 1001 \<and> perm s = net_caps"
proof -
  obtain s r where x: "(System ''my_exe &'', s, r) \<in> set (run (child_process 3 4 True True 0x20080522) sample_kernel root)"
    using sample_run(2) by blast
  from child_runs_without_root[OF sample_kernel_rules this sample_run(1)] x show ?thesis by auto
qed

text \<open>
  Nothing depends on the answers: with a kernel that refuses capset, setgid and setuid the program is run all the
  same, with the credentials of the start.
\<close>

definition refusing_kernel :: "creds kernel" where
  "refusing_kernel c s =
     (case c of Capset v ds \<Rightarrow> Some (-1, s) | Setgid n \<Rightarrow> Some (-1, s) | Setuid n \<Rightarrow> Some (-1, s)
      | Exit_process n \<Rightarrow> None | _ \<Rightarrow> Some (0, s))"

lemma refused_but_run:
  "(System ''my_exe &'', s, Some 0) \<in> set (run (child_process rfd wfd True True v) refusing_kernel s)"
  by (simp add: child_process_def set_process_env_def refusing_kernel_def Let_def split: prod.splits)

text \<open>The messages of the parent fit in its buffer, and there are eleven of them, only the last of which announces the end.\<close>

lemma printf_d_length: "\<bar>i\<bar> < 10 ^ 10 \<Longrightarrow> length (printf_d i) \<le> 11"
proof -
  assume "\<bar>i\<bar> < 10 ^ 10"
  then have "length (dec_digits (nat \<bar>i\<bar>)) \<le> 10" by (intro dec_digits_length) simp_all
  then show ?thesis by (cases "i < 0") (simp_all add: printf_d_def)
qed

lemma message_fits:
  assumes "i \<le> 10" and "\<bar>pid\<bar> < 10 ^ 10" and "\<bar>uid\<bar> < 10 ^ 10" and "\<bar>gid\<bar> < 10 ^ 10"
  shows "length (message i pid uid gid) < 1024"
  using printf_d_length[OF assms(2)] printf_d_length[OF assms(3)] printf_d_length[OF assms(4)] printf_d_length[of "int i"]
    printf_d_length[of "0"] printf_d_length[of "1"] assms(1) by (auto simp: message_def ascii_def)

lemma messages_sent:
  assumes "\<And>c s. k c s = Some (0, s)"
  shows "run (send_messages n i pid uid gid wfd Halt) k s = map (\<lambda>i. (Write wfd (message i pid uid gid), s, Some 0)) [i..<i + n]"
proof (induction n arbitrary: i)
  case (Suc n)
  have "[i..<i + Suc n] = i # [Suc i..<Suc i + n]" by (simp add: upt_conv_Cons)
  with Suc[of "i + 1"] assms show ?case by simp
qed simp

end
