(* ===== verification/System_Reads.thy ===== *)
theory System_Reads
  imports Numbers
begin

text \<open>
  What the smaller programs make of the answers of the system: random numbers from a seed (Random/random.c, the same
  as Storage/libs/random.c), the clocks (Storage/libs/time.c, Time/time_demo.c), memory and file systems
  (sys/sys.c), the flags of a file (file/fcntl.c) and a setting in the registry of Windows
  (Network/windowGetInterfaceName.c).  The answers are arguments.
\<close>

section \<open>A random number from a seed\<close>

text \<open>What read on the random device returns; \<open>None\<close> when it is interrupted for ever.\<close>

datatype read_result = Interrupted | Failed | Got "byte list"

fun read_seed :: "read_result list \<Rightarrow> mem \<Rightarrow> mem option" where
  "read_seed [] seed = None"
| "read_seed (Interrupted # rs) seed = read_seed rs seed"
| "read_seed (Failed # rs) seed = Some seed"
| "read_seed (Got bs # rs) seed = Some (take 4 bs @ drop (length (take 4 bs)) seed)"

text \<open>The four bytes as an int, the least significant one first.\<close>

definition seed_int :: "mem \<Rightarrow> uint" where
  "seed_int m = ucast (m ! 0) OR push_bit 8 (ucast (m ! 1)) OR push_bit 16 (ucast (m ! 2)) OR push_bit 24 (ucast (m ! 3))"

text \<open>\<open>rnd s\<close> is the first result of rand after srand of \<open>s\<close>; the sum is formed as a long and stored in an int.\<close>

definition random_int :: "(uint \<Rightarrow> uint) \<Rightarrow> bool \<Rightarrow> read_result list \<Rightarrow> 64 word \<Rightarrow> 64 word \<Rightarrow> uint option" where
  "random_int rnd opened rs pid now =
     (case (if opened then read_seed rs [0, 0, 0, 0] else Some [0, 0, 0, 0]) of
        None \<Rightarrow> None
      | Some m \<Rightarrow> Some (rnd (ucast (scast (seed_int m) + (pid + now)))))"

definition random_main :: "(uint \<Rightarrow> uint) \<Rightarrow> bool \<Rightarrow> read_result list \<Rightarrow> 64 word \<Rightarrow> 64 word \<Rightarrow> uint option" where
  "random_main rnd opened rs pid now = map_option (\<lambda>n. random_rang n 100 119) (random_int rnd opened rs pid now)"

text \<open>The function of Storage/libs/random.c: no number is drawn for an empty range.\<close>

definition lib_random_rang :: "(uint \<Rightarrow> uint) \<Rightarrow> bool \<Rightarrow> read_result list \<Rightarrow> 64 word \<Rightarrow> 64 word \<Rightarrow> uint \<Rightarrow> uint \<Rightarrow> uint option" where
  "lib_random_rang rnd opened rs pid now start stop =
     (let mod_val = stop - start in
      if mod_val \<le> 0 then Some (- 1)
      else map_option (\<lambda>number. number mod mod_val + start) (random_int rnd opened rs pid now))"

text \<open>Interrupted reads are repeated; the call returns as soon as one is not interrupted.\<close>

lemma read_seed_retries: "read_seed (replicate n Interrupted @ rs) m = read_seed rs m"
  by (induction n) simp_all

lemma read_seed_returns: "read_seed rs m = None \<longleftrightarrow> (\<forall>r\<in>set rs. r = Interrupted)"
  by (induction rs m rule: read_seed.induct) auto

text \<open>
  Every call seeds anew: when the device cannot be opened or read, two calls of a process in the same second
  give the same number.
\<close>

lemma random_int_repeats:
  "random_int rnd False rs pid now = Some (rnd (ucast (pid + now)))"
  "random_int rnd True (Failed # rs) pid now = Some (rnd (ucast (pid + now)))"
  by (simp_all add: random_int_def seed_int_def)

section \<open>Clocks\<close>

definition time_nsec :: "64 word \<Rightarrow> 64 word \<Rightarrow> 64 word" where
  "time_nsec sec nsec = sec * 1000000000 + nsec"

text \<open>
  As long as the seconds fit (for 584 years) the result is the number of nanoseconds, and later times have
  larger numbers.
\<close>

lemma time_nsec_value:
  assumes "unat sec < 18446744073" and "unat nsec < 1000000000"
  shows "unat (time_nsec sec nsec) = unat sec * 1000000000 + unat nsec"
proof -
  have "unat sec * 1000000000 < 2 ^ LENGTH(64)" using assms(1) by simp
  then have m: "unat (sec * 1000000000) = unat sec * 1000000000"
    by (simp add: unat_mult_lem[THEN iffD1])
  have "unat sec * 1000000000 + unat nsec < 2 ^ LENGTH(64)" using assms by simp
  with m have "unat (sec * 1000000000) + unat nsec < 2 ^ LENGTH(64)" by simp
  then have "unat (sec * 1000000000 + nsec) = unat (sec * 1000000000) + unat nsec" by (rule unat_add_lem[THEN iffD1])
  with m show ?thesis by (simp add: time_nsec_def)
qed

theorem time_nsec_orders:
  assumes "unat s1 < 18446744073" and "unat n1 < 1000000000" and "unat s2 < 18446744073" and "unat n2 < 1000000000"
  shows "time_nsec s1 n1 < time_nsec s2 n2 \<longleftrightarrow> s1 < s2 \<or> s1 = s2 \<and> n1 < n2"
proof -
  have "time_nsec s1 n1 < time_nsec s2 n2 \<longleftrightarrow> unat s1 * 1000000000 + unat n1 < unat s2 * 1000000000 + unat n2"
    by (simp only: word_less_nat_alt time_nsec_value[OF assms(1,2)] time_nsec_value[OF assms(3,4)])
  also have "\<dots> \<longleftrightarrow> unat s1 < unat s2 \<or> unat s1 = unat s2 \<and> unat n1 < unat n2" using assms(2,4) by linarith
  finally show ?thesis by (simp add: word_less_nat_alt word_unat_eq_iff)
qed

theorem time_nsec_orders_witness: "time_nsec 7 999999999 < time_nsec 8 0"
  using time_nsec_orders[of 7 999999999 8 0] by simp

text \<open>
  \<open>struct timespec\<close> in the order of times: by the seconds and then by the nanoseconds.  On normalised times below the
  bound the clock is strictly increasing, so what is measured between two calls has the order of the times.
\<close>

datatype timespec = Timespec (tv_sec: "64 word") (tv_nsec: "64 word")

instantiation timespec :: linorder
begin

definition less_eq_timespec :: "timespec \<Rightarrow> timespec \<Rightarrow> bool" where
  "s \<le> t \<longleftrightarrow> tv_sec s < tv_sec t \<or> tv_sec s = tv_sec t \<and> tv_nsec s \<le> tv_nsec t"

definition less_timespec :: "timespec \<Rightarrow> timespec \<Rightarrow> bool" where
  "s < t \<longleftrightarrow> tv_sec s < tv_sec t \<or> tv_sec s = tv_sec t \<and> tv_nsec s < tv_nsec t"

instance
  by standard (auto simp: less_eq_timespec_def less_timespec_def timespec.expand)

end

definition clock_value :: "timespec \<Rightarrow> 64 word" where
  "clock_value t = time_nsec (tv_sec t) (tv_nsec t)"

definition normalised :: "timespec set" where
  "normalised = {t. unat (tv_sec t) < 18446744073 \<and> unat (tv_nsec t) < 1000000000}"

lemma clock_value_increasing: "strict_mono_on normalised clock_value"
  by (rule strict_mono_onI) (simp add: normalised_def clock_value_def less_timespec_def time_nsec_orders)

lemma clock_value_order: "s \<in> normalised \<Longrightarrow> t \<in> normalised \<Longrightarrow> clock_value s \<le> clock_value t \<longleftrightarrow> s \<le> t"
  using strict_mono_on_leD[OF clock_value_increasing, of s t] strict_mono_on_leD[OF clock_value_increasing, of t s]
    strict_mono_onD[OF clock_value_increasing, of t s] by (metis leD linorder_le_cases linorder_le_less_linear)

text \<open>The last of several readings is the largest number.\<close>

lemma latest_reading:
  assumes "ts \<noteq> []" and "set ts \<subseteq> normalised"
  shows "clock_value (Max (set ts)) = Max (clock_value ` set ts)"
proof -
  have "Max (set ts) \<in> set ts" using assms(1) by (intro Max_in) simp_all
  moreover have "clock_value t \<le> clock_value (Max (set ts))" if "t \<in> set ts" for t
    using that calculation assms(2) clock_value_order[of t "Max (set ts)"] by auto
  ultimately show ?thesis by (intro Max_eqI[symmetric]) auto
qed

text \<open>The time since the start in days, hours, minutes and seconds, and the two ways to print the time of day.\<close>

definition up_time :: "uint \<Rightarrow> uint \<times> uint \<times> uint \<times> uint" where
  "up_time seconds =
     (let day = seconds div 86400; seconds = seconds mod 86400; hour = seconds div 3600; seconds = seconds mod 3600
      in (day, hour, seconds div 60, seconds mod 60))"

definition printed_times :: "int \<Rightarrow> int \<Rightarrow> int \<times> int \<times> int" where
  "printed_times sec usec = (sec, sec + usec div 1000, sec * 1000000 + usec)"

text \<open>The parts are in their ranges and make up the time; no part is negative as an int.\<close>

theorem up_time_parts:
  "case up_time s of (d, h, m, sec) \<Rightarrow>
     unat d * 86400 + unat h * 3600 + unat m * 60 + unat sec = unat s \<and> unat h < 24 \<and> unat m < 60 \<and> unat sec < 60 \<and>
     unat d < 49711"
proof -
  have "unat s < 2 ^ LENGTH(32)" by (rule unsigned_less)
  moreover define n where "n = unat s"
  ultimately have n: "n < 4294967296" by simp
  have 1: "n div 86400 * 86400 + n mod 86400 = n" and 2: "n mod 86400 div 3600 * 3600 + n mod 86400 mod 3600 = n mod 86400"
    and 3: "n mod 86400 mod 3600 div 60 * 60 + n mod 86400 mod 3600 mod 60 = n mod 86400 mod 3600"
    by (simp_all only: div_mult_mod_eq)
  have "n mod 86400 < 86400" "n mod 86400 mod 3600 < 3600" "n mod 86400 mod 3600 mod 60 < 60" by simp_all
  then have r: "n mod 86400 div 3600 < 24" "n mod 86400 mod 3600 div 60 < 60" "n mod 86400 mod 3600 mod 60 < 60" "n div 86400 < 49711"
    using n by (simp_all add: less_mult_imp_div_less)
  show ?thesis using r 1 2 3 by (simp add: up_time_def Let_def unat_div unat_mod flip: n_def)
qed

section \<open>Memory and file systems\<close>

text \<open>What sysinfo stores, \<open>None\<close> when it fails.\<close>

record sysinfo =
  uptime :: "64 word"
  totalram :: "64 word"
  freeram :: "64 word"

definition sysUpTime :: "sysinfo option \<Rightarrow> 64 word" where
  "sysUpTime i = (case i of None \<Rightarrow> -1 | Some i \<Rightarrow> uptime i)"

definition getTotalMem :: "sysinfo option \<Rightarrow> 64 word" where
  "getTotalMem i = (case i of None \<Rightarrow> -1 | Some i \<Rightarrow> totalram i)"

definition getFreeMem :: "sysinfo option \<Rightarrow> 64 word" where
  "getFreeMem i = (case i of None \<Rightarrow> -1 | Some i \<Rightarrow> freeram i)"

text \<open>
  \<open>nulls\<close>: whether one of the three pointers is null.  What statfs stores is the size of a block and the
  numbers of blocks and free blocks; when it fails the structure is not set.
\<close>

definition getFSCapacity :: "bool \<Rightarrow> (64 word \<times> 64 word \<times> 64 word) option \<Rightarrow> (int \<times> (64 word \<times> 64 word) option) c" where
  "getFSCapacity nulls st =
     (if nulls then Inr (-1, None)
      else case st of None \<Rightarrow> Inl Uninit
      | Some (bsize, blocks, bfree) \<Rightarrow> Inr (0, Some (bsize * blocks, bsize * bfree)))"

lemma getFSCapacity_bytes:
  assumes "unat bsize * unat blocks < 2 ^ LENGTH(64)" and "bfree \<le> blocks"
  shows "\<exists>t f. getFSCapacity False (Some (bsize, blocks, bfree)) = Inr (0, Some (t, f)) \<and>
    unat t = unat bsize * unat blocks \<and> unat f = unat bsize * unat bfree \<and> f \<le> t"
proof -
  have le: "unat bsize * unat bfree \<le> unat bsize * unat blocks" using assms(2) by (simp add: word_le_nat_alt)
  have "unat (bsize * blocks) = unat bsize * unat blocks" by (rule unat_mult_lem[THEN iffD1, OF assms(1)])
  moreover have "unat (bsize * bfree) = unat bsize * unat bfree"
    using le assms(1) by (intro unat_mult_lem[THEN iffD1]) linarith
  ultimately show ?thesis using le by (simp add: getFSCapacity_def word_le_nat_alt)
qed

section \<open>The flags of a file\<close>

text \<open>
  What fcntl answers for F_GETFL and for F_SETFL; the result is the argument of the second call and whether each of them is
  reported as failed.  The flags are taken from the answer also when it is an error.
\<close>

definition set_fl :: "32 word \<Rightarrow> (32 word \<Rightarrow> 32 word) \<Rightarrow> 32 word \<Rightarrow> 32 word \<times> bool \<times> bool" where
  "set_fl got set_answer flag = (got OR flag, got <s 0, set_answer (got OR flag) <s 0)"

definition O_SYNC :: "32 word" where "O_SYNC = 0x101000"

definition fcntl_main :: "bool \<Rightarrow> 32 word \<Rightarrow> (32 word \<Rightarrow> 32 word) \<Rightarrow> (32 word \<times> bool \<times> bool) option" where
  "fcntl_main opened got set_answer = (if \<not> opened then None else Some (set_fl got set_answer O_SYNC))"

lemma set_fl_adds: "fst (set_fl got a flag) AND flag = flag" "fst (set_fl got a flag) AND got = got"
  by (rule bit_word_eqI; auto simp: set_fl_def bit_and_iff bit_or_iff)+

text \<open>When the flags cannot be read every flag is set.\<close>

lemma set_fl_failed: "fst (set_fl (- 1) a flag) = - 1"
  by (simp add: set_fl_def)

section \<open>A setting in the registry\<close>

datatype reg_type = REG_SZ | REG_MULTI_SZ | Other_type

text \<open>
  isFactoryDefaultIp for the name of an adapter: whether the name can be converted to wide characters and the
  key can be opened, the value found for IpAddress with its type, and the conversion of it to bytes.  The
  result is the answer and whether the key is closed.
\<close>

definition isFactoryDefaultIp :: "byte list option \<Rightarrow> (byte list \<Rightarrow> 16 word list option) \<Rightarrow> (16 word list \<Rightarrow> bool) \<Rightarrow>
    (reg_type \<times> 16 word list) option \<Rightarrow> (16 word list \<Rightarrow> byte list option) \<Rightarrow> int \<times> bool" where
  "isFactoryDefaultIp adapterName to_wide opens query to_bytes =
     (case adapterName of None \<Rightarrow> (0, True)
      | Some nm \<Rightarrow>
        case to_wide nm of None \<Rightarrow> (0, True)
        | Some w \<Rightarrow>
          if \<not> opens (map ucast (ascii ''Comm'' @ [92]) @ w @ map ucast ([92] @ ascii ''Parms'' @ [92] @ ascii ''TCPIP'')) then (0, True)
          else case query of None \<Rightarrow> (0, True)
          | Some (ty, tmp) \<Rightarrow>
            if ty = REG_SZ \<or> ty = REG_MULTI_SZ then
              if tmp ! 0 \<noteq> 0 then
                case to_bytes tmp of None \<Rightarrow> (0, False)
                | Some ip \<Rightarrow> if ip = ascii ''192.168.1.168'' then (1, True) else (0, True)
              else (0, True)
            else (0, True))"

text \<open>
  The answer is 1 exactly when the value is a text that reads 192.168.1.168; the key stays open exactly
  when the text cannot be converted.
\<close>

lemma isFactoryDefaultIp_iff:
  "fst (isFactoryDefaultIp (Some nm) (\<lambda>_. Some w) (\<lambda>_. True) (Some (ty, tmp)) to_bytes) = 1 \<longleftrightarrow>
     ty \<noteq> Other_type \<and> tmp ! 0 \<noteq> 0 \<and> to_bytes tmp = Some (ascii ''192.168.1.168'')"
  "snd (isFactoryDefaultIp (Some nm) (\<lambda>_. Some w) (\<lambda>_. True) (Some (ty, tmp)) to_bytes) \<longleftrightarrow>
     \<not> (ty \<noteq> Other_type \<and> tmp ! 0 \<noteq> 0 \<and> to_bytes tmp = None)"
  by (cases ty; auto simp: isFactoryDefaultIp_def split: option.split)+

end
