(* ===== verification/Exercises.thy ===== *)
theory Exercises
  imports C_Prelude "HOL-Library.Multiset"
begin

text \<open>
  The small programs: an array of three levels (Practice/array.c), a function that changes an array
  (Practice/arrayArguTest.c), the order of bytes (Practice/byteorder.c), three variables of one name in three files
  (model/), a loop over the keys (sys/Stty/stty.c) and a password whose comparison can be replaced
  (gcc/ld_preload/pwdtest.c and hackpwdtest.c).
\<close>

section \<open>An array of three levels\<close>

definition size1 :: nat where "size1 = 5"
definition size2 :: nat where "size2 = 10"
definition size3 :: nat where "size3 = 15"

datatype arr_line = Level1_failed | Level2_failed | Level3_failed | Product nat nat nat nat

text \<open>
  \<open>m n\<close> is the address the call number \<open>n\<close> of malloc returns, 0 for a failure: first the outer array, then
  for each \<open>i\<close> the array of pointers and its arrays of numbers.  \<open>old i j\<close> is what \<open>arr[i][j]\<close> holds before it is
  set; the program tests it for null before the allocation.  The state of the loop over \<open>j\<close> is the row and the lines.
\<close>

definition row_call :: "nat \<Rightarrow> nat" where "row_call i = 1 + i * (size2 + 1)"
definition cell_call :: "nat \<Rightarrow> nat \<Rightarrow> nat" where "cell_call i j = row_call i + 1 + j"

fun alloc_cells :: "(nat \<Rightarrow> nat) \<Rightarrow> (nat \<Rightarrow> nat) \<Rightarrow> nat \<Rightarrow> nat \<Rightarrow> nat \<Rightarrow> nat list \<times> arr_line list" where
  "alloc_cells m old i j 0 = ([], [])"
| "alloc_cells m old i j (Suc n) =
     (let (ps, ls) = alloc_cells m old i (j + 1) n
      in (m (cell_call i j) # ps, (if old j = 0 then [Level3_failed] else []) @ ls))"

fun alloc_rows :: "(nat \<Rightarrow> nat) \<Rightarrow> (nat \<Rightarrow> nat \<Rightarrow> nat) \<Rightarrow> nat \<Rightarrow> nat \<Rightarrow> ((nat \<times> nat list) list \<times> arr_line list) c" where
  "alloc_rows m old i 0 = Inr ([], [])"
| "alloc_rows m old i (Suc n) =
     (if m (row_call i) = 0 then Inl Null_deref
      else let (ps, ls) = alloc_cells m (old i) i 0 size2
           in cbind (alloc_rows m old (i + 1) n) (\<lambda>(rows, ls'). Inr ((m (row_call i), ps) # rows, ls @ ls')))"

text \<open>The three loops that fill the array and print it; writing through a null pointer faults.\<close>

definition products :: "arr_line list" where
  "products = concat (map (\<lambda>i. concat (map (\<lambda>j. map (\<lambda>k. Product i j k (i * j * k)) [0..<size3]) [0..<size2])) [0..<size1])"

definition freed :: "nat \<Rightarrow> (nat \<times> nat list) list \<Rightarrow> nat list" where
  "freed arr rows = concat (map (\<lambda>(p, ps). ps @ [p]) rows) @ [arr]"

text \<open>The result is what is printed and the addresses given to free, in order.\<close>

definition array_main :: "(nat \<Rightarrow> nat) \<Rightarrow> (nat \<Rightarrow> nat \<Rightarrow> nat) \<Rightarrow> (arr_line list \<times> nat list) c" where
  "array_main m old =
     (if m 0 = 0 then Inl Null_deref
      else cbind (alloc_rows m old 0 size1) (\<lambda>(rows, ls).
        if 0 \<in> set (concat (map snd rows)) then Inl Null_deref
        else Inr (ls @ products, freed (m 0) rows)))"

lemma alloc_cells_all: "fst (alloc_cells m old i j n) = map (\<lambda>j. m (cell_call i j)) [j..<j + n]"
proof (induction n arbitrary: j)
  case (Suc n)
  have "[j..<j + Suc n] = j # [Suc j..<Suc j + n]" by (simp add: upt_conv_Cons)
  with Suc[of "j + 1"] show ?case by (simp add: case_prod_beta Let_def)
qed simp

lemma alloc_rows_all:
  "\<forall>n. m n \<noteq> 0 \<Longrightarrow> \<exists>ls. alloc_rows m old i n =
     Inr (map (\<lambda>i. (m (row_call i), map (\<lambda>j. m (cell_call i j)) [0..<size2])) [i..<i + n], ls)"
proof (induction n arbitrary: i)
  case (Suc n)
  have "[i..<i + Suc n] = i # [Suc i..<Suc i + n]" by (simp add: upt_conv_Cons)
  with Suc.IH[of "i + 1"] Suc.prems alloc_cells_all[of m "old i" i 0 size2] show ?case
    by (auto simp: case_prod_beta)
qed simp

lemma mset_calls:
  "mset (concat (map (\<lambda>i. map (\<lambda>j. m (cell_call i j)) [0..<size2] @ [m (row_call i)]) [0..<n])) = mset (map m [1..<1 + n * (size2 + 1)])"
proof (induction n)
  case (Suc n)
  have e: "1 + Suc n * (size2 + 1) = row_call n + (size2 + 1)" by (simp add: row_call_def)
  have "1 \<le> row_call n" by (simp add: row_call_def)
  from upt_add_eq_append[OF this, of "size2 + 1"]
  have "[1..<1 + Suc n * (size2 + 1)] = [1..<1 + n * (size2 + 1)] @ [row_call n..<row_call n + (size2 + 1)]"
    unfolding e by (simp only: row_call_def)
  also have "[row_call n..<row_call n + (size2 + 1)] = row_call n # map (cell_call n) [0..<size2]"
    by (simp add: upt_conv_Cons cell_call_def[abs_def] size2_def)
  finally have "mset (map m [1..<1 + Suc n * (size2 + 1)]) =
      mset (map m [1..<1 + n * (size2 + 1)]) + add_mset (m (row_call n)) (mset (map (\<lambda>j. m (cell_call n j)) [0..<size2]))"
    by (simp only: map_append mset_append list.map mset.simps map_map comp_def)
  moreover define g where "g = (\<lambda>i. map (\<lambda>j. m (cell_call i j)) [0..<size2] @ [m (row_call i)])"
  have "mset (concat (map g [0..<Suc n])) = mset (concat (map g [0..<n])) + mset (g n)" by simp
  moreover have "mset (g n) = add_mset (m (row_call n)) (mset (map (\<lambda>j. m (cell_call n j)) [0..<size2]))" by (simp add: g_def)
  ultimately show ?case using Suc.IH unfolding g_def[symmetric] by metis
qed simp

text \<open>When no allocation fails every block is freed, each as often as malloc has returned its address.\<close>

theorem array_frees_all:
  assumes "\<forall>n. m n \<noteq> 0"
  shows "\<exists>ls fs. array_main m old = Inr (ls @ products, fs) \<and> mset fs = mset (map m [0..<56])"
proof -
  obtain ls where r: "alloc_rows m old 0 size1 =
      Inr (map (\<lambda>i. (m (row_call i), map (\<lambda>j. m (cell_call i j)) [0..<size2])) [0..<size1], ls)" (is "_ = Inr (?rows, ls)")
    using alloc_rows_all[OF assms, of old 0 size1] by auto
  have "0 \<notin> set (concat (map snd ?rows))"
  proof
    assume "0 \<in> set (concat (map snd ?rows))"
    then obtain i j where "m (cell_call i j) = 0" by auto
    then show False using assms by simp
  qed
  with r assms have "array_main m old = Inr (ls @ products, freed (m 0) ?rows)" by (simp add: array_main_def)
  moreover have "mset (freed (m 0) ?rows) = mset (map m [1..<1 + size1 * (size2 + 1)]) + {#m 0#}"
    using mset_calls[of m size1] by (simp add: freed_def comp_def)
  moreover have "[0..<56::nat] = 0 # [1..<56]" using upt_conv_Cons[of 0 56] by (simp only: zero_less_numeral One_nat_def simp_thms)
  ultimately show ?thesis by (auto simp: size1_def size2_def)
qed

theorem array_frees_all_witness:
  "\<exists>ls fs. array_main Suc (\<lambda>_ _. 0) = Inr (ls @ products, fs) \<and> mset fs = mset (map Suc [0..<56])"
  using array_frees_all[of Suc "\<lambda>_ _. 0"] by simp

text \<open>
  The test for a failed allocation comes before the allocation: on memory that happens to be zero it reports
  failures though every call has succeeded, and otherwise it never reports one.
\<close>

lemma alloc_cells_reports: "snd (alloc_cells m (\<lambda>_. 0) i j n) = replicate n Level3_failed"
    "\<forall>j. old j \<noteq> 0 \<Longrightarrow> snd (alloc_cells m old i j n) = []"
  by (induction n arbitrary: j) (simp_all add: case_prod_beta Let_def)

section \<open>An array as an argument\<close>

record R =
  height :: int
  width :: int

definition info :: "R list" where
  "info = [\<lparr>height = 10, width = 10\<rparr>, \<lparr>height = 11, width = 11\<rparr>]"

text \<open>The heights printed and the array afterwards.\<close>

definition testfn2 :: "R list \<Rightarrow> (int list \<times> R list) c" where
  "testfn2 a =
     cbind (rd a 0) (\<lambda>x. cbind (wr a 0 (x\<lparr>height := 113\<rparr>)) (\<lambda>a'.
     cbind (rd a' 0) (\<lambda>y. cbind (rd a' 1) (\<lambda>z. Inr ([height x, height y, height z], a')))))"

lemma testfn2_changes: "2 \<le> length a \<Longrightarrow>
    testfn2 a = Inr ([height (a ! 0), 113, height (a ! 1)], a[0 := (a ! 0)\<lparr>height := 113\<rparr>])"
proof -
  assume "2 \<le> length a"
  then obtain x y zs where "a = x # y # zs" by (metis Suc_le_length_iff numeral_2_eq_2)
  then show ?thesis by (simp add: testfn2_def wr_def rd_def)
qed

section \<open>The order of bytes\<close>

datatype endian = Big_endian | Little_endian | Unknown_endian

definition byteorder_main :: "(16 word \<Rightarrow> byte list) \<Rightarrow> endian" where
  "byteorder_main bytes =
     (let c = bytes 0x0102 in
      if c ! 0 = 1 \<and> c ! 1 = 2 then Big_endian else if c ! 0 = 2 \<and> c ! 1 = 1 then Little_endian else Unknown_endian)"

definition little_bytes :: "16 word \<Rightarrow> byte list" where "little_bytes w = [ucast w, ucast (drop_bit 8 w)]"
definition big_bytes :: "16 word \<Rightarrow> byte list" where "big_bytes w = [ucast (drop_bit 8 w), ucast w]"

lemma byteorder_tells: "byteorder_main little_bytes = Little_endian" "byteorder_main big_bytes = Big_endian"
  by code_simp+

section \<open>Three variables of one name\<close>

text \<open>
  main.c defines zm and model1.c has a tentative definition of the same object; the zm of model2.c is static and
  the one in the body of main hides the others.
\<close>

record zms =
  zm_global :: int
  zm_model2 :: int

definition printVal1 :: "zms \<Rightarrow> int \<times> zms" where
  "printVal1 s = (zm_global s, s\<lparr>zm_global := zm_global s + 1\<rparr>)"

definition printVal2 :: "zms \<Rightarrow> int \<times> zms" where
  "printVal2 s = (zm_model2 s, s\<lparr>zm_model2 := zm_model2 s + 1\<rparr>)"

definition model_main :: "int list" where
  "model_main =
     (let zm = 20; s = \<lparr>zm_global = 120, zm_model2 = 2\<rparr>;
          (a, s) = printVal1 s; (b, s) = printVal1 s; (c, s) = printVal2 s; (d, s) = printVal2 s
      in [a, b, c, d, zm])"

lemma model_main_prints: "model_main = [120, 121, 2, 3, 20]"
  by (simp add: model_main_def printVal1_def printVal2_def Let_def)

section \<open>The keys up to q\<close>

text \<open>
  \<open>keys n\<close> is what call number \<open>n\<close> of getchar returns, -1 at the end; \<open>c\<close> is what the variable holds before it is set.  The
  result is what is printed.
\<close>

partial_function (option) stty_loop :: "(nat \<Rightarrow> int) \<Rightarrow> nat \<Rightarrow> int \<Rightarrow> int list option" where
  "stty_loop keys n c =
     (if c = 113 then Some []
      else Option.bind (stty_loop keys (n + 1) (keys n)) (\<lambda>cs. Some (keys n # cs)))"

text \<open>The loop ends with the first q and prints everything up to it; without one it never ends, also at the end of the input.\<close>

lemma stty_loop_ends:
  "c \<noteq> 113 \<Longrightarrow> keys (n + k) = 113 \<Longrightarrow> \<forall>i<k. keys (n + i) \<noteq> 113 \<Longrightarrow> stty_loop keys n c = Some (map keys [n..<n + k + 1])"
proof (induction k arbitrary: n c)
  case 0
  then show ?case by (subst stty_loop.simps, subst stty_loop.simps) simp
next
  case (Suc k)
  have k0: "keys n \<noteq> 113" using Suc.prems(3) by force
  have "\<forall>i<k. keys (n + 1 + i) \<noteq> 113" using Suc.prems(3) by (metis Suc_less_eq add.assoc plus_1_eq_Suc)
  with Suc.IH[OF k0, of "n + 1"] Suc.prems(2) have "stty_loop keys (n + 1) (keys n) = Some (map keys [n + 1..<n + 1 + k + 1])" by simp
  moreover have "[n..<n + Suc k + 1] = n # [n + 1..<n + 1 + k + 1]" by (simp add: upt_conv_Cons)
  ultimately show ?case using Suc.prems(1) by (subst stty_loop.simps) simp
qed

lemma stty_loop_result: "stty_loop keys n c = Some cs \<Longrightarrow> c = 113 \<or> (\<exists>i\<ge>n. keys i = 113)"
proof (induction rule: stty_loop.raw_induct[rotated, consumes 1, case_names step])
  case (step f keys n c cs)
  show ?case
  proof (cases "c = 113")
    case False
    then obtain cs' where "f keys (n + 1) (keys n) = Some cs'" using step(2) by (auto simp: bind_eq_Some_conv)
    from step(1)[OF this] show ?thesis by (metis add_leD1 order_refl)
  qed simp
qed

theorem stty_ends_iff: "c \<noteq> 113 \<Longrightarrow> (\<exists>cs. stty_loop keys 0 c = Some cs) \<longleftrightarrow> (\<exists>i. keys i = 113)"
proof
  assume c: "c \<noteq> 113" and "\<exists>i. keys i = 113"
  then obtain k where "keys k = 113" "\<forall>i<k. keys i \<noteq> 113" using exists_least_iff[of "\<lambda>i. keys i = 113"] by blast
  then have "keys (0 + k) = 113" "\<forall>i<k. keys (0 + i) \<noteq> 113" by simp_all
  from stty_loop_ends[OF c this] show "\<exists>cs. stty_loop keys 0 c = Some cs" by blast
next
  assume "c \<noteq> 113" and "\<exists>cs. stty_loop keys 0 c = Some cs"
  then show "\<exists>i. keys i = 113" using stty_loop_result by blast
qed

theorem stty_ends_iff_witness: "\<exists>cs. stty_loop (\<lambda>n. if n = 3 then 113 else 97) 0 0 = Some cs"
proof -
  have "\<exists>i::nat. (if i = 3 then 113 else 97 :: int) = 113" by (rule exI[of _ 3]) simp
  with stty_ends_iff[of 0 "\<lambda>n. if n = 3 then 113 else 97"] show ?thesis by simp
qed

section \<open>A password\<close>

datatype verdict = Usage | Correct | Invalid

text \<open>The program, with the strcmp it is linked with.\<close>

definition pwdtest :: "(byte list \<Rightarrow> byte list \<Rightarrow> int) \<Rightarrow> byte list list \<Rightarrow> verdict" where
  "pwdtest strcmp argv =
     (if length argv < 2 then Usage else if strcmp (ascii ''password'') (argv ! 1) = 0 then Correct else Invalid)"

definition hack_strcmp :: "byte list \<Rightarrow> byte list \<Rightarrow> int" where "hack_strcmp s1 s2 = 0"

text \<open>With a strcmp that compares the password is needed; with the preloaded one everything is right.\<close>

lemma pwdtest_compares:
  "(\<And>a b. strcmp a b = 0 \<longleftrightarrow> a = b) \<Longrightarrow> pwdtest strcmp [p, w] = Correct \<longleftrightarrow> w = ascii ''password''"
  "pwdtest hack_strcmp [p, w] = Correct"
  by (auto simp: pwdtest_def hack_strcmp_def)

end
