(* ===== verification/Server_Setup.thy ===== *)
theory Server_Setup
  imports Nat_Server
begin

text \<open>
  How the servers of P2P/natserver.c set their sockets up before their loops: the helpers that end the
  process when a call fails, and the calls of servemain and bouncemain in their order.  The state is the sockets of
  the process; what the calls return is input, one number for each call, -1 when there is none left.
\<close>

section \<open>Sockets and calls\<close>

datatype sock_type = SOCK_STREAM | SOCK_DGRAM

record sock =
  stype :: sock_type
  port :: "byte list option"
  flags :: "32 word"
  listens :: bool
  reuse :: bool
  timeout :: "int option"

record net =
  answers :: "int list"
  socks :: "int \<rightharpoonup> sock"

definition answer :: "net \<Rightarrow> int \<times> net" where
  "answer s = (case answers s of [] \<Rightarrow> (-1, s) | r # rs \<Rightarrow> (r, s\<lparr>answers := rs\<rparr>))"

text \<open>A call that ends the process when its result is negative, and what it does otherwise.\<close>

definition checked :: "(net \<Rightarrow> net) \<Rightarrow> net \<Rightarrow> net c" where
  "checked eff s = (case answer s of (r, s) \<Rightarrow> if r < 0 then Inl (Exit 1) else Inr (eff s))"

definition on_sock :: "int \<Rightarrow> (sock \<Rightarrow> sock) \<Rightarrow> net \<Rightarrow> net" where
  "on_sock fd f s = s\<lparr>socks := (socks s)(fd := map_option f (socks s fd))\<rparr>"

definition O_NONBLOCK :: "32 word" where "O_NONBLOCK = 0x800"

definition server_mksock :: "sock_type \<Rightarrow> net \<Rightarrow> (int \<times> net) c" where
  "server_mksock ty s =
     (case answer s of (r, s) \<Rightarrow>
        if r < 0 then Inl (Exit 1)
        else Inr (r, s\<lparr>socks := (socks s)(r \<mapsto> \<lparr>stype = ty, port = None, flags = 0, listens = False, reuse = False, timeout = None\<rparr>)\<rparr>))"

definition setfl :: "(32 word \<Rightarrow> 32 word) \<Rightarrow> int \<Rightarrow> net \<Rightarrow> net c" where
  "setfl f fd s =
     (case answer s of (fl, s) \<Rightarrow>
        if fl < 0 then Inl (Exit 1) else checked (on_sock fd (\<lambda>x. x\<lparr>flags := f (word_of_int fl)\<rparr>)) s)"

definition setblock :: "int \<Rightarrow> net \<Rightarrow> net c" where
  "setblock = setfl (\<lambda>fl. fl AND NOT O_NONBLOCK)"

definition server_setnonblock :: "int \<Rightarrow> net \<Rightarrow> net c" where
  "server_setnonblock = setfl (\<lambda>fl. fl OR O_NONBLOCK)"

text \<open>The calls for SO_REUSEADDR and SO_REUSEPORT, and for the two time limits.\<close>

definition server_setreuse :: "int \<Rightarrow> net \<Rightarrow> net c" where
  "server_setreuse fd s = cbind (checked (\<lambda>s. s) s) (checked (on_sock fd (\<lambda>x. x\<lparr>reuse := True\<rparr>)))"

definition settimeouts :: "int \<Rightarrow> int \<Rightarrow> net \<Rightarrow> net c" where
  "settimeouts fd secs s = cbind (checked (\<lambda>s. s) s) (checked (on_sock fd (\<lambda>x. x\<lparr>timeout := Some secs\<rparr>)))"

definition bind_sock :: "int \<Rightarrow> byte list \<Rightarrow> net \<Rightarrow> net c" where
  "bind_sock fd p = checked (on_sock fd (\<lambda>x. x\<lparr>port := Some p\<rparr>))"

definition listen_sock :: "int \<Rightarrow> net \<Rightarrow> net c" where
  "listen_sock fd = checked (on_sock fd (\<lambda>x. x\<lparr>listens := True\<rparr>))"

section \<open>The servers\<close>

text \<open>The result is the address of server 3 and the sockets for TCP and UDP.\<close>

definition servemain_setup :: "byte list option \<Rightarrow> net \<Rightarrow> (sockaddr \<times> int \<times> int \<times> net) c" where
  "servemain_setup h s =
     cbind (getaddr h) (\<lambda>a.
     cbind (server_mksock SOCK_STREAM s) (\<lambda>(t, s).
     cbind (server_mksock SOCK_DGRAM s) (\<lambda>(u, s).
     cbind (bind_sock t SERVPORT s) (\<lambda>s.
     cbind (bind_sock u SERVPORT s) (\<lambda>s.
     cbind (server_setnonblock t s) (\<lambda>s.
     cbind (server_setnonblock u s) (\<lambda>s.
     cbind (listen_sock t s) (\<lambda>s.
       Inr (\<lparr>saddr = a, sport = PRIVPORT\<rparr>, t, u, s)))))))))"

text \<open>The result is the public socket and the private ones for TCP and UDP.\<close>

definition bouncemain_setup :: "net \<Rightarrow> (int \<times> int \<times> int \<times> net) c" where
  "bouncemain_setup s =
     cbind (server_mksock SOCK_DGRAM s) (\<lambda>(u, s).
     cbind (bind_sock u SERVPORT s) (\<lambda>s.
     cbind (server_mksock SOCK_STREAM s) (\<lambda>(tp, s).
     cbind (server_mksock SOCK_DGRAM s) (\<lambda>(up, s).
     cbind (bind_sock tp PRIVPORT s) (\<lambda>s.
     cbind (bind_sock up PRIVPORT s) (\<lambda>s.
     cbind (server_setnonblock u s) (\<lambda>s.
     cbind (server_setnonblock tp s) (\<lambda>s.
     cbind (server_setnonblock up s) (\<lambda>s.
     cbind (listen_sock tp s) (\<lambda>s. Inr (u, tp, up, s)))))))))))"

text \<open>The whole servers: the set-up, then what the process does as a daemon.\<close>

definition servemain_run :: "byte list option \<Rightarrow> net \<Rightarrow> int \<Rightarrow> int \<Rightarrow> (int \<times> tcpreq \<times> udpreq) list \<Rightarrow> run" where
  "servemain_run h s pid server evs =
     (case servemain_setup h s of Inl e \<Rightarrow> stop e | Inr (a3, t, u, _) \<Rightarrow> servemain True pid server (saddr a3) u evs)"

definition bouncemain_run :: "net \<Rightarrow> int \<Rightarrow> (int \<times> bouncereq \<times> udpreq) list \<Rightarrow> run" where
  "bouncemain_run s pid evs =
     (case bouncemain_setup s of Inl e \<Rightarrow> stop e | Inr (u, _, _, _) \<Rightarrow> bouncemain True pid u evs)"

section \<open>When the loops are reached\<close>

lemma checked_answers:
  "answers s = r # rs \<Longrightarrow> checked eff s = (if r < 0 then Inl (Exit 1) else Inr (eff (s\<lparr>answers := rs\<rparr>)))"
  "answers s = [] \<Longrightarrow> checked eff s = Inl (Exit 1)"
  by (simp_all add: checked_def answer_def)

lemma checked_Inr: "checked eff s = Inr s' \<longleftrightarrow> (\<exists>r rs. answers s = r # rs \<and> 0 \<le> r \<and> s' = eff (s\<lparr>answers := rs\<rparr>))"
  by (cases "answers s") (auto simp: checked_answers)

lemma setfl_Inr: "setfl f fd s = Inr s' \<longleftrightarrow> (\<exists>fl r rs. answers s = fl # r # rs \<and> 0 \<le> fl \<and> 0 \<le> r \<and>
    s' = on_sock fd (\<lambda>x. x\<lparr>flags := f (word_of_int fl)\<rparr>) (s\<lparr>answers := rs\<rparr>))"
  by (cases "answers s") (auto simp: setfl_def answer_def checked_Inr)

lemma server_mksock_Inr: "server_mksock ty s = Inr (fd, s') \<longleftrightarrow> (\<exists>rs. answers s = fd # rs \<and> 0 \<le> fd \<and>
    s' = s\<lparr>answers := rs, socks := (socks s)(fd \<mapsto> \<lparr>stype = ty, port = None, flags = 0, listens = False, reuse = False, timeout = None\<rparr>)\<rparr>)"
  by (cases "answers s") (auto simp: server_mksock_def answer_def)

lemma on_sock_simps [simp]:
  "answers (on_sock fd f s) = answers s" "socks (on_sock fd f s) = (socks s)(fd := map_option f (socks s fd))"
  by (simp_all add: on_sock_def)

lemmas setup_steps = cbind_Inr_iff bind_sock_def listen_sock_def server_setnonblock_def setfl_Inr checked_Inr server_mksock_Inr

text \<open>A helper that fails ends the process with status 1.\<close>

lemma helpers_exit:
  "checked eff s = Inl e \<Longrightarrow> e = Exit 1" "setfl f fd s = Inl e \<Longrightarrow> e = Exit 1" "server_mksock ty s = Inl e \<Longrightarrow> e = Exit 1"
  "getaddr h = Inl e \<Longrightarrow> e = Exit 1"
  by (auto simp: checked_def setfl_def server_mksock_def getaddr_def split: prod.splits if_splits option.splits)

text \<open>Blocking and nonblocking undo each other.\<close>

lemma block_nonblock: "\<not> bit ((fl OR O_NONBLOCK) AND NOT O_NONBLOCK) 11" "bit (fl AND NOT O_NONBLOCK OR O_NONBLOCK) 11"
  by (simp_all add: bit_and_iff bit_or_iff bit_not_iff O_NONBLOCK_def)

lemma nonblock_bit: "bit (fl OR O_NONBLOCK) 11"
  by (simp add: bit_or_iff O_NONBLOCK_def)

text \<open>What a socket has to be when a loop starts: bound, nonblocking, and listening when it is for TCP.\<close>

definition ready :: "sock_type \<Rightarrow> byte list \<Rightarrow> bool \<Rightarrow> sock option \<Rightarrow> bool" where
  "ready ty p l x \<longleftrightarrow> (\<exists>fl. x = Some \<lparr>stype = ty, port = Some p, flags = fl, listens = l, reuse = False, timeout = None\<rparr> \<and> bit fl 11)"

text \<open>
  When the regular servers reach their loop, both sockets are bound to the public port and do not block, the one for
  TCP listens, no other socket has changed, and requests are passed on to the private port of server 3.
\<close>

theorem servemain_ready:
  assumes "servemain_setup h s = Inr (a3, t, u, s')" and "t \<noteq> u"
  shows "ready SOCK_STREAM SERVPORT True (socks s' t) \<and> ready SOCK_DGRAM SERVPORT False (socks s' u) \<and>
    (\<forall>x. x \<noteq> t \<and> x \<noteq> u \<longrightarrow> socks s' x = socks s x) \<and> h = Some (saddr a3) \<and> sport a3 = PRIVPORT"
  using assms by (auto simp: servemain_setup_def setup_steps getaddr_def ready_def nonblock_bit split: option.splits)

theorem servemain_ready_witness:
  "\<exists>a3 s'. servemain_setup (Some [10, 0, 0, 3]) \<lparr>answers = [3, 4, 0, 0, 2, 0, 2, 0, 0], socks = (\<lambda>_. None)\<rparr> = Inr (a3, 3, 4, s') \<and>
     ready SOCK_STREAM SERVPORT True (socks s' 3) \<and> ready SOCK_DGRAM SERVPORT False (socks s' 4)"
proof -
  have "\<exists>a3 s'. servemain_setup (Some [10, 0, 0, 3]) \<lparr>answers = [3, 4, 0, 0, 2, 0, 2, 0, 0], socks = (\<lambda>_. None)\<rparr> = Inr (a3, 3, 4, s')"
    by (simp add: servemain_setup_def getaddr_def server_mksock_def answer_def bind_sock_def listen_sock_def server_setnonblock_def
        setfl_def checked_answers)
  then show ?thesis using servemain_ready by fastforce
qed

text \<open>
  The loop is reached exactly when the name is found and none of the nine calls fails; otherwise the process ends
  with status 1, before it becomes a daemon.
\<close>

lemma servemain_setup_iff:
  "(\<exists>r. servemain_setup h s = Inr r) \<longleftrightarrow>
     (h \<noteq> None \<and> (\<exists>a1 a2 a3 a4 a5 a6 a7 a8 a9 rs. answers s = a1 # a2 # a3 # a4 # a5 # a6 # a7 # a8 # a9 # rs \<and>
        (\<forall>a\<in>{a1, a2, a3, a4, a5, a6, a7, a8, a9}. 0 \<le> a)))"
  by (fastforce simp: servemain_setup_def setup_steps getaddr_def split: option.splits)

lemma servemain_setup_exit: "servemain_setup h s = Inl e \<Longrightarrow> e = Exit 1"
  by (auto simp: servemain_setup_def cbind_Inl_iff bind_sock_def listen_sock_def server_setnonblock_def dest: helpers_exit)

text \<open>
  The bounce server: the public socket is bound to the public port, the private ones to the private port, none
  of them blocks, and the private one for TCP listens.
\<close>

theorem bouncemain_ready:
  assumes "bouncemain_setup s = Inr (u, tp, up, s')" and "distinct [u, tp, up]"
  shows "ready SOCK_DGRAM SERVPORT False (socks s' u) \<and> ready SOCK_STREAM PRIVPORT True (socks s' tp) \<and>
    ready SOCK_DGRAM PRIVPORT False (socks s' up) \<and> (\<forall>x. x \<notin> {u, tp, up} \<longrightarrow> socks s' x = socks s x)"
  using assms by (auto simp: bouncemain_setup_def setup_steps ready_def nonblock_bit)

theorem bouncemain_ready_witness:
  "\<exists>s'. bouncemain_setup \<lparr>answers = [3, 0, 4, 5, 0, 0, 2, 0, 2, 0, 2, 0, 0], socks = (\<lambda>_. None)\<rparr> = Inr (3, 4, 5, s') \<and>
     ready SOCK_STREAM PRIVPORT True (socks s' 4)"
proof -
  have "\<exists>s'. bouncemain_setup \<lparr>answers = [3, 0, 4, 5, 0, 0, 2, 0, 2, 0, 2, 0, 0], socks = (\<lambda>_. None)\<rparr> = Inr (3, 4, 5, s')"
    by (simp add: bouncemain_setup_def server_mksock_def answer_def bind_sock_def listen_sock_def server_setnonblock_def
        setfl_def checked_answers)
  then show ?thesis using bouncemain_ready by fastforce
qed

text \<open>The runs of \<open>Nat_Server\<close>, whose flag says whether the set-up succeeds, are the ones of the whole servers.\<close>

lemma servemain_run_flag:
  "\<exists>u. servemain_run (Some a) s pid server evs = servemain (\<exists>r. servemain_setup (Some a) s = Inr r) pid server a u evs"
proof (cases "servemain_setup (Some a) s")
  case (Inl e)
  with servemain_setup_exit[OF this] show ?thesis by (simp add: servemain_run_def servemain_def become_daemon_def)
next
  case (Inr r)
  obtain a3 t u s' where r: "r = (a3, t, u, s')" by (cases r) auto
  with Inr have "saddr a3 = a" by (auto simp: servemain_setup_def setup_steps getaddr_def)
  with Inr r show ?thesis by (auto simp: servemain_run_def)
qed

end
