(* ===== verification/P2P_Threads.thy ===== *)
theory P2P_Threads
  imports P2P_Client Transitions
begin

text \<open>
  The two threads of the client of the messenger, P2P/P2PClient/P2PClient.cpp, side by side: the receiving
  thread as a machine that takes one datagram a step, the sending thread with a step for every access to
  what they share, and all their interleavings.  \<open>P2P_Client\<close> has the same code as functions; here
  is shown that they are what the threads do.
\<close>

section \<open>The receiving thread\<close>

text \<open>
  Where recvfrom waits: for the next packet, the text after a P2PMESSAGE, the number of users, or the users
  of which \<open>n\<close> are still to come.
\<close>

datatype receiver = Idle | Reading | Counting | Filling nat

fun receiver_step :: "receiver \<Rightarrow> p2pclient \<Rightarrow> byte list option \<times> endpoint \<Rightarrow> (receiver \<times> packets \<times> p2pclient) c" where
  "receiver_step Idle s (d, from) =
     (let (n, buf) = recv_into (recvd s) d; s = s\<lparr>recvd := buf\<rparr>; t = bytes_int buf in
      if n \<le> 0 then Inr (Idle, [], s)
      else if t = P2PMESSAGE then (if bytes_int (drop 4 buf) < 0 then Inl Abort else Inr (Reading, [], s))
      else if t = P2PSOMEONEWANTTOCALLYOU then
        Inr (Idle, [(P2p P2PTRASH None None, (bytes_word (drop 4 buf), bytes_port (drop 8 buf)))], s)
      else if t = P2PMESSAGEACK then Inr (Idle, [], s\<lparr>RecvedACK := True\<rparr>)
      else if t = P2PTRASH then Inr (Idle, [], s)
      else if t = GETALLUSER then Inr (Counting, [], s)
      else Inr (Idle, [], s))"
| "receiver_step Reading s (d, from) =
     (case d of None \<Rightarrow> Inl Write_oob
      | Some b \<Rightarrow>
          if b = [] \<or> 256 < length b \<or> bytes_int (drop 4 (recvd s)) < int (length b) then Inl Write_oob
          else Inr (Idle, [(P2p P2PMESSAGEACK None None, from)], s\<lparr>shown := shown s @ [str_at (b[length b - 1 := 0]) 0]\<rparr>))"
| "receiver_step Counting s (d, from) =
     (case d of None \<Rightarrow> Inl Abort
      | Some b \<Rightarrow>
          if b = [] \<or> 4 < length b then Inl Abort
          else if length b < 4 then Inl Uninit
          else Inr (if bytes_int b \<le> 0 then Idle else Filling (nat (bytes_int b)), [], s\<lparr>users := []\<rparr>))"
| "receiver_step (Filling n) s (d, from) =
     (case d of None \<Rightarrow> Inl Uninit
      | Some b \<Rightarrow>
          if length b < USER_FIELDS then Inl Uninit
          else let u = user_of (take USER_SIZE b) in
            cbind (strlen (uname u) 0) (\<lambda>_.
              Inr (if n \<le> 1 then Idle else Filling (n - 1), [], s\<lparr>users := users s @ [u]\<rparr>)))"

text \<open>What the thread does with the datagrams that arrive.\<close>

fun receiver_run :: "receiver \<Rightarrow> p2pclient \<Rightarrow> arrivals \<Rightarrow> (receiver \<times> packets \<times> p2pclient) c" where
  "receiver_run r s [] = Inr (r, [], s)"
| "receiver_run r s (a # ins) =
     cbind (receiver_step r s a) (\<lambda>(r, out, s).
     cbind (receiver_run r s ins) (\<lambda>(r', out', s'). Inr (r', out @ out', s')))"

section \<open>The sending thread\<close>

text \<open>
  SendMessageTo: the position in the list of users and the user found so far; before the flag is reset, the
  header sent and the text sent of the i-th try; the j-th poll of a try.  \<open>Raced\<close> is the undefined
  behaviour of two threads that use the list at the same time.
\<close>

datatype sender =
    Searching nat "user option"
  | Begin nat user
  | Head nat user
  | Body nat user
  | Poll nat nat user
  | Returned bool
  | Raced
  | Failed fault

text \<open>What happens, in its order; \<open>Acked\<close> is a P2PMESSAGEACK and who it came from.\<close>

datatype event = Cleared | Emitted packet endpoint | Acked endpoint | Answered packet endpoint

definition text_of :: "mem \<Rightarrow> byte list" where
  "text_of msg = str_at msg 0 @ [0]"

definition message_head :: "mem \<Rightarrow> packet" where
  "message_head msg = P2p P2PMESSAGE (Some (of_nat (length (text_of msg)))) None"

definition ask_server :: "mem \<Rightarrow> mem \<Rightarrow> mem c" where
  "ask_server junk name = cbind (strlen name 0) (\<lambda>j. make_message junk P2PTRANS (take (j + 1) name))"

fun sender_step :: "mem \<Rightarrow> mem \<Rightarrow> mem \<Rightarrow> sender \<Rightarrow> p2pclient \<Rightarrow> sender \<times> event list \<times> p2pclient" where
  "sender_step junk name msg (Searching i r) s =
     (if i < length (users s) then
        (case strcmp_eq (uname (users s ! i)) name of Inl f \<Rightarrow> (Failed f, [], s)
         | Inr e \<Rightarrow> (Searching (i + 1) (if e then Some (users s ! i) else r), [], s))
      else case r of None \<Rightarrow> (Returned False, [], s)
      | Some u \<Rightarrow>
          (case strlen msg 0 of Inl f \<Rightarrow> (Failed f, [], s)
           | Inr k \<Rightarrow> if 256 < k + 1 then (Failed Write_oob, [], s) else (Begin 0 u, [], s)))"
| "sender_step junk name msg (Begin i u) s =
     (if i < MAXRETRY then (Head i u, [Cleared], s\<lparr>RecvedACK := False\<rparr>) else (Returned False, [], s))"
| "sender_step junk name msg (Head i u) s = (Body i u, [Emitted (message_head msg) (uip u, uport u)], s)"
| "sender_step junk name msg (Body i u) s = (Poll i 0 u, [Emitted (Text (text_of msg)) (uip u, uport u)], s)"
| "sender_step junk name msg (Poll i j u) s =
     (if j < 10 then (if RecvedACK s then (Returned True, [], s) else (Poll i (j + 1) u, [], s))
      else case ask_server junk name of Inl f \<Rightarrow> (Failed f, [], s)
      | Inr m \<Rightarrow> (Begin (i + 1) u, [Emitted (Message m) (server s)], s))"
| "sender_step junk name msg w s = (w, [], s)"

section \<open>Both threads\<close>

record threads =
  client :: p2pclient
  sending :: sender
  receiving :: receiver
  events :: "event list"

definition running :: "sender \<Rightarrow> bool" where
  "running w = (case w of Returned _ \<Rightarrow> False | Raced \<Rightarrow> False | Failed _ \<Rightarrow> False | _ \<Rightarrow> True)"

definition threads_start :: "p2pclient \<Rightarrow> receiver \<Rightarrow> threads" where
  "threads_start s r = \<lparr>client = s, sending = Searching 0 None, receiving = r, events = []\<rparr>"

definition sending_step :: "mem \<Rightarrow> mem \<Rightarrow> mem \<Rightarrow> threads \<Rightarrow> threads" where
  "sending_step junk name msg t =
     (let (w, es, s) = sender_step junk name msg (sending t) (client t) in
      t\<lparr>client := s, sending := w, events := events t @ es\<rparr>)"

text \<open>The list is emptied and filled by the receiving thread and read by the search.\<close>

definition list_race :: "sender \<Rightarrow> receiver \<Rightarrow> bool" where
  "list_race w r \<longleftrightarrow> (\<exists>i u. w = Searching i u) \<and> (r = Counting \<or> (\<exists>n. r = Filling n))"

definition is_ack :: "receiver \<Rightarrow> p2pclient \<Rightarrow> byte list option \<Rightarrow> bool" where
  "is_ack r s d \<longleftrightarrow> r = Idle \<and> 0 < fst (recv_into (recvd s) d) \<and> bytes_int (snd (recv_into (recvd s) d)) = P2PMESSAGEACK"

definition received :: "receiver \<Rightarrow> p2pclient \<Rightarrow> byte list option \<times> endpoint \<Rightarrow> packets \<Rightarrow> event list" where
  "received r s a out = (if is_ack r s (fst a) then [Acked (snd a)] else []) @ map (\<lambda>(p, e). Answered p e) out"

text \<open>
  Any datagram can arrive at any time.  An exception in the receiving thread, or undefined behaviour there, is
  the end of the process.
\<close>

inductive thread_step :: "mem \<Rightarrow> mem \<Rightarrow> mem \<Rightarrow> threads \<Rightarrow> threads \<Rightarrow> bool" for junk name msg where
  send: "running (sending t) \<Longrightarrow> thread_step junk name msg t (sending_step junk name msg t)"
| receive: "sending t \<noteq> Raced \<Longrightarrow> (\<nexists>f. sending t = Failed f) \<Longrightarrow>
    receiver_step (receiving t) (client t) a = Inr (r, out, s) \<Longrightarrow>
    thread_step junk name msg t (t\<lparr>client := s, receiving := r,
      sending := (if list_race (sending t) (receiving t) then Raced else sending t),
      events := events t @ received (receiving t) (client t) a out\<rparr>)"
| crash: "sending t \<noteq> Raced \<Longrightarrow> (\<nexists>f. sending t = Failed f) \<Longrightarrow>
    receiver_step (receiving t) (client t) a = Inl f \<Longrightarrow> thread_step junk name msg t (t\<lparr>sending := Failed f\<rparr>)"

definition sender_own :: "mem \<Rightarrow> mem \<Rightarrow> mem \<Rightarrow> threads \<Rightarrow> threads \<Rightarrow> bool" where
  "sender_own junk name msg t t' \<longleftrightarrow> running (sending t) \<and> t' = sending_step junk name msg t"

definition sent_by :: "event list \<Rightarrow> packets" where
  "sent_by es = List.map_filter (\<lambda>e. case e of Emitted p d \<Rightarrow> Some (p, d) | _ \<Rightarrow> None) es"

section \<open>The receiving thread does what client_step says\<close>

text \<open>
  Blocked calls: the thread waits inside the handler; otherwise it goes on with the state and the datagrams that
  are left.
\<close>

definition carried_out :: "receiver \<Rightarrow> p2pclient \<Rightarrow> arrivals \<Rightarrow> (packets \<times> p2pclient \<times> arrivals) c option \<Rightarrow> bool" where
  "carried_out r s ins res =
     (case res of None \<Rightarrow> \<exists>r' s'. receiver_run r s ins = Inr (r', [], s') \<and> (r' = Idle \<longrightarrow> ins = [])
      | Some (Inl f) \<Rightarrow> receiver_run r s ins = Inl f
      | Some (Inr (out, s', rest)) \<Rightarrow>
          receiver_run r s ins = cbind (receiver_run Idle s' rest) (\<lambda>(r', out', s''). Inr (r', out @ out', s'')))"

lemma carried_out_simps [simp]:
  "carried_out r s ins None \<longleftrightarrow> (\<exists>r' s'. receiver_run r s ins = Inr (r', [], s') \<and> (r' = Idle \<longrightarrow> ins = []))"
  "carried_out r s ins (Some (Inl f)) \<longleftrightarrow> receiver_run r s ins = Inl f"
  "carried_out r s ins (Some (Inr (out, s', rest))) \<longleftrightarrow>
     receiver_run r s ins = cbind (receiver_run Idle s' rest) (\<lambda>(r', out', s''). Inr (r', out @ out', s''))"
  by (simp_all add: carried_out_def)

lemma run_same [simp]: "cbind x Inr = x"
  by (cases x) auto

lemma carried_out_step:
  assumes "receiver_run r s ins = receiver_run r' s' rest" and "r' \<noteq> Idle" and "carried_out r' s' rest res"
  shows "carried_out r s ins res"
proof (cases res)
  case None
  with assms show ?thesis by (cases rest) auto
next
  case (Some x)
  with assms show ?thesis by (cases x) auto
qed

lemma filling_run:
  "carried_out (Filling (Suc n)) s ins (obind (recv_users (Suc n) ins (users s)) (\<lambda>(us, rest). Some (Inr ([], s\<lparr>users := us\<rparr>, rest))))"
proof (induction n arbitrary: s ins)
  case 0
  show ?case
  proof (cases ins)
    case (Cons a rest)
    obtain d e where a: "a = (d, e)" by (cases a)
    then show ?thesis unfolding Cons
      by (cases d; cases "strlen (uname (user_of (take USER_SIZE (the d)))) 0") auto
  qed simp
next
  case (Suc n)
  show ?case
  proof (cases ins)
    case (Cons a rest)
    obtain d e where a: "a = (d, e)" by (cases a)
    show ?thesis
    proof (cases "\<exists>b k. d = Some b \<and> \<not> length b < USER_FIELDS \<and> strlen (uname (user_of (take USER_SIZE b))) 0 = Inr k")
      case True
      then obtain b k where b: "d = Some b" "\<not> length b < USER_FIELDS" "strlen (uname (user_of (take USER_SIZE b))) 0 = Inr k" by blast
      let ?s = "s\<lparr>users := users s @ [user_of (take USER_SIZE b)]\<rparr>"
      have "receiver_run (Filling (Suc (Suc n))) s ins = receiver_run (Filling (Suc n)) ?s rest"
        using b by (simp add: Cons a)
      moreover have "recv_users (Suc (Suc n)) ins (users s) = recv_users (Suc n) rest (users ?s)"
        using b by (simp add: Cons a)
      ultimately show ?thesis using carried_out_step[OF _ _ Suc.IH[of ?s rest]] by simp
    next
      case False
      then show ?thesis unfolding Cons a
        by (cases d; cases "strlen (uname (user_of (take USER_SIZE (the d)))) 0") auto
    qed
  qed simp
qed

lemma reading_run: "recvd s = buf \<Longrightarrow> bytes_int (drop 4 buf) \<ge> 0 \<Longrightarrow> carried_out Reading s ins (recv_text s ins)"
  by (cases ins) (auto simp: recv_text_def Let_def split: option.split)

lemma counting_run:
  "carried_out Counting s ins (obind (recv_list Abort ins []) (\<lambda>(us, rest). Some (Inr ([], s\<lparr>users := us\<rparr>, rest))))"
proof (cases ins)
  case (Cons a rest)
  obtain d e where a: "a = (d, e)" by (cases a)
  show ?thesis
  proof (cases "\<exists>b. d = Some b \<and> length b = 4")
    case True
    then obtain b where b: "d = Some b" "length b = 4" by blast
    then have ne: "b \<noteq> []" by auto
    show ?thesis
    proof (cases "nat (bytes_int b)")
      case 0
      then show ?thesis using b ne by (simp add: Cons a recv_list_def)
    next
      case (Suc n)
      then have "\<not> bytes_int b \<le> 0" by linarith
      then have "receiver_run Counting s ins = receiver_run (Filling (Suc n)) (s\<lparr>users := []\<rparr>) rest"
        using b ne Suc by (simp add: Cons a)
      moreover have "recv_list Abort ins [] = recv_users (Suc n) rest []"
        using b ne Suc by (simp add: Cons a recv_list_def)
      ultimately show ?thesis using carried_out_step[OF _ _ filling_run[of n "s\<lparr>users := []\<rparr>" rest]] by simp
    qed
  next
    case False
    then show ?thesis unfolding Cons a by (cases d) (auto simp: recv_list_def)
  qed
qed (simp add: recv_list_def)

text \<open>
  The receiving thread, which takes one datagram at a time, does what the function of a whole handler
  says: it waits inside the handler when that needs a datagram that is not there, it ends with the same
  fault, or it has sent the same packets and goes on in the same state with the datagrams that are left.
\<close>

lemma receiver_implements: "carried_out Idle s ins (client_step s ins)"
proof (cases ins)
  case (Cons a rest)
  obtain d e where a: "a = (d, e)" by (cases a)
  obtain n buf where nb: "recv_into (recvd s) d = (n, buf)" by fastforce
  have run: "receiver_step Idle s a = Inr (r, out, s') \<Longrightarrow> out = [] \<Longrightarrow> receiver_run Idle s ins = receiver_run r s' rest" for r out s'
    by (simp add: Cons)
  consider "n \<le> 0" | "0 < n" "bytes_int buf = P2PMESSAGE" | "0 < n" "bytes_int buf = GETALLUSER"
    | "0 < n" "bytes_int buf \<notin> {P2PMESSAGE, GETALLUSER}" by force
  then show ?thesis
  proof cases
    case 1
    then show ?thesis using nb by (simp add: client_step_def Cons a)
  next
    case 2
    then show ?thesis
    proof (cases "bytes_int (drop 4 buf) < 0")
      case True
      then show ?thesis using 2 nb by (simp add: client_step_def recv_text_def Cons a)
    next
      case False
      then have "receiver_run Idle s ins = receiver_run Reading (s\<lparr>recvd := buf\<rparr>) rest"
        using 2 nb by (intro run) (simp_all add: a)
      moreover have "client_step s ins = recv_text (s\<lparr>recvd := buf\<rparr>) rest" using 2 nb by (simp add: client_step_def Cons a)
      ultimately show ?thesis using carried_out_step[OF _ _ reading_run[of "s\<lparr>recvd := buf\<rparr>" buf rest]] False by simp
    qed
  next
    case 3
    then have "receiver_run Idle s ins = receiver_run Counting (s\<lparr>recvd := buf\<rparr>) rest"
      using nb by (intro run) (simp_all add: a message_types)
    moreover have "client_step s ins =
        obind (recv_list Abort rest []) (\<lambda>(us, rest). Some (Inr ([], s\<lparr>recvd := buf\<rparr>\<lparr>users := us\<rparr>, rest)))"
      using 3 nb by (simp add: client_step_def Cons a message_types)
    ultimately show ?thesis using carried_out_step[OF _ _ counting_run[of "s\<lparr>recvd := buf\<rparr>" rest]] by simp
  next
    case 4
    then show ?thesis using nb by (simp add: client_step_def Cons a Let_def)
  qed
qed (simp add: client_step_def)

section \<open>What the messages of a peer and of the server do\<close>

text \<open>
  The messages of the protocol, with who sent them: a text (whose header can come from someone else),
  the request to call a peer, an acknowledgement, a punch, and a list of users.
\<close>

datatype incoming =
    Text_in "byte list" endpoint endpoint
  | Call_in endpoint endpoint
  | Ack_in endpoint
  | Trash_in endpoint
  | Users_in "user list" endpoint

text \<open>Their datagrams, as the peer and the server make them.\<close>

fun datagrams :: "byte \<Rightarrow> incoming \<Rightarrow> arrivals" where
  "datagrams j (Text_in t f e) =
     [(Some (wire j (P2p P2PMESSAGE (Some (of_nat (length (t @ [0])))) None)), f), (Some (t @ [0]), e)]"
| "datagrams j (Call_in (i, p) e) = [(Some (wire j (P2p P2PSOMEONEWANTTOCALLYOU (Some i) (Some p))), e)]"
| "datagrams j (Ack_in e) = [(Some (wire j (P2p P2PMESSAGEACK None None)), e)]"
| "datagrams j (Trash_in e) = [(Some (wire j (P2p P2PTRASH None None)), e)]"
| "datagrams j (Users_in us e) = (Some (wire j (Number GETALLUSER)), e) # map (\<lambda>(p, _). (Some (wire j p), e)) (send_users us e)"

fun incoming_ok :: "incoming \<Rightarrow> bool" where
  "incoming_ok (Text_in t f e) \<longleftrightarrow> 0 \<notin> set t \<and> length t < 256"
| "incoming_ok (Users_in us e) \<longleftrightarrow> list_all user_ok us \<and> int (length us) \<le> int_max"
| "incoming_ok x \<longleftrightarrow> True"

text \<open>What the protocol asks for: who is answered what, what is shown, and which list is kept.\<close>

fun answers :: "incoming \<Rightarrow> packets" where
  "answers (Text_in t f e) = [(P2p P2PMESSAGEACK None None, e)]"
| "answers (Call_in a e) = [(P2p P2PTRASH None None, a)]"
| "answers x = []"

fun texts_in :: "incoming \<Rightarrow> byte list list" where
  "texts_in (Text_in t f e) = [t]"
| "texts_in x = []"

fun users_in :: "user list \<Rightarrow> incoming \<Rightarrow> user list" where
  "users_in us (Users_in us' e) = us'"
| "users_in us x = us"

fun acks_in :: "incoming \<Rightarrow> bool" where
  "acks_in (Ack_in e) \<longleftrightarrow> True"
| "acks_in x \<longleftrightarrow> False"

lemma recv_into_length: "recv_into m d = (n, m') \<Longrightarrow> length m' = length m"
  by (auto simp: recv_into_def split: option.splits if_splits)

lemma client_step_length:
  assumes "client_step s ins = Some (Inr (out, s', rest))"
  shows "length (recvd s') = length (recvd s)"
proof (cases ins)
  case (Cons a ins')
  obtain d e where a: "a = (d, e)" by (cases a)
  obtain n buf where nb: "recv_into (recvd s) d = (n, buf)" by fastforce
  have tx: "recv_text t ins' = Some (Inr (out, s', rest)) \<Longrightarrow> length (recvd s') = length (recvd t)" for t
    by (cases ins') (auto simp: recv_text_def Let_def split: option.splits if_splits)
  have list: "obind x (\<lambda>(us, ins). Some (Inr ([], t\<lparr>users := us\<rparr>, ins))) = Some (Inr (out, s', rest)) \<Longrightarrow>
      length (recvd s') = length (recvd t)" for x t
    by (cases x rule: option.exhaust; cases "the x") auto
  from assms nb recv_into_length[OF nb] tx[of "s\<lparr>recvd := buf\<rparr>"] list[of _ "s\<lparr>recvd := buf\<rparr>"] show ?thesis
    by (auto simp: client_step_def Cons a Let_def split: if_splits)
qed (use assms in \<open>simp add: client_step_def\<close>)

lemma client_trash:
  assumes "length (recvd s) = P2P_SIZE"
  shows "\<exists>r. client_step s ((Some (wire j (P2p P2PTRASH a p)), e) # ins) = Some (Inr ([], s\<lparr>recvd := r\<rparr>, ins))"
  using client_p2p[OF assms, of P2PTRASH j a p]
  by (simp add: client_step_def P2P_SIZE_def del: wire.simps) (auto simp: message_types)

lemma client_users:
  assumes "length (recvd s) = P2P_SIZE" and "list_all user_ok us" and "int (length us) \<le> int_max"
  shows "\<exists>r. client_step s (datagrams j (Users_in us e) @ ins) = Some (Inr ([], s\<lparr>recvd := r, users := us\<rparr>, ins))"
proof -
  let ?b = "int_bytes GETALLUSER"
  have "recv_into (recvd s) (Some ?b) = (4, ?b @ drop 4 (recvd s))"
    using assms(1) by (simp add: recv_into_fits P2P_SIZE_def)
  moreover have "bytes_int (?b @ drop 4 (recvd s)) = GETALLUSER" by (rule message_type_bytes) simp
  ultimately show ?thesis using recv_list_sent[OF assms(2,3), of Abort j e e ins "[]"]
    by (simp add: client_step_def) (auto simp: message_types)
qed

lemma client_incoming:
  assumes "length (recvd s) = P2P_SIZE" and "incoming_ok x"
  shows "\<exists>s1. client_step s (datagrams j x @ ins) = Some (Inr (answers x, s1, ins)) \<and> length (recvd s1) = P2P_SIZE \<and>
    shown s1 = shown s @ texts_in x \<and> users s1 = users_in (users s) x \<and> (RecvedACK s1 \<longleftrightarrow> RecvedACK s \<or> acks_in x)"
proof -
  have len: "client_step s i = Some (Inr (out, s1, ins)) \<Longrightarrow> length (recvd s1) = P2P_SIZE" for i out s1
    using client_step_length assms(1) by metis
  show ?thesis
  proof (cases x)
    case (Text_in t f e)
    with client_text[OF assms(1), of t j None f e ins] assms(2) len show ?thesis by fastforce
  next
    case (Call_in a e)
    obtain i p where a: "a = (i, p)" by (cases a)
    show ?thesis using client_wants_call[OF assms(1), of j i p e ins] len Call_in a by fastforce
  next
    case (Ack_in e)
    with client_ack[OF assms(1), of j None None e ins] len show ?thesis by fastforce
  next
    case (Trash_in e)
    with client_trash[OF assms(1), of j None None e ins] len show ?thesis by fastforce
  next
    case (Users_in us e)
    with client_users[OF assms(1), of us j e ins] assms(2) len show ?thesis by fastforce
  qed
qed

section \<open>The steps of the sending thread\<close>

text \<open>The numbers of the tries and polls.\<close>

fun pc_ok :: "sender \<Rightarrow> bool" where
  "pc_ok (Begin i u) \<longleftrightarrow> i \<le> MAXRETRY"
| "pc_ok (Head i u) \<longleftrightarrow> i < MAXRETRY"
| "pc_ok (Body i u) \<longleftrightarrow> i < MAXRETRY"
| "pc_ok (Poll i j u) \<longleftrightarrow> i < MAXRETRY \<and> j \<le> 10"
| "pc_ok w \<longleftrightarrow> True"

text \<open>The steps that are left: fourteen for a try, and one for each user the search has not seen.\<close>

fun pc_left :: "nat \<Rightarrow> sender \<Rightarrow> nat" where
  "pc_left n (Searching i r) = (n - i) + 72"
| "pc_left n (Begin i u) = (MAXRETRY - i) * 14 + 1"
| "pc_left n (Head i u) = (MAXRETRY - i) * 14"
| "pc_left n (Body i u) = (MAXRETRY - i) * 14 - 1"
| "pc_left n (Poll i j u) = (MAXRETRY - i) * 14 - 2 - j"
| "pc_left n w = 0"

definition threads_left :: "threads \<Rightarrow> nat" where
  "threads_left t = pc_left (length (users (client t))) (sending t)"

lemma sender_step_ok: "pc_ok w \<Longrightarrow> pc_ok (fst (sender_step junk name msg w s))"
  by (cases w) (auto split: option.split sum.split)

lemma sender_step_users [simp]: "users (snd (snd (sender_step junk name msg w s))) = users s"
  "server (snd (snd (sender_step junk name msg w s))) = server s"
  by (cases w; simp split: option.split sum.split)+

lemma sender_step_less:
  assumes "running w" and "pc_ok w"
  shows "pc_left n (fst (sender_step junk name msg w s)) < pc_left n w \<or> n \<noteq> length (users s)"
  using assms by (cases w) (auto simp: running_def MAXRETRY_def split: option.split sum.split)

lemma sending_step_simps [simp]:
  "sending (sending_step junk name msg t) = fst (sender_step junk name msg (sending t) (client t))"
  "client (sending_step junk name msg t) = snd (snd (sender_step junk name msg (sending t) (client t)))"
  "receiving (sending_step junk name msg t) = receiving t"
  "events (sending_step junk name msg t) = events t @ fst (snd (sender_step junk name msg (sending t) (client t)))"
  by (simp_all add: sending_step_def split: prod.split)

lemma receiver_step_users:
  "receiver_step r s a = Inr (r', out, s') \<Longrightarrow> server s' = server s \<and> (users s' = users s \<or> r = Counting \<or> (\<exists>n. r = Filling n))"
  by (cases a; cases r) (auto simp: Let_def cbind_Inr_iff split: prod.splits option.splits if_splits)

lemma running_simps [simp]:
  "running (Searching i r)" "running (Begin i u)" "running (Head i u)" "running (Body i u)" "running (Poll i j u)"
  "\<not> running (Returned b)" "\<not> running Raced" "\<not> running (Failed f)"
  by (simp_all add: running_def)

inductive_cases thread_stepE: "thread_step junk name msg t t'"

lemma receive_left:
  assumes "receiver_step (receiving t) (client t) a = Inr (r, out, s)"
  shows "pc_left (length (users s)) (if list_race (sending t) (receiving t) then Raced else sending t) \<le> threads_left t"
  using receiver_step_users[OF assms] by (cases "sending t") (auto simp: threads_left_def list_race_def)

interpretation messenger: bounded_system "\<lambda>t. \<exists>s r. t = threads_start s r" "thread_step junk name msg" "\<lambda>t. pc_ok (sending t)"
    "sender_own junk name msg" "\<lambda>t. \<not> running (sending t)" threads_left for junk name msg
proof
  show "\<exists>s r. t = threads_start s r \<Longrightarrow> pc_ok (sending t)" for t by (auto simp: threads_start_def)
  show "pc_ok (sending t')" if "thread_step junk name msg t t'" "pc_ok (sending t)" for t t'
    using that by cases (auto simp: sender_step_ok)
  show "sender_own junk name msg t t' \<Longrightarrow> thread_step junk name msg t t'" for t t'
    by (auto simp: sender_own_def intro: thread_step.send)
  show less: "threads_left t' < threads_left t" if "pc_ok (sending t)" "sender_own junk name msg t t'" for t t'
    using that sender_step_less[of "sending t" "length (users (client t))" junk name msg "client t"]
    by (auto simp: sender_own_def threads_left_def)
  show "threads_left t' \<le> threads_left t" if "pc_ok (sending t)" "thread_step junk name msg t t'" for t t'
    using that(2)
  proof cases
    case send
    with less[of t t'] that(1) show ?thesis by (simp add: sender_own_def)
  next
    case (receive a r out s)
    with receive_left[OF receive(4)] show ?thesis by (simp add: threads_left_def)
  qed (simp add: threads_left_def)
  show "pc_ok (sending t) \<Longrightarrow> \<not> \<not> running (sending t) \<Longrightarrow> \<exists>t'. sender_own junk name msg t t'" for t
    by (auto simp: sender_own_def)
qed

text \<open>
  C14.  Sending a message comes to an end whatever arrives meanwhile: in a run of both threads SendMessageTo
  has at most a step for each user of the list and 72 more, and from every state it returns by its own
  steps, so it never waits for the receiving thread.
\<close>

theorem sending_ends:
  assumes "(thread_step junk name msg)\<^sup>*\<^sup>* (threads_start s r) t"
  shows "(\<forall>ts. run_of (thread_step junk name msg) (threads_start s r) ts \<longrightarrow>
      steps_of (sender_own junk name msg) (threads_start s r) ts \<le> length (users s) + 72) \<and>
    (\<exists>t'. (sender_own junk name msg)\<^sup>*\<^sup>* t t' \<and> \<not> running (sending t'))"
proof (intro conjI allI impI)
  fix ts assume "run_of (thread_step junk name msg) (threads_start s r) ts"
  from messenger.own_steps_bounded[OF _ this]
  show "steps_of (sender_own junk name msg) (threads_start s r) ts \<le> length (users s) + 72"
    by (simp add: threads_start_def threads_left_def)
next
  have "pc_ok (sending t)" by (rule messenger.reach_inv[OF _ assms]) blast
  then show "\<exists>t'. (sender_own junk name msg)\<^sup>*\<^sup>* t t' \<and> \<not> running (sending t')" by (rule messenger.reaches_final)
qed

section \<open>Every interleaving is a result of SendMessageTo\<close>

lemma sent_by_append [simp]: "sent_by (xs @ ys) = sent_by xs @ sent_by ys"
  by (simp add: sent_by_def map_filter_def)

lemma sent_by_simps [simp]:
  "sent_by [] = []" "sent_by (Cleared # es) = sent_by es" "sent_by (Emitted p d # es) = (p, d) # sent_by es"
  "sent_by (Acked e # es) = sent_by es" "sent_by (Answered p d # es) = sent_by es"
  by (simp_all add: sent_by_def map_filter_def)

lemma sent_by_received [simp]: "sent_by (received r s a out) = []"
  by (induction out) (auto simp: received_def)

text \<open>The first \<open>i\<close> tries, each with the request to the server, and what was sent for a result.\<close>

definition tries :: "nat \<Rightarrow> user \<Rightarrow> mem \<Rightarrow> packet \<times> endpoint \<Rightarrow> packets" where
  "tries i u msg ask = concat (replicate i (try_packets (uip u, uport u) (text_of msg) @ [ask]))"

text \<open>What is sent, the user found and the list, for each place of SendMessageTo; \<open>s0\<close> is the state it began in.\<close>

fun pc_inv :: "user option \<Rightarrow> mem \<Rightarrow> mem \<Rightarrow> packet \<times> endpoint \<Rightarrow> p2pclient \<Rightarrow> sender \<Rightarrow> user list \<Rightarrow> packets \<Rightarrow> bool" where
  "pc_inv found name msg ask s0 (Searching i r) us sent \<longleftrightarrow>
     sent = [] \<and> us = users s0 \<and> i \<le> length us \<and> find_last (take i us) name None = Inr r"
| "pc_inv found name msg ask s0 (Begin i u) us sent \<longleftrightarrow> i \<le> MAXRETRY \<and> found = Some u \<and> sent = tries i u msg ask"
| "pc_inv found name msg ask s0 (Head i u) us sent \<longleftrightarrow> i < MAXRETRY \<and> found = Some u \<and> sent = tries i u msg ask"
| "pc_inv found name msg ask s0 (Body i u) us sent \<longleftrightarrow>
     i < MAXRETRY \<and> found = Some u \<and> sent = tries i u msg ask @ [(message_head msg, (uip u, uport u))]"
| "pc_inv found name msg ask s0 (Poll i j u) us sent \<longleftrightarrow>
     i < MAXRETRY \<and> j \<le> 10 \<and> found = Some u \<and> sent = tries i u msg ask @ try_packets (uip u, uport u) (text_of msg)"
| "pc_inv found name msg ask s0 (Returned ok) us sent \<longleftrightarrow>
     (case found of None \<Rightarrow> \<not> ok \<and> sent = []
      | Some u \<Rightarrow> if ok then \<exists>i<MAXRETRY. sent = tries i u msg ask @ try_packets (uip u, uport u) (text_of msg)
          else sent = tries MAXRETRY u msg ask)"
| "pc_inv found name msg ask s0 w us sent \<longleftrightarrow> True"

lemma try_packets_head: "try_packets to (text_of msg) = [(message_head msg, to), (Text (text_of msg), to)]"
  by (simp add: try_packets_def message_head_def)

lemma tries_Suc: "tries (Suc i) u msg ask = tries i u msg ask @ try_packets (uip u, uport u) (text_of msg) @ [ask]"
  using replicate_append_same[of i "try_packets (uip u, uport u) (text_of msg) @ [ask]"]
  by (metis (no_types) append.assoc append_Nil2 concat.simps concat_append replicate_Suc tries_def)

lemma take_find: "i < length us \<Longrightarrow> find_last (take i us) name None = Inr r \<Longrightarrow> strcmp_eq (uname (us ! i)) name = Inr e \<Longrightarrow>
    find_last (take (Suc i) us) name None = Inr (if e then Some (us ! i) else r)"
  by (simp add: take_Suc_conv_app_nth find_last_append)

lemma sender_step_inv:
  assumes "sender_step junk name msg w s = (w', es, s')"
    and "pc_inv found name msg ask s0 w (users s) sent" and "find_last (users s0) name None = Inr found"
    and "found \<noteq> None \<Longrightarrow> ask_server junk name = Inr m" and "ask = (Message m, server s)"
  shows "pc_inv found name msg ask s0 w' (users s') (sent @ sent_by es)"
proof (cases w)
  case (Searching i r)
  show ?thesis
  proof (cases "i < length (users s)")
    case True
    with assms Searching show ?thesis by (auto simp: take_find split: sum.splits)
  next
    case False
    with assms Searching have "found = r" by auto
    with assms Searching False show ?thesis by (auto simp: tries_def split: sum.splits option.splits if_splits)
  qed
next
  case (Poll i j u)
  with assms show ?thesis by (auto simp: tries_Suc split: if_splits)
qed (use assms in \<open>auto simp: try_packets_head split: if_splits\<close>)

text \<open>The name is the one of a user, so the request to the server can be made.\<close>

definition well_named :: "mem \<Rightarrow> mem \<Rightarrow> p2pclient \<Rightarrow> bool" where
  "well_named junk name s \<longleftrightarrow> list_all user_ok (users s) \<and> 0 \<in> set name \<and> length junk = MESSAGE_SIZE"

lemma find_last_from: "find_last us name r = Inr (Some u) \<Longrightarrow> r = Some u \<or> u \<in> set us \<and> strcmp_eq (uname u) name = Inr True"
  by (induction us arbitrary: r) (auto simp: cbind_Inr_iff split: if_splits)

lemma ask_server_found:
  assumes "well_named junk name s" and "find_last (users s) name None = Inr (Some u)"
  shows "ask_server junk name = Inr (trans_message junk (str_at name 0))"
proof -
  let ?nm = "str_at name 0"
  have "u \<in> set (users s)" "strcmp_eq (uname u) name = Inr True" using find_last_from[OF assms(2)] by auto
  then have "?nm = str_at (uname u) 0" "user_ok u"
    using assms(1) user_ok_name[of u] by (auto simp: well_named_def list_all_iff strcmp_eq_strings)
  then have l: "length ?nm < NAME_LEN" by (simp add: user_ok_def)
  have z: "0 \<in> set name" "length junk = MESSAGE_SIZE" using assms(1) by (simp_all add: well_named_def)
  obtain y where y: "name = ?nm @ 0 # y" using c_str_split[OF z(1)] by blast
  have "take (length ?nm + 1) name = ?nm @ [0]" by (subst (2) y) simp
  moreover have "strlen name 0 = Inr (length ?nm)" using z by (simp add: strlen_def str_at_def)
  moreover have "make_message junk P2PTRANS (?nm @ [0]) = Inr (trans_message junk ?nm)"
    using l z by (simp add: make_message_def wrs_in NAME_LEN_def MESSAGE_SIZE_def trans_message_def)
  ultimately show ?thesis by (simp add: ask_server_def)
qed

definition the_request :: "mem \<Rightarrow> mem \<Rightarrow> p2pclient \<Rightarrow> packet \<times> endpoint" where
  "the_request junk name s = (Message (trans_message junk (str_at name 0)), server s)"

definition follows :: "mem \<Rightarrow> mem \<Rightarrow> mem \<Rightarrow> p2pclient \<Rightarrow> threads \<Rightarrow> bool" where
  "follows junk name msg s0 t \<longleftrightarrow>
     (\<forall>found. well_named junk name s0 \<longrightarrow> find_last (users s0) name None = Inr found \<longrightarrow>
        server (client t) = server s0 \<and>
        pc_inv found name msg (the_request junk name s0) s0 (sending t) (users (client t)) (sent_by (events t)))"

lemma pc_inv_users:
  "pc_inv found name msg ask s0 w us sent \<Longrightarrow> us' = us \<or> (\<forall>i r. w \<noteq> Searching i r) \<Longrightarrow> pc_inv found name msg ask s0 w us' sent"
  by (cases w) auto

interpretation sending: step_system "\<lambda>t. \<exists>r. t = threads_start s0 r" "thread_step junk name msg" "follows junk name msg s0"
  for junk name msg s0
proof
  show "\<exists>r. t = threads_start s0 r \<Longrightarrow> follows junk name msg s0 t" for t
    by (auto simp: threads_start_def follows_def)
  show "follows junk name msg s0 t'" if step: "thread_step junk name msg t t'" and inv: "follows junk name msg s0 t" for t t'
    unfolding follows_def
  proof (intro allI impI)
    fix found assume f: "well_named junk name s0" "find_last (users s0) name None = Inr found"
    with inv have t: "server (client t) = server s0"
        "pc_inv found name msg (the_request junk name s0) s0 (sending t) (users (client t)) (sent_by (events t))"
      by (simp_all add: follows_def)
    show "server (client t') = server s0 \<and>
        pc_inv found name msg (the_request junk name s0) s0 (sending t') (users (client t')) (sent_by (events t'))"
      using step
    proof cases
      case send
      obtain w es s where w: "sender_step junk name msg (sending t) (client t) = (w, es, s)" by (cases rule: prod_cases3)
      have "found \<noteq> None \<Longrightarrow> ask_server junk name = Inr (trans_message junk (str_at name 0))"
        using ask_server_found[OF f(1)] f(2) by auto
      moreover have "server s = server (client t)" using sender_step_users(2)[of junk name msg "sending t" "client t"] w by simp
      ultimately show ?thesis using sender_step_inv[OF w t(2) f(2)] w t(1) send by (simp add: the_request_def)
    next
      case (receive a r out s)
      show ?thesis
      proof (cases "list_race (sending t) (receiving t)")
        case False
        then have "users s = users (client t) \<or> (\<forall>i u. sending t \<noteq> Searching i u)"
          using receiver_step_users[OF receive(4)] by (auto simp: list_race_def)
        with pc_inv_users[OF t(2)] t(1) receive False receiver_step_users[OF receive(4)] show ?thesis by simp
      qed (use receive t(1) receiver_step_users[OF receive(4)] in simp)
    qed (use t in simp)
  qed
qed

section \<open>Every result of SendMessageTo is one of an interleaving\<close>

text \<open>A state of both threads, the receiving one between two packets.\<close>

definition at_pc :: "p2pclient \<Rightarrow> sender \<Rightarrow> event list \<Rightarrow> threads" where
  "at_pc c w es = \<lparr>client = c, sending = w, receiving = Idle, events = es\<rparr>"

lemma at_pc_send:
  "sender_step junk name msg w c = (w', es', c') \<Longrightarrow> running w \<Longrightarrow>
     thread_step junk name msg (at_pc c w es) (at_pc c' w' (es @ es'))"
  using thread_step.send[of "at_pc c w es" junk name msg] by (simp add: at_pc_def sending_step_def)

lemma at_pc_search:
  "i \<le> length (users c) \<Longrightarrow> find_last (drop i (users c)) name r = Inr r' \<Longrightarrow>
     (thread_step junk name msg)\<^sup>*\<^sup>* (at_pc c (Searching i r) es) (at_pc c (Searching (length (users c)) r') es)"
proof (induction "length (users c) - i" arbitrary: i r)
  case (Suc n)
  then have i: "i < length (users c)" by simp
  then have "drop i (users c) = users c ! i # drop (Suc i) (users c)" by (simp add: Cons_nth_drop_Suc)
  with Suc.prems obtain e where e: "strcmp_eq (uname (users c ! i)) name = Inr e"
    "find_last (drop (Suc i) (users c)) name (if e then Some (users c ! i) else r) = Inr r'"
    by (auto simp: cbind_Inr_iff)
  have "thread_step junk name msg (at_pc c (Searching i r) es)
      (at_pc c (Searching (Suc i) (if e then Some (users c ! i) else r)) (es @ []))"
    by (rule at_pc_send) (use i e in simp_all)
  with Suc.hyps(1)[of "Suc i" "if e then Some (users c ! i) else r"] Suc.hyps(2) e(2) i show ?case
    by (simp add: converse_rtranclp_into_rtranclp)
qed simp

lemma at_pc_polls:
  "\<not> RecvedACK c \<Longrightarrow> j \<le> 10 \<Longrightarrow>
     (thread_step junk name msg)\<^sup>*\<^sup>* (at_pc c (Poll i 0 u) es) (at_pc c (Poll i j u) es)"
proof (induction j)
  case (Suc j)
  have "thread_step junk name msg (at_pc c (Poll i j u) es) (at_pc c (Poll i (Suc j) u) (es @ []))"
    by (rule at_pc_send) (use Suc.prems in simp_all)
  with Suc show ?case by (auto intro: rtranclp.rtrancl_into_rtrancl)
qed simp

lemma at_pc_try:
  assumes "i < MAXRETRY"
  shows "(thread_step junk name msg)\<^sup>*\<^sup>* (at_pc c (Begin i u) es) (at_pc (c\<lparr>RecvedACK := False\<rparr>) (Poll i 0 u)
    (es @ [Cleared, Emitted (message_head msg) (uip u, uport u), Emitted (Text (text_of msg)) (uip u, uport u)]))"
proof -
  let ?R = "thread_step junk name msg" and ?c = "c\<lparr>RecvedACK := False\<rparr>" and ?to = "(uip u, uport u)"
  have "?R (at_pc c (Begin i u) es) (at_pc ?c (Head i u) (es @ [Cleared]))"
    by (rule at_pc_send) (use assms in simp_all)
  moreover have "?R (at_pc ?c (Head i u) (es @ [Cleared])) (at_pc ?c (Body i u) ((es @ [Cleared]) @ [Emitted (message_head msg) ?to]))"
    by (rule at_pc_send) simp_all
  moreover have "?R (at_pc ?c (Body i u) ((es @ [Cleared]) @ [Emitted (message_head msg) ?to]))
      (at_pc ?c (Poll i 0 u) (((es @ [Cleared]) @ [Emitted (message_head msg) ?to]) @ [Emitted (Text (text_of msg)) ?to]))"
    by (rule at_pc_send) simp_all
  ultimately show ?thesis by (simp add: converse_rtranclp_into_rtranclp)
qed

text \<open>The packet of an acknowledgement, from anywhere.\<close>

definition ack_datagram :: "byte list" where
  "ack_datagram = wire 0 (P2p P2PMESSAGEACK None None)"

lemma receive_ack:
  assumes "length (recvd c) = P2P_SIZE"
  shows "receiver_step Idle c (Some ack_datagram, e) = Inr (Idle, [], c\<lparr>recvd := ack_datagram, RecvedACK := True\<rparr>)"
    and "is_ack Idle c (Some ack_datagram)"
  using client_p2p[OF assms, of P2PMESSAGEACK 0 None None]
  by (auto simp: ack_datagram_def is_ack_def message_types P2P_SIZE_def simp del: wire.simps)

lemma at_pc_ack:
  assumes "length (recvd c) = P2P_SIZE" and "\<forall>i r. w \<noteq> Searching i r" and "w \<noteq> Raced" and "\<nexists>f. w = Failed f"
  shows "thread_step junk name msg (at_pc c w es) (at_pc (c\<lparr>recvd := ack_datagram, RecvedACK := True\<rparr>) w (es @ [Acked e]))"
proof -
  note a = receive_ack(1)[OF assms(1), of e] receive_ack(2)[OF assms(1)]
  have "\<not> list_race w Idle" using assms(2) by (simp add: list_race_def)
  with thread_step.receive[of "at_pc c w es" "(Some ack_datagram, e)" Idle "[]" "c\<lparr>recvd := ack_datagram, RecvedACK := True\<rparr>" junk name msg] a assms
  show ?thesis by (simp add: at_pc_def received_def)
qed

lemma length_ack: "length ack_datagram = P2P_SIZE"
  by (simp add: ack_datagram_def length_p2p del: wire.simps)

lemma at_pc_fail:
  assumes "i < MAXRETRY" and "ask_server junk name = Inr m"
  shows "(thread_step junk name msg)\<^sup>*\<^sup>* (at_pc c (Begin i u) es) (at_pc (c\<lparr>RecvedACK := False\<rparr>) (Begin (i + 1) u)
    (es @ [Cleared, Emitted (message_head msg) (uip u, uport u), Emitted (Text (text_of msg)) (uip u, uport u), Emitted (Message m) (server c)]))"
proof -
  let ?c = "c\<lparr>RecvedACK := False\<rparr>" and ?es = "es @ [Cleared, Emitted (message_head msg) (uip u, uport u), Emitted (Text (text_of msg)) (uip u, uport u)]"
  have "thread_step junk name msg (at_pc ?c (Poll i 10 u) ?es) (at_pc ?c (Begin (i + 1) u) (?es @ [Emitted (Message m) (server c)]))"
    by (rule at_pc_send) (use assms(2) in simp_all)
  with at_pc_try[OF assms(1)] at_pc_polls[of ?c 10] show ?thesis
    by simp (meson rtranclp.rtrancl_into_rtrancl rtranclp_trans)
qed

lemma at_pc_tries:
  assumes "i + length acks = MAXRETRY" and "ask_server junk name = Inr m" and "length (recvd c) = P2P_SIZE"
    and "send_tries acks (uip u, uport u) (text_of msg) (Message m) c = (ok, out, c')"
  shows "\<exists>d es'. (thread_step junk name msg)\<^sup>*\<^sup>* (at_pc c (Begin i u) es) (at_pc d (Returned ok) (es @ es')) \<and> sent_by es' = out"
  using assms(1,3,4)
proof (induction acks arbitrary: i c es out c')
  case Nil
  have "thread_step junk name msg (at_pc c (Begin i u) es) (at_pc c (Returned False) (es @ []))"
    by (rule at_pc_send) (use Nil in simp_all)
  with Nil show ?case by (intro exI[of _ c] exI[of _ "[]"]) auto
next
  case (Cons ack acks)
  let ?to = "(uip u, uport u)" and ?c = "c\<lparr>RecvedACK := False\<rparr>"
  let ?es = "[Cleared, Emitted (message_head msg) ?to, Emitted (Text (text_of msg)) ?to]"
  have i: "i < MAXRETRY" using Cons.prems(1) by simp
  show ?case
  proof (cases ack)
    case True
    let ?d = "?c\<lparr>recvd := ack_datagram, RecvedACK := True\<rparr>"
    have "thread_step junk name msg (at_pc ?c (Poll i 0 u) (es @ ?es)) (at_pc ?d (Poll i 0 u) ((es @ ?es) @ [Acked ?to]))"
      by (rule at_pc_ack) (use Cons.prems in simp_all)
    moreover have "thread_step junk name msg (at_pc ?d (Poll i 0 u) ((es @ ?es) @ [Acked ?to])) (at_pc ?d (Returned True) (((es @ ?es) @ [Acked ?to]) @ []))"
      by (rule at_pc_send) simp_all
    ultimately have "(thread_step junk name msg)\<^sup>*\<^sup>* (at_pc c (Begin i u) es) (at_pc ?d (Returned True) (es @ ?es @ [Acked ?to]))"
      using at_pc_try[OF i, of junk name msg c u es] by simp
    with True Cons.prems(3) show ?thesis
      by (intro exI[of _ ?d] exI[of _ "?es @ [Acked ?to]"]) (auto simp: message_head_def)
  next
    case False
    obtain out1 c1 where st: "send_tries acks ?to (text_of msg) (Message m) ?c = (ok, out1, c1)"
      "out = (message_head msg, ?to) # (Text (text_of msg), ?to) # (Message m, server c) # out1"
      using False Cons.prems(3) by (auto simp: message_head_def split: prod.splits)
    have "Suc i + length acks = MAXRETRY" "length (recvd ?c) = P2P_SIZE" using Cons.prems by simp_all
    from Cons.IH[OF this st(1), of "es @ ?es @ [Emitted (Message m) (server c)]"] obtain d es' where
      "(thread_step junk name msg)\<^sup>*\<^sup>* (at_pc ?c (Begin (Suc i) u) (es @ ?es @ [Emitted (Message m) (server c)]))
         (at_pc d (Returned ok) ((es @ ?es @ [Emitted (Message m) (server c)]) @ es'))" "sent_by es' = out1" by blast
    with at_pc_fail[OF i assms(2), of msg c u es] st(2) show ?thesis
      by (intro exI[of _ d] exI[of _ "?es @ [Emitted (Message m) (server c)] @ es'"]) (auto intro: rtranclp_trans)
  qed
qed

section \<open>What the threads do\<close>

lemma at_pc_found:
  assumes "find_last (users c) name None = Inr (Some u)" and "msg = t @ 0 # z" and "0 \<notin> set t" and "length t < 256"
  shows "(thread_step junk name msg)\<^sup>*\<^sup>* (threads_start c Idle) (at_pc c (Begin 0 u) [])"
proof -
  have "(thread_step junk name msg)\<^sup>*\<^sup>* (threads_start c Idle) (at_pc c (Searching (length (users c)) (Some u)) [])"
    using at_pc_search[of 0 c name None "Some u" junk msg "[]"] assms(1) by (simp add: at_pc_def threads_start_def)
  moreover have "strlen msg 0 = Inr (length t)" unfolding assms(2) by (rule strlen_text[OF assms(3)])
  then have "thread_step junk name msg (at_pc c (Searching (length (users c)) (Some u)) []) (at_pc c (Begin 0 u) ([] @ []))"
    using assms(4) by (intro at_pc_send) simp_all
  ultimately show ?thesis by simp
qed

lemma SendMessageTo_steps:
  assumes "well_named junk name c" and "find_last (users c) name None = Inr found"
    and "msg = t @ 0 # z" and "0 \<notin> set t" and "length t < 256"
  shows "SendMessageTo junk acks name msg c = (case found of None \<Rightarrow> Inr (False, [], c)
    | Some u \<Rightarrow> Inr (send_tries (take MAXRETRY acks) (uip u, uport u) (text_of msg) (Message (trans_message junk (str_at name 0))) c))"
proof (cases found)
  case (Some u)
  have k: "strlen msg 0 = Inr (length t)" "str_at msg 0 = t" unfolding assms(3)
    using strlen_text[OF assms(4)] str_at_text[OF assms(4)] by simp_all
  then have "take (length t + 1) msg = text_of msg" by (simp add: text_of_def assms(3))
  moreover have "cbind (strlen name 0) (\<lambda>j. make_message junk P2PTRANS (take (j + 1) name)) = Inr (trans_message junk (str_at name 0))"
    using ask_server_found[OF assms(1)] assms(2) Some by (simp add: ask_server_def)
  then have "cbind (strlen name 0) (\<lambda>j. cbind (make_message junk P2PTRANS (take (j + 1) name)) f) = f (trans_message junk (str_at name 0))" for f :: "mem \<Rightarrow> (bool \<times> packets \<times> p2pclient) c"
    by (auto simp: cbind_Inr_iff)
  ultimately show ?thesis using assms(2,5) k Some by (simp add: SendMessageTo_def)
qed (use assms(2) in \<open>simp add: SendMessageTo_def\<close>)

lemma interleaving_is_result:
  assumes "well_named junk name c" and "msg = t @ 0 # z" and "0 \<notin> set t" and "length t < 256"
    and "(thread_step junk name msg)\<^sup>*\<^sup>* (threads_start c Idle) s" and "sending s = Returned ok" and "find_last (users c) name None = Inr found"
  shows "\<exists>acks d. length acks = MAXRETRY \<and> SendMessageTo junk acks name msg c = Inr (ok, sent_by (events s), d)"
proof -
  let ?p = "Message (trans_message junk (str_at name 0))" and ?out = "sent_by (events s)"
  note S = SendMessageTo_steps[OF assms(1,7,2,3,4)]
  have "follows junk name msg c s" by (rule sending.reach_inv[OF _ assms(5)]) blast
  then have inv: "pc_inv found name msg (?p, server c) c (Returned ok) (users (client s)) ?out"
    using assms(1,6,7) by (simp add: follows_def the_request_def)
  show ?thesis
  proof (cases found)
    case None
    with inv S show ?thesis by (intro exI[of _ "replicate MAXRETRY False"]) simp
  next
    case (Some u)
    have "\<exists>acks d. length acks = MAXRETRY \<and> send_tries acks (uip u, uport u) (text_of msg) ?p c = (ok, ?out, d)"
    proof (cases ok)
      case True
      with inv Some obtain i where i: "i < MAXRETRY" "?out = tries i u msg (?p, server c) @ try_packets (uip u, uport u) (text_of msg)"
        by auto
      then show ?thesis unfolding i(2) using True
        by (intro exI[of _ "replicate i False @ True # replicate (MAXRETRY - i - 1) True"])
          (simp add: send_tries_eq Let_def tries_def takeWhile_append)
    next
      case False
      with inv Some have "?out = tries MAXRETRY u msg (?p, server c)" by simp
      with False show ?thesis by (intro exI[of _ "replicate MAXRETRY False"]) (simp add: send_tries_eq Let_def tries_def)
    qed
    with S Some show ?thesis by auto
  qed
qed

lemma result_has_interleaving:
  assumes "well_named junk name c" and "msg = t @ 0 # z" and "0 \<notin> set t" and "length t < 256" and "length (recvd c) = P2P_SIZE"
    and "length acks = MAXRETRY" and "SendMessageTo junk acks name msg c = Inr (ok, out, d)" and "find_last (users c) name None = Inr found"
  shows "\<exists>s. (thread_step junk name msg)\<^sup>*\<^sup>* (threads_start c Idle) s \<and> sending s = Returned ok \<and> sent_by (events s) = out"
proof -
  let ?R = "thread_step junk name msg"
  note S = SendMessageTo_steps[OF assms(1,8,2,3,4)]
  show ?thesis
  proof (cases found)
    case None
    with assms S have r: "ok = False" "out = []" by simp_all
    have "?R\<^sup>*\<^sup>* (threads_start c Idle) (at_pc c (Searching (length (users c)) None) [])"
      using at_pc_search[of 0 c name None None junk msg "[]"] assms(8) None by (simp add: at_pc_def threads_start_def)
    moreover have "?R (at_pc c (Searching (length (users c)) None) []) (at_pc c (Returned False) ([] @ []))"
      by (rule at_pc_send) simp_all
    ultimately have "?R\<^sup>*\<^sup>* (threads_start c Idle) (at_pc c (Returned False) [])" by simp
    with r show ?thesis by (intro exI[of _ "at_pc c (Returned False) []"]) (simp add: at_pc_def)
  next
    case (Some u)
    then have st: "send_tries acks (uip u, uport u) (text_of msg) (Message (trans_message junk (str_at name 0))) c = (ok, out, d)"
      using assms S by simp
    have "ask_server junk name = Inr (trans_message junk (str_at name 0))" using ask_server_found[OF assms(1)] assms(8) Some by simp
    from at_pc_tries[OF _ this assms(5) st, of 0 "[]"] assms(6) obtain e es' where
      "?R\<^sup>*\<^sup>* (at_pc c (Begin 0 u) []) (at_pc e (Returned ok) es')" "sent_by es' = out" by auto
    with at_pc_found[OF _ assms(2-4), of c name u junk] assms(8) Some
    show ?thesis by (intro exI[of _ "at_pc e (Returned ok) es'"]) (auto simp: at_pc_def intro: rtranclp_trans)
  qed
qed

text \<open>
  C13.  What the sending thread can send and return beside the receiving thread, whatever arrives and
  however the threads are scheduled, is what the function SendMessageTo gives for the five answers, if each try
  is acknowledged, that it has as an argument: all of that and nothing else.
\<close>

theorem sending_refines:
  assumes "well_named junk name c" and "msg = t @ 0 # z" and "0 \<notin> set t" and "length t < 256" and "length (recvd c) = P2P_SIZE"
  shows "(\<exists>s. (thread_step junk name msg)\<^sup>*\<^sup>* (threads_start c Idle) s \<and> sending s = Returned ok \<and> sent_by (events s) = out) \<longleftrightarrow>
    (\<exists>acks d. length acks = MAXRETRY \<and> SendMessageTo junk acks name msg c = Inr (ok, out, d))"
proof -
  obtain found where f: "find_last (users c) name None = Inr found"
    using find_last_total[of "users c" name None] assms(1) by (auto simp: well_named_def)
  from interleaving_is_result[OF assms(1-4) _ _ f] result_has_interleaving[OF assms _ _ f] show ?thesis by blast
qed

section \<open>What an acknowledgement says\<close>

text \<open>An acknowledgement since the flag was last reset.\<close>

definition acked_since :: "event list \<Rightarrow> bool" where
  "acked_since es \<longleftrightarrow> (\<exists>p q e. es = p @ Cleared # q \<and> Cleared \<notin> set q \<and> Acked e \<in> set q)"

lemma acked_since_append: "acked_since es \<Longrightarrow> Cleared \<notin> set es' \<Longrightarrow> acked_since (es @ es')"
  unfolding acked_since_def by (metis UnCI Un_iff append_Cons append_assoc set_append)

lemma received_clear [simp]: "Cleared \<notin> set (received r s a out)"
  by (auto simp: received_def)

lemma acked_since_received:
  assumes "Cleared \<in> set es" and "is_ack r s (fst a)"
  shows "acked_since (es @ received r s a out)"
proof -
  obtain p q where "es = p @ Cleared # q" "Cleared \<notin> set q" using split_list_last[OF assms(1)] by blast
  then have "es @ received r s a out = p @ Cleared # (q @ received r s a out)" "Cleared \<notin> set (q @ received r s a out)" by simp_all
  moreover have "Acked (snd a) \<in> set (q @ received r s a out)" using assms(2) by (simp add: received_def)
  ultimately show ?thesis unfolding acked_since_def by blast
qed

lemma idle_flag:
  "receiver_step Idle s (d, e) = Inr (r', out, s') \<Longrightarrow> RecvedACK s' \<Longrightarrow> RecvedACK s \<or> is_ack Idle s d"
  by (cases "recv_into (recvd s) d") (auto simp: Let_def is_ack_def split: if_splits)

lemma receiver_step_flag:
  assumes "receiver_step r s a = Inr (r', out, s')" and "RecvedACK s'"
  shows "RecvedACK s \<or> is_ack r s (fst a)"
proof (cases r)
  case Idle
  with idle_flag[of s "fst a" "snd a"] assms show ?thesis by simp
qed (use assms in \<open>cases a; auto simp: Let_def cbind_Inr_iff split: option.splits if_splits\<close>)+

definition in_try :: "sender \<Rightarrow> bool" where
  "in_try w \<longleftrightarrow> (\<exists>i j u. w \<in> {Head i u, Body i u, Poll i j u})"

definition ack_inv :: "threads \<Rightarrow> bool" where
  "ack_inv t \<longleftrightarrow> (in_try (sending t) \<longrightarrow> Cleared \<in> set (events t) \<and> (RecvedACK (client t) \<longrightarrow> acked_since (events t))) \<and>
     (sending t = Returned True \<longrightarrow> acked_since (events t))"

lemma sender_step_ack:
  assumes "sender_step junk name msg w s = (w', es', s')"
    and "in_try w \<Longrightarrow> Cleared \<in> set es \<and> (RecvedACK s \<longrightarrow> acked_since es)" and "w \<noteq> Returned True"
  shows "(in_try w' \<longrightarrow> Cleared \<in> set (es @ es') \<and> (RecvedACK s' \<longrightarrow> acked_since (es @ es'))) \<and>
    (w' = Returned True \<longrightarrow> acked_since (es @ es'))"
  using assms by (cases w) (auto simp: in_try_def acked_since_append split: sum.splits option.splits if_splits)

interpretation acked: step_system "\<lambda>t. \<exists>s r. t = threads_start s r" "thread_step junk name msg" ack_inv for junk name msg
proof
  show "\<exists>s r. t = threads_start s r \<Longrightarrow> ack_inv t" for t
    by (auto simp: threads_start_def ack_inv_def in_try_def)
  show "ack_inv t'" if step: "thread_step junk name msg t t'" and inv: "ack_inv t" for t t'
    using step
  proof cases
    case send
    obtain w es s where w: "sender_step junk name msg (sending t) (client t) = (w, es, s)" by (cases rule: prod_cases3)
    have "sending t \<noteq> Returned True" using send(2) by auto
    with sender_step_ack[OF w, of "events t"] inv have "(in_try w \<longrightarrow> Cleared \<in> set (events t @ es) \<and> (RecvedACK s \<longrightarrow> acked_since (events t @ es))) \<and>
        (w = Returned True \<longrightarrow> acked_since (events t @ es))" by (simp add: ack_inv_def)
    with w send show ?thesis by (simp add: ack_inv_def)
  next
    case (receive a r out s)
    with receiver_step_flag[OF receive(4)] inv show ?thesis
      by (auto simp: ack_inv_def in_try_def intro: acked_since_append acked_since_received)
  qed (simp add: ack_inv_def in_try_def)
qed

lemma ack_from_anyone:
  assumes "find_last (users c) name None = Inr (Some u)" and "msg = t @ 0 # z" and "0 \<notin> set t" and "length t < 256"
    and "length (recvd c) = P2P_SIZE"
  shows "(thread_step junk name msg)\<^sup>*\<^sup>* (threads_start c Idle)
    (at_pc (c\<lparr>RecvedACK := False, recvd := ack_datagram, RecvedACK := True\<rparr>) (Returned True)
      [Cleared, Acked anyone, Emitted (message_head msg) (uip u, uport u), Emitted (Text (text_of msg)) (uip u, uport u)])"
proof -
  let ?R = "thread_step junk name msg" and ?to = "(uip u, uport u)" and ?c = "c\<lparr>RecvedACK := False\<rparr>"
  let ?h = "Emitted (message_head msg) ?to" and ?b = "Emitted (Text (text_of msg)) ?to"
  let ?d = "?c\<lparr>recvd := ack_datagram, RecvedACK := True\<rparr>"
  note b = at_pc_found[OF assms(1-4), of junk]
  have "?R (at_pc c (Begin 0 u) []) (at_pc ?c (Head 0 u) ([] @ [Cleared]))"
    by (rule at_pc_send) (simp_all add: MAXRETRY_def)
  moreover have "?R (at_pc ?c (Head 0 u) ([] @ [Cleared])) (at_pc ?d (Head 0 u) (([] @ [Cleared]) @ [Acked anyone]))"
    by (rule at_pc_ack) (use assms(5) in simp_all)
  moreover have "?R (at_pc ?d (Head 0 u) (([] @ [Cleared]) @ [Acked anyone])) (at_pc ?d (Body 0 u) ((([] @ [Cleared]) @ [Acked anyone]) @ [?h]))"
    by (rule at_pc_send) simp_all
  moreover have "?R (at_pc ?d (Body 0 u) ((([] @ [Cleared]) @ [Acked anyone]) @ [?h]))
      (at_pc ?d (Poll 0 0 u) (((([] @ [Cleared]) @ [Acked anyone]) @ [?h]) @ [?b]))"
    by (rule at_pc_send) simp_all
  moreover have "?R (at_pc ?d (Poll 0 0 u) (((([] @ [Cleared]) @ [Acked anyone]) @ [?h]) @ [?b]))
      (at_pc ?d (Returned True) ((((([] @ [Cleared]) @ [Acked anyone]) @ [?h]) @ [?b]) @ []))"
    by (rule at_pc_send) simp_all
  ultimately show ?thesis using b by simp
qed

lemma ack_is_lost:
  assumes "find_last (users c) name None = Inr (Some u)" and "msg = t @ 0 # z" and "0 \<notin> set t" and "length t < 256"
    and "length (recvd c) = P2P_SIZE" and "ask_server junk name = Inr m"
  shows "\<exists>d es. (thread_step junk name msg)\<^sup>*\<^sup>* (threads_start c Idle) (at_pc d (Returned False)
    (es @ [Cleared, Emitted (message_head msg) (uip u, uport u), Emitted (Text (text_of msg)) (uip u, uport u),
      Acked (uip u, uport u), Emitted (Message m) (server c)]))"
proof -
  let ?R = "thread_step junk name msg" and ?to = "(uip u, uport u)"
  let ?h = "Emitted (message_head msg) ?to" and ?b = "Emitted (Text (text_of msg)) ?to"
  note b = at_pc_found[OF assms(1-4), of junk]
  have tries: "i < MAXRETRY \<Longrightarrow> \<exists>c' es. ?R\<^sup>*\<^sup>* (threads_start c Idle) (at_pc c' (Begin i u) es) \<and> length (recvd c') = P2P_SIZE \<and> server c' = server c" for i
  proof (induction i)
    case (Suc i)
    then obtain c' es where "?R\<^sup>*\<^sup>* (threads_start c Idle) (at_pc c' (Begin i u) es)" "length (recvd c') = P2P_SIZE" "server c' = server c" by auto
    with at_pc_fail[OF _ assms(6), of i msg c' u es] Suc.prems show ?case
      by (intro exI[of _ "c'\<lparr>RecvedACK := False\<rparr>"] exI[of _ "es @ [Cleared, ?h, ?b, Emitted (Message m) (server c)]"]) auto
  qed (use b assms(5) in blast)
  from tries[of 4] obtain c' es where t: "?R\<^sup>*\<^sup>* (threads_start c Idle) (at_pc c' (Begin 4 u) es)" "length (recvd c') = P2P_SIZE" "server c' = server c"
    by (auto simp: MAXRETRY_def)
  let ?c' = "c'\<lparr>RecvedACK := False\<rparr>" and ?es = "es @ [Cleared, ?h, ?b]"
  let ?d' = "?c'\<lparr>recvd := ack_datagram, RecvedACK := True\<rparr>"
  have "?R\<^sup>*\<^sup>* (at_pc c' (Begin 4 u) es) (at_pc ?c' (Poll 4 10 u) ?es)"
    using at_pc_try[of 4 junk name msg c' u es] at_pc_polls[of ?c' 10 junk name msg 4 u ?es] by (auto simp: MAXRETRY_def)
  moreover have "?R (at_pc ?c' (Poll 4 10 u) ?es) (at_pc ?d' (Poll 4 10 u) (?es @ [Acked ?to]))"
    by (rule at_pc_ack) (use t(2) in simp_all)
  moreover have "?R (at_pc ?d' (Poll 4 10 u) (?es @ [Acked ?to])) (at_pc ?d' (Begin 5 u) ((?es @ [Acked ?to]) @ [Emitted (Message m) (server c)]))"
    by (rule at_pc_send) (use assms(6) t(3) in simp_all)
  moreover have "?R (at_pc ?d' (Begin 5 u) ((?es @ [Acked ?to]) @ [Emitted (Message m) (server c)]))
      (at_pc ?d' (Returned False) (((?es @ [Acked ?to]) @ [Emitted (Message m) (server c)]) @ []))"
    by (rule at_pc_send) (simp_all add: MAXRETRY_def)
  ultimately show ?thesis using t(1) by (intro exI[of _ ?d'] exI[of _ es]) simp
qed

text \<open>
  C26.  Whatever messages of the protocol arrive, one after the other, the receiving thread acknowledges every
  text to the one who sent it, punches a hole to every peer it is asked to call, and answers nothing
  else; it shows the texts in their order, keeps the users of the last list, and sets the flag when
  one of the messages is an acknowledgement.
\<close>

theorem receiver_answers:
  assumes "length (recvd s) = P2P_SIZE" and "list_all incoming_ok xs"
  shows "\<exists>s'. receiver_run Idle s (concat (map (datagrams j) xs)) = Inr (Idle, concat (map answers xs), s') \<and>
    shown s' = shown s @ concat (map texts_in xs) \<and> users s' = foldl users_in (users s) xs \<and>
    (RecvedACK s' \<longleftrightarrow> RecvedACK s \<or> list_ex acks_in xs)"
  using assms
proof (induction xs arbitrary: s)
  case (Cons x xs)
  let ?rest = "concat (map (datagrams j) xs)"
  obtain s1 where s1: "client_step s (datagrams j x @ ?rest) = Some (Inr (answers x, s1, ?rest))" "length (recvd s1) = P2P_SIZE"
    "shown s1 = shown s @ texts_in x" "users s1 = users_in (users s) x" "RecvedACK s1 \<longleftrightarrow> RecvedACK s \<or> acks_in x"
    using client_incoming[OF Cons.prems(1), of x j ?rest] Cons.prems(2) by auto
  have "receiver_run Idle s (datagrams j x @ ?rest) =
      cbind (receiver_run Idle s1 ?rest) (\<lambda>(r', out', s''). Inr (r', answers x @ out', s''))"
    using receiver_implements[of s "datagrams j x @ ?rest"] s1(1) by simp
  with Cons.IH[OF s1(2)] Cons.prems(2) s1(3-5) show ?case by auto
qed simp

text \<open>
  C27.  SendMessageTo returns true only after an acknowledgement that the receiving thread handled since the flag was reset
  for the last try.
\<close>

theorem send_ok_acked:
  assumes "(thread_step junk name msg)\<^sup>*\<^sup>* (threads_start s r) t" and "sending t = Returned True"
  shows "acked_since (events t)"
  using acked.reach_inv[OF _ assms(1)] assms(2) by (auto simp: ack_inv_def)

text \<open>
  C15.  But the acknowledgement can come from anyone, and before the message is sent: the thread does not look at its sender.
  And one that comes in time from the user himself can be lost: the flag is not tested after the last of the ten
  pauses of a try.
\<close>

theorem acks_misjudged:
  assumes "find_last (users c) name None = Inr (Some u)" and "msg = t @ 0 # z" and "0 \<notin> set t" and "length t < 256"
    and "length (recvd c) = P2P_SIZE" and "ask_server junk name = Inr m"
  shows "(\<exists>s. (thread_step junk name msg)\<^sup>*\<^sup>* (threads_start c Idle) s \<and> sending s = Returned True \<and>
      events s = [Cleared, Acked anyone, Emitted (message_head msg) (uip u, uport u), Emitted (Text (text_of msg)) (uip u, uport u)]) \<and>
    (\<exists>s es. (thread_step junk name msg)\<^sup>*\<^sup>* (threads_start c Idle) s \<and> sending s = Returned False \<and>
      events s = es @ [Cleared, Emitted (message_head msg) (uip u, uport u), Emitted (Text (text_of msg)) (uip u, uport u),
        Acked (uip u, uport u), Emitted (Message m) (server c)])"
proof -
  have at: "sending (at_pc d w es) = w \<and> events (at_pc d w es) = es" for d w es by (simp add: at_pc_def)
  show ?thesis using ack_from_anyone[OF assms(1-5), of junk anyone] ack_is_lost[OF assms] at by metis
qed

text \<open>
  The list of users is shared without a lock: a search that is on while the answer to "getu" empties the list
  goes on in a list that is gone.
\<close>

theorem search_can_race:
  assumes "length (recvd c) = P2P_SIZE"
  shows "\<exists>s. (thread_step junk name msg)\<^sup>*\<^sup>* (threads_start c Idle) s \<and> sending s = Raced"
proof -
  let ?b = "int_bytes GETALLUSER" and ?n = "int_bytes 0"
  let ?c = "c\<lparr>recvd := ?b @ drop 4 (recvd c)\<rparr>"
  have r: "receiver_step Idle c (Some ?b, server c) = Inr (Counting, [], ?c)"
    using assms message_type_bytes[of GETALLUSER "drop 4 (recvd c)"] by (simp add: recv_into_fits P2P_SIZE_def message_types)
  have "bytes_int ?n = 0" by code_simp
  then have "receiver_step Counting ?c (Some ?n, server c) = Inr (Idle, [], ?c\<lparr>users := []\<rparr>)" by (simp flip: length_0_conv)
  then have "thread_step junk name msg \<lparr>client = ?c, sending = Searching 0 None, receiving = Counting, events = []\<rparr>
      \<lparr>client = ?c\<lparr>users := []\<rparr>, sending = Raced, receiving = Idle, events = received Counting ?c (Some ?n, server c) []\<rparr>"
    using thread_step.receive[of "\<lparr>client = ?c, sending = Searching 0 None, receiving = Counting, events = []\<rparr>"
        "(Some ?n, server c)" Idle "[]" "?c\<lparr>users := []\<rparr>" junk name msg] by (simp add: list_race_def)
  moreover have "thread_step junk name msg (threads_start c Idle)
      \<lparr>client = ?c, sending = Searching 0 None, receiving = Counting, events = []\<rparr>"
    using thread_step.receive[of "threads_start c Idle" "(Some ?b, server c)" Counting "[]" ?c junk name msg] r message_type_bytes[of GETALLUSER "drop 4 (recvd c)"]
      assms by (simp add: threads_start_def list_race_def received_def is_ack_def recv_into_fits P2P_SIZE_def message_types)
  ultimately show ?thesis by (meson converse_rtranclp_into_rtranclp rtranclp.rtrancl_refl threads.select_convs(2))
qed

section \<open>Concrete runs\<close>

lemma alice_to_bob:
  "well_named (replicate 24 9) (ascii ''bob'' @ [0]) alice_client"
  "find_last (users alice_client) (ascii ''bob'' @ [0]) None = Inr (Some bob)"
  "0 \<notin> set (ascii ''hi'')" "length (ascii ''hi'') < 256"
  "ask_server (replicate 24 9) (ascii ''bob'' @ [0]) = Inr (trans_message (replicate 24 9) (ascii ''bob''))"
proof -
  show w: "well_named (replicate 24 9) (ascii ''bob'' @ [0]) alice_client"
    using some_users(1,2) by (simp add: well_named_def MESSAGE_SIZE_def)
  show f: "find_last (users alice_client) (ascii ''bob'' @ [0]) None = Inr (Some bob)"
    by (rule find_last_named[OF some_users(1-3)])
  have "str_at (ascii ''bob'' @ [0]) 0 = ascii ''bob''" by code_simp
  with ask_server_found[OF w f] show "ask_server (replicate 24 9) (ascii ''bob'' @ [0]) = Inr (trans_message (replicate 24 9) (ascii ''bob''))"
    by simp
qed (simp_all add: ascii_def)

theorem sending_ends_witness:
  "\<exists>t'. (sender_own [] [0] [0])\<^sup>*\<^sup>* (threads_start alice_client Idle) t' \<and> \<not> running (sending t')"
  using sending_ends[OF rtranclp.rtrancl_refl[of "thread_step [] [0] [0]"]] by blast

theorem sending_refines_witness:
  "\<exists>s d. (thread_step (replicate 24 9) (ascii ''bob'' @ [0]) (ascii ''hi'' @ [0]))\<^sup>*\<^sup>* (threads_start alice_client Idle) s \<and>
     sending s = Returned True \<and>
     SendMessageTo (replicate 24 9) [False, True, True, True, True] (ascii ''bob'' @ [0]) (ascii ''hi'' @ [0]) alice_client =
       Inr (True, sent_by (events s), d)"
proof -
  let ?acks = "[False, True, True, True, True]" and ?hi = "ascii ''hi'' @ [0]"
  obtain out d where o: "SendMessageTo (replicate 24 9) ?acks (ascii ''bob'' @ [0]) ?hi alice_client = Inr (True, out, d)"
    using SendMessageTo_steps[OF alice_to_bob(1,2) _ alice_to_bob(3,4), of ?hi "[]" ?acks] by (simp add: send_tries_eq Let_def MAXRETRY_def)
  have "length ?acks = MAXRETRY" by (simp add: MAXRETRY_def)
  with sending_refines[OF alice_to_bob(1) _ alice_to_bob(3,4) some_users(6), of ?hi "[]" True out] o show ?thesis by auto
qed

theorem receiver_answers_witness:
  "\<exists>s'. receiver_run Idle alice_client (concat (map (datagrams 9)
      [Users_in [bob, bob] (1, 2), Text_in (ascii ''hi'') (5, 6) (3, 4), Call_in (7, 8) (1, 2), Ack_in (3, 4), Users_in [bob] (1, 2)])) =
      Inr (Idle, [(P2p P2PMESSAGEACK None None, (3, 4)), (P2p P2PTRASH None None, (7, 8))], s') \<and>
    shown s' = shown alice_client @ [ascii ''hi''] \<and> users s' = [bob] \<and> RecvedACK s'"
proof -
  have "user_ok bob" using some_users(1) by (simp add: list_all_iff alice_client_def)
  then show ?thesis
    using receiver_answers[OF some_users(6), of "[Users_in [bob, bob] (1, 2), Text_in (ascii ''hi'') (5, 6) (3, 4), Call_in (7, 8) (1, 2),
        Ack_in (3, 4), Users_in [bob] (1, 2)]" 9] alice_to_bob(3,4) by (simp add: int_max_def del: datagrams.simps wire.simps)
qed

theorem send_ok_acked_witness:
  "\<exists>t. (thread_step [] (ascii ''bob'' @ [0]) (ascii ''hi'' @ [0]))\<^sup>*\<^sup>* (threads_start alice_client Idle) t \<and>
     sending t = Returned True \<and> acked_since (events t)"
proof -
  note run = ack_from_anyone[OF alice_to_bob(2) _ alice_to_bob(3,4) some_users(6), of "ascii ''hi'' @ [0]" "[]" "[]" "(5, 6)"]
  with send_ok_acked[OF run] show ?thesis by (auto simp: at_pc_def)
qed

theorem acks_misjudged_witness:
  "\<exists>s. (thread_step (replicate 24 9) (ascii ''bob'' @ [0]) (ascii ''hi'' @ [0]))\<^sup>*\<^sup>* (threads_start alice_client Idle) s \<and>
     sending s = Returned True \<and> Acked (5, 6) = events s ! 1"
  using acks_misjudged[OF alice_to_bob(2) _ alice_to_bob(3,4) some_users(6) alice_to_bob(5), of "ascii ''hi'' @ [0]" "[]" "(5, 6)"] by auto

end
