(* ===== verification/P2P_Start.thy ===== *)
theory P2P_Start
  imports P2P_Client Mac_Frame
begin

text \<open>
  How the client of the messenger comes to its loop: the calls that set the socket up, the two words that are
  typed, the login and the lines that follow (P2P/P2PClient/P2PClient.cpp).  What is typed is one stream of bytes.
  The server sets itself up with the same functions.
\<close>

section \<open>The socket\<close>

record wsadata =
  wVersion :: "16 word"
  wHighVersion :: "16 word"
  szDescription :: "byte list"
  szSystemStatus :: "byte list"

text \<open>An exception ends the program with status 1.  The result is what is printed.\<close>

definition InitWinSock :: "wsadata option \<Rightarrow> byte list c" where
  "InitWinSock w =
     (case w of None \<Rightarrow> Inl (Exit 1)
      | Some d \<Rightarrow>
          let num = (\<lambda>b :: byte. dec_digits (unat b)); lo = (\<lambda>v. num (ucast v)); hi = (\<lambda>v. num (ucast (drop_bit 8 v))) in
          Inr (ascii ''Using '' @ szDescription d @ ascii '' (Status: '' @ szSystemStatus d @ ascii '')'' @ [10] @
            ascii ''with API versions '' @ lo (wVersion d) @ ascii ''.'' @ hi (wVersion d) @ ascii '' to '' @
            lo (wHighVersion d) @ ascii ''.'' @ hi (wHighVersion d) @ [10, 10]))"

text \<open>SOCKET is an unsigned number.\<close>

definition mksock :: "64 word \<Rightarrow> (64 word) c" where
  "mksock sock = (if sock < 0 then Inl (Exit 1) else Inr sock)"

definition BindSock :: "int \<Rightarrow> unit c" where
  "BindSock r = (if r < 0 then Inl (Exit 1) else Inr ())"

section \<open>What is typed\<close>

text \<open>The operator that reads a word into an array of \<open>n\<close> characters has no bound.\<close>

definition cin_word :: "nat \<Rightarrow> byte list \<Rightarrow> (mem \<times> byte list) c" where
  "cin_word n ins =
     (let t = dropWhile is_space ins; w = takeWhile (\<lambda>b. \<not> is_space b) t in
      cbind (wrs (replicate n 0) 0 (w @ [0])) (\<lambda>m. Inr (m, dropWhile (\<lambda>b. \<not> is_space b) t)))"

text \<open>The lines that gets reads, up to the end of the input.\<close>

function input_lines :: "byte list \<Rightarrow> byte list list" where
  "input_lines ins =
     (if ins = [] then [] else takeWhile (\<lambda>b. b \<noteq> 10) ins # input_lines (drop 1 (dropWhile (\<lambda>b. b \<noteq> 10) ins)))"
  by pat_completeness auto
termination
proof (relation "measure length")
  fix ins :: "byte list"
  assume "ins \<noteq> []"
  then have "length (drop 1 (dropWhile (\<lambda>b. b \<noteq> 10) ins)) < length ins"
    using length_dropWhile_le[of "\<lambda>b. b \<noteq> 10" ins] by (cases ins) (auto simp: less_Suc_eq_le intro: order.trans[OF diff_le_self])
  then show "(drop 1 (dropWhile (\<lambda>b. b \<noteq> 10) ins), ins) \<in> measure length" by simp
qed simp

declare input_lines.simps [simp del]

definition OutputUsage :: "byte list" where
  "OutputUsage =
     ascii ''You can input you command:'' @ [10] @
     ascii ''Command Type:'' @ [34] @ ascii ''send'' @ [34, 44, 34] @ ascii ''exit'' @ [34, 44, 34] @ ascii ''getu'' @ [34, 10] @
     ascii ''Example : send Username Message'' @ [10] @ ascii ''          exit'' @ [10] @ ascii ''          getu'' @ [10, 10]"

section \<open>The program\<close>

text \<open>
  \<open>inet_addr\<close> reads an address; \<open>rbuf\<close> is what the object of the receiving thread holds before the first
  packet.
\<close>

definition client_start :: "(byte list \<Rightarrow> ip) \<Rightarrow> wsadata option \<Rightarrow> 64 word \<Rightarrow> int \<Rightarrow> mem \<Rightarrow> byte list \<Rightarrow> (byte list \<times> p2pclient \<times> byte list) c" where
  "client_start inet_addr w sock bound rbuf stdin =
     cbind (InitWinSock w) (\<lambda>banner.
     cbind (mksock sock) (\<lambda>PrimaryUDP.
     cbind (BindSock bound) (\<lambda>_.
     cbind (cin_word 20 stdin) (\<lambda>(ServerIP, stdin).
     cbind (cin_word 10 stdin) (\<lambda>(name, stdin).
       Inr (banner, \<lparr>users = [], RecvedACK = False, UserName = name, server = (inet_addr (str_at ServerIP 0), SERVER_PORT),
         recvd = rbuf, shown = []\<rparr>, stdin))))))"

text \<open>\<open>acks\<close>: the acknowledgements of the tries, for each line that is typed.\<close>

definition client_program :: "(byte list \<Rightarrow> ip) \<Rightarrow> wsadata option \<Rightarrow> 64 word \<Rightarrow> int \<Rightarrow> mem \<Rightarrow> byte list \<Rightarrow> mem \<Rightarrow> arrivals \<Rightarrow>
    (nat \<Rightarrow> bool list) \<Rightarrow> (byte list \<times> packets \<times> p2pclient) c option" where
  "client_program inet_addr w sock bound rbuf stdin junk ins acks =
     obind (Some (client_start inet_addr w sock bound rbuf stdin)) (\<lambda>(banner, s, rest).
     obind (ConnectToServer junk ins s) (\<lambda>(out, s, ins).
     let ls = input_lines rest in
       Some (cbind (client_commands junk (zip (map acks [0..<length ls]) ls) s) (\<lambda>(out', s). Inr (banner @ OutputUsage, out @ out', s)))))"

section \<open>Words and lines\<close>

lemma cin_word_ok:
  "cin_word n ins = Inr (m, rest) \<longleftrightarrow>
     (let w = takeWhile (\<lambda>b. \<not> is_space b) (dropWhile is_space ins) in
      length w < n \<and> m = w @ replicate (n - length w) 0 \<and> rest = dropWhile (\<lambda>b. \<not> is_space b) (dropWhile is_space ins))"
proof -
  let ?w = "takeWhile (\<lambda>b. \<not> is_space b) (dropWhile is_space ins)"
  show ?thesis
  proof (cases "length ?w < n")
    case True
    then have "wrs (replicate n 0) 0 (?w @ [0]) = Inr (?w @ 0 # replicate (n - Suc (length ?w)) 0)"
      by (simp add: wrs_in)
    moreover have "0 # replicate (n - Suc (length ?w)) (0 :: byte) = replicate (n - length ?w) 0"
      using True by (simp flip: replicate_Suc add: Suc_diff_Suc)
    ultimately show ?thesis using True by (auto simp: cin_word_def Let_def)
  next
    case False
    then have "wrs (replicate n 0) 0 (?w @ [0]) = Inl Write_oob" by (intro wrs_out) simp_all
    with False show ?thesis by (simp add: cin_word_def Let_def)
  qed
qed

lemma typed_word:
  assumes "list_all is_space sp" and "w \<noteq> []" and "list_all (\<lambda>b. \<not> is_space b) w" and "is_space b" and "length w < n"
  shows "cin_word n (sp @ w @ b # rest) = Inr (w @ replicate (n - length w) 0, b # rest)"
proof -
  obtain x w' where w: "w = x # w'" using assms(2) by (cases w) auto
  have "dropWhile is_space (sp @ w @ b # rest) = w @ b # rest"
    using assms(1,3) w by (subst dropWhile_append2) (auto simp: list_all_iff)
  moreover have "takeWhile (\<lambda>b. \<not> is_space b) (w @ b # rest) = w" "dropWhile (\<lambda>b. \<not> is_space b) (w @ b # rest) = b # rest"
    using assms(3,4) by (auto simp: list_all_iff takeWhile_append2 dropWhile_append2)
  ultimately show ?thesis using assms(5) by (simp add: cin_word_ok Let_def)
qed

text \<open>A word that is longer than its array is written past it.\<close>

lemma long_word_overflows:
  assumes "n \<le> length (takeWhile (\<lambda>b. \<not> is_space b) (dropWhile is_space ins))"
  shows "cin_word n ins = Inl Write_oob"
  using assms by (simp add: cin_word_def Let_def wrs_out)

text \<open>
  The socket of a failed call is the largest number, which is not negative: the test of mksock never finds an error.
  The call of bind does.
\<close>

lemma mksock_always: "mksock sock = Inr sock"
  by (simp add: mksock_def)

lemma client_start_ok:
  "client_start inet_addr w sock bound rbuf stdin = Inr (banner, c, rest) \<Longrightarrow>
     w \<noteq> None \<and> 0 \<le> bound \<and> 0 \<in> set (UserName c) \<and> length (UserName c) = NAME_LEN \<and> users c = [] \<and> recvd c = rbuf"
  by (auto simp: client_start_def cbind_Inr_iff cin_word_ok Let_def NAME_LEN_def InitWinSock_def BindSock_def split: option.splits if_splits)

text \<open>
  C25.  From the keyboard to the directory of the server: when the socket is bound, the client that is started with an
  address of at most nineteen and a name of at most nine characters enters that name with the address of its socket
  and has the list of the server, itself included; the lines that follow are left for its commands.  When bind
  fails, as it does on the socket of a failed call of socket, the client ends with status 1.
\<close>

theorem typed_name_logs_in:
  assumes "list_all (\<lambda>b. \<not> is_space b \<and> b \<noteq> 0) (ipw @ nm)" and "ipw \<noteq> []" and "length ipw < 20" and "nm \<noteq> []" and "length nm < 10"
    and "server_ok s" and "int (length (clients s)) < int_max" and "length junk = MESSAGE_SIZE"
  shows "if bound < 0 then client_start inet_addr (Some d) sock bound rbuf (ipw @ 10 # nm @ 10 # ls) = Inl (Exit 1)
    else \<exists>banner c m out s'.
    client_start inet_addr (Some d) sock bound rbuf (ipw @ 10 # nm @ 10 # ls) = Inr (banner, c, 10 # ls) \<and>
    server c = (inet_addr ipw, SERVER_PORT) \<and>
    server_step s (Some m) here = Inr (out, s') \<and> server_ok s' \<and> directory s' = directory s @ [(nm, here)] \<and>
    ConnectToServer junk (map (\<lambda>(p, _). (Some (wire j p), srv)) out) c = Some (Inr ([(Message m, server c)], c\<lparr>users := clients s'\<rparr>, []))"
proof (cases "bound < 0")
  case True
  then show ?thesis by (simp add: client_start_def InitWinSock_def Let_def mksock_always BindSock_def)
next
  case False
  have sp: "is_space 10" by (simp add: is_space_def)
  have l: "list_all (\<lambda>b. \<not> is_space b) ipw" "list_all (\<lambda>b. \<not> is_space b) nm" "0 \<notin> set ipw" "0 \<notin> set nm"
    using assms(1) by (auto simp: list_all_iff)
  let ?c = "\<lparr>users = [], RecvedACK = False, UserName = nm @ replicate (10 - length nm) 0, server = (inet_addr ipw, SERVER_PORT),
    recvd = rbuf, shown = []\<rparr>"
  have "cin_word 20 (ipw @ 10 # nm @ 10 # ls) = Inr (ipw @ replicate (20 - length ipw) 0, 10 # nm @ 10 # ls)"
    using typed_word[of "[]" ipw 10 20] l(1) assms(2,3) sp by simp
  moreover have "cin_word 10 (10 # nm @ 10 # ls) = Inr (nm @ replicate (10 - length nm) 0, 10 # ls)"
    using typed_word[of "[10]" nm 10 10] l(2) assms(4,5) sp by simp
  moreover have str: "w @ replicate k 0 = w @ 0 # replicate (k - 1) 0" if "0 < k" for w :: mem and k
    using that by (cases k) simp_all
  have "str_at (ipw @ replicate (20 - length ipw) 0) 0 = ipw"
    using str[of "20 - length ipw" ipw] assms(3) str_at_text[OF l(3)] by simp
  ultimately obtain banner where start: "client_start inet_addr (Some d) sock bound rbuf (ipw @ 10 # nm @ 10 # ls) = Inr (banner, ?c, 10 # ls)"
    using False by (simp add: client_start_def InitWinSock_def Let_def mksock_always BindSock_def)
  have "str_at (UserName ?c) 0 = nm"
    using str[of "10 - length nm" nm] assms(5) str_at_text[OF l(4)] by simp
  with login_gives_list[OF assms(6) _ _ assms(8,7), of ?c here j srv] client_start_ok[OF start] start
  show ?thesis unfolding if_not_P[OF False] by fastforce
qed

theorem typed_name_logs_in_witness:
  "\<exists>banner c m out s'.
    client_start (\<lambda>_. 7) (Some \<lparr>wVersion = 514, wHighVersion = 514, szDescription = [], szSystemStatus = []\<rparr>) 5 0 []
      (ascii ''10.0.0.1'' @ 10 # ascii ''alice'' @ 10 # ascii ''exit'') = Inr (banner, c, 10 # ascii ''exit'') \<and>
    server_step some_server (Some m) (7, 8) = Inr (out, s') \<and> directory s' = [(ascii ''bob'', (3, 4)), (ascii ''alice'', (7, 8))] \<and>
    ConnectToServer (replicate 24 9) (map (\<lambda>(p, _). (Some (wire 0 p), (1, 2))) out) c = Some (Inr ([(Message m, (7, 2280))], c\<lparr>users := clients s'\<rparr>, []))"
proof -
  have w: "list_all (\<lambda>b. \<not> is_space b \<and> b \<noteq> 0) (ascii ''10.0.0.1'' @ ascii ''alice'')" "ascii ''10.0.0.1'' \<noteq> []"
    "length (ascii ''10.0.0.1'') < 20" "ascii ''alice'' \<noteq> []" "length (ascii ''alice'') < 10" by code_simp+
  have "directory some_server = [(ascii ''bob'', (3, 4))]" by code_simp
  moreover have "int (length (clients some_server)) < int_max" "length (replicate 24 (9 :: byte)) = MESSAGE_SIZE"
    by (simp_all add: MESSAGE_SIZE_def some_server_def int_max_def)
  ultimately show ?thesis
    using typed_name_logs_in[OF w some_users(4), of "replicate 24 9" 0 "\<lambda>_. 7"
      "\<lparr>wVersion = 514, wHighVersion = 514, szDescription = [], szSystemStatus = []\<rparr>" 5 "[]" "ascii ''exit''" "(7, 8)" 0 "(1, 2)"]
    by (fastforce simp: SERVER_PORT_def)
qed

end
