(* ===== verification/Cpu_Usage.thy ===== *)
theory Cpu_Usage
  imports System_Reads Complex_Main "HOL-Library.Log_Nat"
begin

text \<open>
  The share of the processor of sys/sys.c, from two readings of /proc/stat, and the text of random_str in
  Random/random.c.  The arithmetic of float and double is a parameter; a field that fscanf does not store is
  indeterminate.
\<close>

section \<open>A reading\<close>

record 'f occupy =
  oname :: mem
  user :: "'f option"
  nice :: "'f option"
  system :: "'f option"
  idle :: "'f option"

text \<open>
  The arithmetic: sum and difference in float, the share \<open>100.0 * (total - idle) / total\<close>, and what
  \<open>%4.2f\<close> prints of it.
\<close>

record 'f floats =
  fadd :: "'f \<Rightarrow> 'f \<Rightarrow> 'f"
  fsub :: "'f \<Rightarrow> 'f \<Rightarrow> 'f"
  share :: "'f \<Rightarrow> 'f \<Rightarrow> 'f"
  shown_as :: "'f \<Rightarrow> byte list"

text \<open>What the file holds: a word and the numbers that follow it, at most four of which are stored.\<close>

type_synonym 'f stat_file = "(byte list \<times> 'f list) option"

definition stored :: "'f list \<Rightarrow> nat \<Rightarrow> 'f option \<Rightarrow> 'f option" where
  "stored xs i old = (if i < length xs then Some (xs ! i) else old)"

definition get_occupy :: "'f stat_file \<Rightarrow> 'f occupy \<Rightarrow> (int \<times> 'f occupy) c" where
  "get_occupy f o0 =
     (case f of None \<Rightarrow> Inr (-1, o0)
      | Some (w, xs) \<Rightarrow>
          if w = [] then Inr (0, o0)
          else cbind (wrs (oname o0) 0 (w @ [0])) (\<lambda>m.
            Inr (0, \<lparr>oname = m, user = stored xs 0 (user o0), nice = stored xs 1 (nice o0),
              system = stored xs 2 (system o0), idle = stored xs 3 (idle o0)\<rparr>)))"

definition get :: "'f option \<Rightarrow> 'f c" where
  "get x = (case x of None \<Rightarrow> Inl Uninit | Some v \<Rightarrow> Inr v)"

definition busy_sum :: "'f floats \<Rightarrow> 'f occupy \<Rightarrow> 'f c" where
  "busy_sum F r =
     cbind (get (user r)) (\<lambda>u. cbind (get (nice r)) (\<lambda>n. cbind (get (system r)) (\<lambda>s. cbind (get (idle r)) (\<lambda>i.
       Inr (fadd F (fadd F (fadd F u n) s) i)))))"

text \<open>The text is stored in an array of 12 characters.\<close>

definition cal_occupy :: "'f floats \<Rightarrow> 'f occupy \<Rightarrow> 'f occupy \<Rightarrow> mem \<Rightarrow> mem c" where
  "cal_occupy F ocpu ncpu cpu_used =
     cbind (get (idle ncpu)) (\<lambda>i1. cbind (get (idle ocpu)) (\<lambda>i0.
     cbind (busy_sum F ncpu) (\<lambda>s1. cbind (busy_sum F ocpu) (\<lambda>s0.
       wrs cpu_used 0 (shown_as F (share F (fsub F s1 s0) (fsub F i1 i0)) @ [37, 0])))))"

text \<open>
  Nothing clears the array: the arguments of memset are exchanged.  The results of get_occupy are not looked
  at.
\<close>

definition getCpuUsageRate :: "'f floats \<Rightarrow> 'f occupy \<Rightarrow> 'f occupy \<Rightarrow> 'f stat_file \<Rightarrow> 'f stat_file \<Rightarrow> mem \<Rightarrow> mem \<Rightarrow> mem c" where
  "getCpuUsageRate F ocpu ncpu f1 f2 junk buff =
     cbind (get_occupy f1 ocpu) (\<lambda>(_, ocpu).
     cbind (get_occupy f2 ncpu) (\<lambda>(_, ncpu).
     cbind (cal_occupy F ocpu ncpu junk) (\<lambda>cpu_used.
     cbind (strlen cpu_used 0) (\<lambda>k. wrs buff 0 (take (k + 1) cpu_used)))))"

section \<open>The text of a random number\<close>

text \<open>What the command writes; the buffer of 1024 bytes is printed up to its first null byte.\<close>

definition random_str :: "byte list option \<Rightarrow> byte list c" where
  "random_str out =
     (case out of None \<Rightarrow> Inr []
      | Some bs \<Rightarrow>
          let buff = take 1024 bs @ replicate (1024 - length bs) 0 in
          cbind (strlen buff 0) (\<lambda>k. Inr (ascii ''random str: '' @ take k buff)))"

section \<open>The share\<close>

definition unread :: "nat \<Rightarrow> 'f occupy" where
  "unread n = \<lparr>oname = replicate n 0, user = None, nice = None, system = None, idle = None\<rparr>"

lemma get_occupy_reads:
  "0 < length w \<Longrightarrow> length w < n \<Longrightarrow> get_occupy (Some (w, [a, b, c, d])) (unread n) =
     Inr (0, \<lparr>oname = w @ replicate (n - length w) 0, user = Some a, nice = Some b, system = Some c, idle = Some d\<rparr>)"
proof -
  assume w: "0 < length w" "length w < n"
  then have "0 # replicate (n - Suc (length w)) (0 :: byte) = replicate (n - length w) 0"
    by (simp flip: replicate_Suc add: Suc_diff_Suc)
  with w show ?thesis by (auto simp: get_occupy_def unread_def stored_def wrs_in nth_Cons')
qed

text \<open>
  When the file cannot be opened the values that were never stored are used; the result -1 of get_occupy is not looked
  at.  A name of twenty characters is written past its array.
\<close>

lemma unopened_is_uninit:
  "get_occupy f (unread 20) = Inr x \<Longrightarrow> getCpuUsageRate F (unread 20) (unread 20) None f junk buff = Inl Uninit"
  by (auto simp: getCpuUsageRate_def get_occupy_def[of None] cal_occupy_def get_def unread_def split: option.split prod.split)

lemma long_name_overflows: "20 \<le> length w \<Longrightarrow> get_occupy (Some (w, xs)) (unread 20) = Inl Write_oob"
  by (auto simp: get_occupy_def unread_def wrs_out)

text \<open>The arithmetic of exact numbers.\<close>

definition exact :: "(real \<Rightarrow> byte list) \<Rightarrow> real floats" where
  "exact sh = \<lparr>fadd = (+), fsub = (-), share = (\<lambda>total idle. 100 * (total - idle) / total), shown_as = sh\<rparr>"

text \<open>
  Two readings whose counters do not fall, with some time between them, give the busy part of that time in percent:
  with exact arithmetic the share is between 0 and 100.
\<close>

theorem cpu_share_bounds:
  assumes "0 < length w" and "length w < 20" and "u \<le> u'" and "n \<le> n'" and "s \<le> s'" and "i \<le> i'" and "u + n + s + i < u' + n' + s' + i'"
    and "\<And>r. 0 \<le> r \<Longrightarrow> r \<le> 100 \<Longrightarrow> 0 \<notin> set (sh r) \<and> length (sh r) \<le> 6" and "length junk = 12" and "12 \<le> length buff"
  shows "\<exists>r. 0 \<le> r \<and> r \<le> 100 \<and> r * ((u' + n' + s' + i') - (u + n + s + i)) = 100 * ((u' - u) + (n' - n) + (s' - s)) \<and>
    map_sum id (\<lambda>m. str_at m 0) (getCpuUsageRate (exact sh) (unread 20) (unread 20)
      (Some (w, [u, n, s, i])) (Some (w, [u', n', s', i'])) junk buff) = Inr (sh r @ [37])"
proof -
  let ?T = "(u' + n' + s' + i') - (u + n + s + i)" and ?B = "(u' - u) + (n' - n) + (s' - s)"
  let ?r = "100 * (?T - (i' - i)) / ?T"
  have T: "0 < ?T" using assms(7) by simp
  have b: "?T - (i' - i) = ?B" by simp
  have "0 \<le> ?B" "?B \<le> ?T" using assms(3-6) by simp_all
  then have r: "0 \<le> ?r" "?r \<le> 100" unfolding b using T by (simp_all add: divide_simps)
  have x: "?r * ?T = 100 * ?B" unfolding b using T by simp
  have l: "0 \<notin> set (sh ?r @ [37])" "length (sh ?r) \<le> 6" using assms(8)[OF r] by auto
  have "wrs junk 0 (sh ?r @ [37, 0]) = Inr ((sh ?r @ [37]) @ 0 # drop (length (sh ?r) + 2) junk)"
    using l(2) assms(9) by (simp add: wrs_in)
  moreover have "strlen ((sh ?r @ [37]) @ 0 # drop (length (sh ?r) + 2) junk) 0 = Inr (length (sh ?r @ [37]))"
    by (rule strlen_text[OF l(1)])
  moreover have "wrs buff 0 ((sh ?r @ [37]) @ [0]) = Inr ((sh ?r @ [37]) @ 0 # drop (length (sh ?r) + 2) buff)"
    using l(2) assms(10) by (simp add: wrs_in)
  ultimately have "getCpuUsageRate (exact sh) (unread 20) (unread 20) (Some (w, [u, n, s, i])) (Some (w, [u', n', s', i'])) junk buff =
      Inr ((sh ?r @ [37]) @ 0 # drop (length (sh ?r) + 2) buff)"
    using assms(1,2) by (simp add: getCpuUsageRate_def get_occupy_reads cal_occupy_def busy_sum_def get_def exact_def)
  moreover have "str_at ((sh ?r @ [37]) @ 0 # drop (length (sh ?r) + 2) buff) 0 = sh ?r @ [37]"
    by (rule str_at_text[OF l(1)])
  ultimately show ?thesis using r x by (intro exI[of _ ?r]) simp
qed

theorem cpu_share_bounds_witness:
  "\<exists>r :: real. 0 \<le> r \<and> r \<le> 100 \<and> r * 40 = 100 * 10 \<and>
    map_sum id (\<lambda>m. str_at m 0) (getCpuUsageRate (exact (\<lambda>_. ascii ''25.00'')) (unread 20) (unread 20)
      (Some (ascii ''cpu'', [426215, 701, 115732, 2023866])) (Some (ascii ''cpu'', [426221, 701, 115736, 2023896])) (replicate 12 9) (replicate 12 9)) =
      Inr (ascii ''25.00'' @ [37])"
proof -
  have "0 \<notin> set (ascii ''25.00'') \<and> length (ascii ''25.00'') \<le> 6" "length (ascii ''cpu'') = 3" by code_simp+
  then show ?thesis
    using cpu_share_bounds[of "ascii ''cpu''" 426215 426221 701 701 115732 115736 2023866 2023896 "\<lambda>_. ascii ''25.00''" "replicate 12 9" "replicate 12 9"]
    by simp
qed

text \<open>
  But a float has 24 bits.  Whole numbers rounded to that: in counters beyond two thousand million, which all processors
  of a server reach in days, the 40 units of the 0.4 seconds are lost, and the share is a division of zero by zero.
\<close>

definition round24 :: "int \<Rightarrow> int" where
  "round24 x =
     (let u = 2 ^ (floorlog 2 (nat x) - 24); q = x div u; r = x mod u in
      if 2 * r < u \<or> 2 * r = u \<and> even q then q * u else (q + 1) * u)"

lemma float_loses_time:
  "round24 (2147483648 + 40) = round24 2147483648"
  "busy_sum \<lparr>fadd = \<lambda>a b. round24 (a + b), fsub = \<lambda>a b. round24 (a - b), share = sh, shown_as = f\<rparr>
     \<lparr>oname = m, user = Some (round24 5000), nice = Some 0, system = Some (round24 3000), idle = Some (round24 (2147483648 + 40))\<rparr> =
   busy_sum \<lparr>fadd = \<lambda>a b. round24 (a + b), fsub = \<lambda>a b. round24 (a - b), share = sh, shown_as = f\<rparr>
     \<lparr>oname = m, user = Some (round24 5000), nice = Some 0, system = Some (round24 3000), idle = Some (round24 2147483648)\<rparr>"
proof -
  have "floorlog 2 2147483688 = 32" "floorlog 2 2147483648 = 32" by (simp_all add: compute_floorlog)
  then show "round24 (2147483648 + 40) = round24 2147483648" by (simp add: round24_def Let_def)
  then show "busy_sum \<lparr>fadd = \<lambda>a b. round24 (a + b), fsub = \<lambda>a b. round24 (a - b), share = sh, shown_as = f\<rparr>
     \<lparr>oname = m, user = Some (round24 5000), nice = Some 0, system = Some (round24 3000), idle = Some (round24 (2147483648 + 40))\<rparr> =
   busy_sum \<lparr>fadd = \<lambda>a b. round24 (a + b), fsub = \<lambda>a b. round24 (a - b), share = sh, shown_as = f\<rparr>
     \<lparr>oname = m, user = Some (round24 5000), nice = Some 0, system = Some (round24 3000), idle = Some (round24 2147483648)\<rparr>"
    by (simp add: busy_sum_def get_def)
qed

section \<open>What random_str prints\<close>

text \<open>A command that fills the buffer without a null byte makes printf read past it; a shorter output is printed.\<close>

lemma random_str_prints:
  "random_str (Some bs) = Inl Read_oob \<longleftrightarrow> 1024 \<le> length bs \<and> 0 \<notin> set (take 1024 bs)"
  "0 \<notin> set bs \<Longrightarrow> length bs < 1024 \<Longrightarrow> random_str (Some bs) = Inr (ascii ''random str: '' @ bs)"
proof -
  show "random_str (Some bs) = Inl Read_oob \<longleftrightarrow> 1024 \<le> length bs \<and> 0 \<notin> set (take 1024 bs)"
    by (auto simp: random_str_def Let_def strlen_def cbind_Inl_iff split: if_splits)
  assume b: "0 \<notin> set bs" "length bs < 1024"
  then obtain k where "1024 - length bs = Suc k" by (metis Suc_diff_Suc)
  with b show "random_str (Some bs) = Inr (ascii ''random str: '' @ bs)"
    using strlen_text[OF b(1)] by (simp add: random_str_def Let_def)
qed

section \<open>The current time\<close>

text \<open>sysCurrTime: the seconds of the time of day.\<close>

definition sysCurrTime :: "int \<times> int \<Rightarrow> int" where
  "sysCurrTime tv = fst tv"

end
