(* ===== verification/Time_Demo.thy ===== *)
theory Time_Demo
  imports System_Reads
begin

text \<open>
  The program Time/time_demo.c: the clocks it reads, the conversions of the library between seconds, broken-down
  times and text, which are parameters, and what it prints.
\<close>

record broken_down =
  tm_sec :: int
  tm_min :: int
  tm_hour :: int
  tm_mday :: int
  tm_mon :: int
  tm_year :: int

text \<open>A line with its numbers, and a text on a line of its own.\<close>

datatype printed = Second int | Millisecond int | Microsecond int | Now_text "byte list" | Seconds_text "byte list"
  | Up_seconds "32 word" | Up_parts "32 word \<times> 32 word \<times> 32 word \<times> 32 word" | Boot_time "int list" | Up_nsec "64 word"

text \<open>
  The functions of the library: localtime, which may return null, strftime into 255 bytes for the two formats of the program, and strptime,
  whose result is read only when the text is one it accepts.
\<close>

record library =
  localtime :: "int \<Rightarrow> broken_down option"
  date_text :: "broken_down \<Rightarrow> byte list"
  seconds_text :: "broken_down \<Rightarrow> byte list"
  read_date :: "byte list \<Rightarrow> broken_down option"

definition deref :: "'a option \<Rightarrow> 'a c" where
  "deref x = (case x of None \<Rightarrow> Inl Null_deref | Some v \<Rightarrow> Inr v)"

definition known :: "'a option \<Rightarrow> 'a c" where
  "known x = (case x of None \<Rightarrow> Inl Uninit | Some v \<Rightarrow> Inr v)"

text \<open>
  \<open>t\<close> and \<open>now\<close>: what the two calls of time return; \<open>tv\<close>: the seconds and microseconds; \<open>up\<close>: the
  time since the start, when sysinfo succeeds, which is not tested; \<open>clock\<close>: the seconds and nanoseconds of the
  monotonic clock.
\<close>

definition time_demo :: "library \<Rightarrow> int \<Rightarrow> int \<times> int \<Rightarrow> int option \<Rightarrow> int \<Rightarrow> 64 word \<times> 64 word \<Rightarrow> printed list c" where
  "time_demo L t tv up now clock =
     (let (s, ms, us) = printed_times (fst tv) (snd tv) in
      cbind (deref (localtime L t)) (\<lambda>lt.
      let tmpBuf = date_text L lt in
      cbind (known (read_date L tmpBuf)) (\<lambda>tm.
      cbind (known up) (\<lambda>uptime.
      let seconds = word_of_int uptime in
      cbind (deref (localtime L (now - uptime))) (\<lambda>p.
        Inr [Second s, Millisecond ms, Microsecond us, Now_text tmpBuf, Seconds_text (seconds_text L tm),
          Up_seconds seconds, Up_parts (up_time seconds),
          Boot_time [1900 + tm_year p, 1 + tm_mon p, tm_mday p, tm_hour p, tm_min p, tm_sec p],
          Up_nsec (time_nsec (fst clock) (snd clock))])))))"

text \<open>
  With a library whose conversions are inverse to each other the text of the current time reads back as the same second,
  and the start of the system lies the printed days, hours, minutes and seconds before the current time.
\<close>

theorem time_demo_consistent:
  assumes "time_demo L t tv (Some up) now clock = Inr out" and "0 \<le> up" and "up < 2 ^ 32"
    and "\<And>x y. localtime L x = Some y \<Longrightarrow> read_date L (date_text L y) = Some y"
    and "\<And>x y. localtime L x = Some y \<Longrightarrow> seconds_text L y = num x"
  shows "Seconds_text (num t) \<in> set out \<and>
    (\<exists>d h m s p. Up_parts (d, h, m, s) \<in> set out \<and>
      localtime L (now - (int (unat d) * 86400 + int (unat h) * 3600 + int (unat m) * 60 + int (unat s))) = Some p \<and>
      Boot_time [1900 + tm_year p, 1 + tm_mon p, tm_mday p, tm_hour p, tm_min p, tm_sec p] \<in> set out)"
proof -
  obtain lt p where l: "localtime L t = Some lt" "localtime L (now - up) = Some p"
    and o: "out = [Second (fst tv), Millisecond (fst tv + snd tv div 1000), Microsecond (fst tv * 1000000 + snd tv), Now_text (date_text L lt),
      Seconds_text (num t), Up_seconds (word_of_int up), Up_parts (up_time (word_of_int up)),
      Boot_time [1900 + tm_year p, 1 + tm_mon p, tm_mday p, tm_hour p, tm_min p, tm_sec p], Up_nsec (time_nsec (fst clock) (snd clock))]"
    using assms(1,4,5) by (auto simp: time_demo_def Let_def deref_def known_def cbind_Inr_iff printed_times_def split: option.splits prod.splits)
  obtain d h m s where u: "up_time (word_of_int up) = (d, h, m, s)" by (cases "up_time (word_of_int up)") auto
  have w: "int (unat (word_of_int up :: 32 word)) = up"
    using assms(2,3) by (simp add: uint_nat[symmetric] unsigned_of_int take_bit_int_eq_self)
  have "unat d * 86400 + unat h * 3600 + unat m * 60 + unat s = unat (word_of_int up :: 32 word)"
    using up_time_parts[of "word_of_int up"] u by simp
  with w have "int (unat d) * 86400 + int (unat h) * 3600 + int (unat m) * 60 + int (unat s) = up"
    by (metis (no_types, opaque_lifting) of_nat_add of_nat_mult of_nat_numeral)
  then have "localtime L (now - (int (unat d) * 86400 + int (unat h) * 3600 + int (unat m) * 60 + int (unat s))) = Some p"
    using l(2) by simp
  moreover have "Up_parts (d, h, m, s) \<in> set out" unfolding o using u by simp
  ultimately show ?thesis unfolding o by fastforce
qed

text \<open>A clock of 256 seconds.\<close>

definition small_library :: library where
  "small_library = \<lparr>
     localtime = (\<lambda>x. if 0 \<le> x \<and> x < 256 then Some \<lparr>tm_sec = x, tm_min = 0, tm_hour = 0, tm_mday = 1, tm_mon = 0, tm_year = 70\<rparr> else None),
     date_text = (\<lambda>y. [word_of_int (tm_sec y)]), seconds_text = (\<lambda>y. [word_of_int (tm_sec y)]),
     read_date = (\<lambda>bs. case bs of [b] \<Rightarrow> Some \<lparr>tm_sec = uint b, tm_min = 0, tm_hour = 0, tm_mday = 1, tm_mon = 0, tm_year = 70\<rparr> | _ \<Rightarrow> None)\<rparr>"

theorem time_demo_consistent_witness:
  "\<exists>out. time_demo small_library 150 (150, 7) (Some 100) 200 (100, 0) = Inr out \<and> Seconds_text [150] \<in> set out \<and>
     Boot_time [1970, 1, 1, 0, 0, 100] \<in> set out"
proof -
  obtain out where o: "time_demo small_library 150 (150, 7) (Some 100) 200 (100, 0) = Inr out"
    by (simp add: time_demo_def small_library_def deref_def known_def printed_times_def Let_def)
  have lib: "read_date small_library (date_text small_library y) = Some y" "seconds_text small_library y = [word_of_int x]"
    if "localtime small_library x = Some y" for x y
    using that by (auto simp: small_library_def unsigned_of_int take_bit_int_eq_self split: if_splits)
  have "Seconds_text [word_of_int 150] \<in> set out"
    using time_demo_consistent[where num = "\<lambda>x. [word_of_int x]", OF o _ _ lib(1) lib(2)] by simp
  moreover have "Boot_time [1970, 1, 1, 0, 0, 100] \<in> set out"
    using o by (auto simp: time_demo_def small_library_def deref_def known_def printed_times_def Let_def)
  ultimately show ?thesis using o by simp
qed

end
