(* ===== verification/Spec2Isabelle.thy ===== *)
theory Spec2Isabelle
  imports Url Heap Linklist BSTree Ring_Buffer Nat_Server Cdecl_FSM Array_Practice Hex_Version Encrypt
    Codec_Tests File_Tools Numbers Mac_Frame P2P_Client Memory_Leak
    Network_Config Net_Ioctl Udp_Proxy Mac_Receiver Leak_Test Malloc_Hook Unix_Echo Host_Lookup
    Trad_Simp Su_Caps System_Reads Exercises Server_Setup P2P_Threads P2P_Start Cpu_Usage Time_Demo
begin

text \<open>
  \<^bold>\<open>A verification development for Clittle\<close>

  Clittle is a collection of small C programs that share a style but hardly any code: converters
  between character encodings, containers, a message log, a client and three servers that examine a
  network address translator, a messenger that punches holes through one, a checker of memory leaks, a
  declaration reader, ciphers, file tools, a configuration protocol on Ethernet frames, readers and
  writers of network settings, and many exercises.  The development models every part with a logic of its own, one theory per part,
  and proves what makes it correct, or shows exactly where it is not.

  \<^bold>\<open>How C is modelled.\<close>  \<open>C_Prelude\<close>: a computation of type \<open>'a c\<close> is \<open>Inl\<close> of a fault or \<open>Inr\<close> of
  a result.  The faults are reads and writes outside an object, null pointers, indeterminate values,
  bad frees, signed overflow, division by zero, failed asserts and \<open>exit\<close>.  An object is a list of cells
  (\<open>mem\<close> for bytes), a pointer into it an index; \<open>rd\<close>, \<open>wr\<close> and \<open>wrs\<close> check their bounds, and
  the collection \<open>c_text\<close> has the facts on strings at the start of an object.  A pointer
  argument that may be null is an option.  \<open>unsigned int\<close> is \<open>32 word\<close> and wraps; \<open>int\<close> is the HOL type
  checked against its range (\<open>chk\<close>); an int that counts bytes and is never negative, as in the converters of
  strings, is a \<open>nat\<close> with the same check (\<open>chkn\<close>), and indices that stay below the length of an object are plain
  numbers.  A \<open>size_t\<close> or \<open>long\<close> stored in an int keeps its low 32 bits (\<open>int_of_size\<close>, \<open>int_of_long\<close>).  Loops are recursive functions with a termination proof; a loop
  that may run for ever is a \<open>partial_function (option)\<close>, with \<open>None\<close> for a run that does not return, so
  that returning is proved and not assumed; no fuel is used.  \<open>Stdio\<close> has the calls on streams.  What
  system calls and other libraries (\<open>iconv\<close>, the sockets, the file system, the clock) return is input
  of the models; \<open>malloc\<close> succeeds or fails as a boolean argument says.

  \<^bold>\<open>The theories.\<close>

  \<^item> \<open>Utf8_Char\<close>, \<open>Unicode_Codec\<close>, \<open>Ncr\<close>, \<open>Url\<close>, \<open>Codec_Tests\<close> (utf8ToUnicodeToNCR/): the scanners of UTF-8
    and GBK against reference scanners, with the strings on which \<open>is_utf8_str\<close> never returns; the
    conversion of characters and strings between UTF-8 and UTF-16, decimal references and percent
    encoding, with round trips; the test program.
  \<^item> \<open>Sequence\<close>, \<open>Int_Array\<close>, \<open>Linklist\<close>, \<open>Heap\<close> (Storage/linear): the locale \<open>sequence\<close> is the
    interface of a container with insertion, what a series of insertions makes of it is proved once;
    the growing array and the linked list, which lives in a heap of nodes with addresses, interpret
    it, and \<open>two_sequences\<close> joins them.  The array heap is modelled with its faults.
  \<^item> \<open>BSTree\<close> (Storage/tree): the search tree refines a multiset (locale \<open>bag\<close>).
  \<^item> \<open>Ring_Buffer\<close> (ringBuffer/): the log keeps the last three messages (locale \<open>last_log\<close>) and prints them;
    the program from its first message to the cleared log.
  \<^item> \<open>Nat_Check\<close>, \<open>Nat_Server\<close> (P2P/): the handlers of natcheck as functions on its global state
    \<open>natst\<close>, with the outcome of every system call as an argument, and the servers as the list of
    messages they send; an invariant of the whole run, where the recorded addresses come from, and
    client and servers together.  \<open>Server_Setup\<close>: the sockets of the servers before their loops.
  \<^item> \<open>P2P_Server\<close>, \<open>P2P_Client\<close> (P2P/P2PServer/, P2P/P2PClient/): the server's list of users refines a
    directory of names, with an invariant of the states it can reach; the client's handlers, login, and
    the exchange of datagrams by which a message between two clients opens the way.  \<open>P2P_Threads\<close>: the two threads of
    the client side by side, with a step for every access to what they share; their interleavings give exactly the
    results of the functions of \<open>P2P_Client\<close>, sending ends, what an acknowledgement does and does not say, and what the
    receiving thread answers to any sequence of messages of the protocol.
    \<open>P2P_Start\<close>: the client from its socket and the typed words to the login.
  \<^item> \<open>Transitions\<close>: the locales of the step relations, \<open>step_system\<close> with an invariant, \<open>bounded_system\<close> with a bound
    on the steps of one part beside an environment and \<open>ending_system\<close> whose every step counts.  \<open>Memory_Leak\<close>,
    \<open>Leak_Test\<close> and \<open>P2P_Threads\<close> interpret them.
  \<^item> \<open>Memory_Leak\<close> (gcc/warp_malloc/): the wrappers of malloc, free, calloc and realloc with the table of
    blocks, related to the blocks the allocator has handed out; the report; the monitor, when it could be created, as an
    inductive step relation of two threads and a mutex.
  \<^item> \<open>Cdecl_FSM\<close> (FSM/): the scanner and the six states, a step function run until the last state.
  \<^item> \<open>Array_Practice\<close> (Practice/while.c): rotation and reversal of an array.
  \<^item> \<open>Hex_Version\<close> (hexToChar/, Analizefile/), \<open>Encrypt\<close> (encrypt/), \<open>File_Tools\<close> (file/), \<open>Numbers\<close>
    (Float/, Random/, Time/): conversions, ciphers and tools on files, digits and units.
  \<^item> \<open>Mac_Frame\<close>, \<open>Mac_Receiver\<close> (mac/, Network/checkip.c): frames, requests, the names of devices, the
    settings of the interface and the two loops that receive frames; why the loop of receiver.c never answers.
  \<^item> \<open>Network_Info\<close>, \<open>Network_Config\<close>, \<open>Net_Ioctl\<close>, \<open>Udp_Proxy\<close> (Network/, sys/sys.c): the lists of interfaces and
    addresses, the commands that read and change settings with their output, netmasks and prefixes,
    the properties in the bytes of \<open>struct ifreq\<close>, and the proxy that runs commands.
  \<^item> \<open>Unix_Echo\<close>, \<open>Host_Lookup\<close> (Network/): the echo server and its client together, the search for a host.
  \<^item> \<open>Leak_Test\<close>, \<open>Malloc_Hook\<close> (gcc/): the test program of the leak checker as a step relation of main and two
    threads, with an invariant and a bound on its steps; hooks that take themselves out.
  \<^item> \<open>Su_Caps\<close> (sys/su.c): system calls as a tree with a branch for every answer, run by a kernel that is a parameter;
    what the child may still do when its program is run.
  \<^item> \<open>Trad_Simp\<close> (traditionalTOSimplified/): charset and script of Chinese text, with iconv and OpenCC as parameters.
  \<^item> \<open>System_Reads\<close>, \<open>Cpu_Usage\<close>, \<open>Time_Demo\<close>, \<open>Exercises\<close> (Storage/libs, Random/, Time/, sys/, file/fcntl.c, Practice/, model/,
    gcc/ld_preload/): what small programs make of the answers of the system, the clock as a strictly increasing function on the linear order of
    \<open>timespec\<close>, the share of the processor over an arithmetic
    of floats that is a parameter, and exercises with arrays, linkage and keys.
  \<^item> This theory: the properties that span components.

  \<^bold>\<open>The lemmas.\<close>  Each theory first relates its loops to plain functions on lists (\<open>..._loop_eq\<close>,
  \<open>..._run\<close>), under the bounds that keep every access inside its object, then states its properties
  from those.  Properties say what the code does: round trips, refinement of a list, a multiset or a log,
  equivalence with a reference scanner, termination or its failure, and the faults that inputs within
  the documented range provoke.  The findings they show are listed beside the development.

  \<^bold>\<open>Bounds.\<close>  Buffers have the lengths of the source (128 bytes for a message, 1024 for a frame, 512 for a
  line, 4096 for a block of a file).  Where the code keeps the length of a string in an int, the theorems ask
  that the lengths they name fit one (\<open>int_max\<close>).  Where the source fixes a constant the model takes an argument for
  (the array and the distance of ArrayRotate, the number of rounds of the servers), the theorem holds for all
  of them.

  \<^bold>\<open>Not modelled.\<close>  Programs that print the sizes of types and the addresses of objects, the two preloaded libraries
  that patch return addresses in assembler or return constants, the rounding of float (a parameter), the conversions of times
  in the library, the variants for Windows and Solaris that are compiled away; diagnostics on stderr, and
  the progress that some functions print (\<open>_msg_add\<close>, \<open>getDirSize\<close>, the messenger).  The threads of the
  messenger share two variables, the flag and the list of users, and a handler of the receiving thread is a step for each
  datagram; an access to either variable is one step.  Of printf only the
  conversions in use are modelled.
\<close>

section \<open>The containers agree\<close>

interpretation containers: two_sequences wf elems_of array_fits array_insert ll_wf ll_elems "\<lambda>_ _. True" ll_insert ..

text \<open>
  C7.  The growing array and the linked list are two implementations of one sequence: with the same
  contents to begin with, the same insertions at legal positions succeed in both, keep both
  invariants and leave the same contents, the ones the insertions make of a list.
\<close>

theorem containers_agree:
  assumes "wf a" and "ll_wf s" and "elems_of a = ll_elems s" and "array_fits a (length ops)"
    and "legal (length (elems_of a)) ops"
  shows "\<exists>a' s'. insert_all array_insert ops a = Inr a' \<and> insert_all ll_insert ops s = Inr s' \<and> wf a' \<and> ll_wf s' \<and>
    elems_of a' = inserted ops (elems_of a) \<and> ll_elems s' = elems_of a'"
  using assms by (intro containers.agree) simp_all

theorem containers_agree_witness:
  "\<exists>a' s'. insert_all array_insert [(1, 8), (0, 6)] \<lparr>arr = Some [Some 7], asize = 1, capacity = 1\<rparr> = Inr a' \<and>
    insert_all ll_insert [(1, 8), (0, 6)] one_list = Inr s' \<and> wf a' \<and> ll_wf s' \<and>
    elems_of a' = [6, 7, 8] \<and> ll_elems s' = elems_of a'"
proof -
  let ?a = "\<lparr>arr = Some [Some 7], asize = 1, capacity = 1\<rparr>"
  have "rep ?a [7] []" by (simp add: rep_def int_max_def)
  then show ?thesis
    using containers_agree[of ?a one_list "[(1, 8), (0, 6)]"] one_list
    by (simp add: rep_wf rep_elems array_fits_def int_max_def insert_nth_def)
qed

section \<open>From references to percent encoding\<close>

text \<open>
  C22.  The converters compose: a string of decimal references of characters below 0x200000, followed by
  anything after its null byte, is converted by url_ncr_to_utf8 to a string that is_utf8_str
  accepts, which utf8_to_url_component writes in percent encoding and url_component_to_utf8 reads
  back, when each buffer is cleared and has room for a null byte more and three times the length of
  the text fits an int.
\<close>

theorem references_to_percent:
  assumes "0 \<notin> set us" and "\<forall>u\<in>set us. uint u < 0x200000" and "length (encode_str us) < unat k"
    and "3 * length (encode_str us) < unat n" and "int (3 * length (encode_str us)) \<le> int_max"
  shows "\<exists>utf enc. url_ncr_to_utf8 (Some (concat (map ncr_of us) @ 0 # z)) (Some (replicate (unat k) 0)) k
        = Inr (int (length (encode_str us)), Some utf) \<and>
      utf8_to_url_component (Some utf) (Some (replicate (unat n) 0)) n = Some (Inr (int (3 * length (encode_str us)), Some enc)) \<and>
      c_str enc 0 (url_str (encode_str us)) \<and>
      url_component_to_utf8 (Some enc) (Some (replicate (unat k) 0)) k = Inr (True, Some utf)"
proof -
  let ?s = "encode_str us"
  define utf where "utf = ?s @ drop (length ?s) (replicate (unat k) 0)"
  have small: "\<And>u. u \<in> set us \<Longrightarrow> uint u < 0x200000" using assms(2) by blast
  have "0 \<notin> set (concat (map ncr_of us))" using small ncr_of_small(3) by auto
  then have "c_str (concat (map ncr_of us) @ 0 # z) 0 (concat (map ncr_of us))" by (rule c_strI)
  from url_ncr_to_utf8_loop_encoded[OF this assms(1) small, of "[]" "unat k" "replicate (unat k) 0"] assms(3,5)
  have one: "url_ncr_to_utf8 (Some (concat (map ncr_of us) @ 0 # z)) (Some (replicate (unat k) 0)) k = Inr (int (length ?s), Some utf)"
    by (simp add: url_ncr_to_utf8_def utf_def)
  have "utf = ?s @ 0 # replicate (unat k - length ?s - 1) 0"
    using assms(3) by (simp add: utf_def flip: replicate_Suc)
  then have u: "c_str utf 0 ?s" using assms(1) by (simp add: c_strI encode_str_zero)
  then have acc: "is_utf8_str (Some utf) = Some (Inr True)"
    using is_utf8_loop_eq[OF u] by (simp add: is_utf8_str_def utf8_scan_encode)
  define enc where "enc = url_str ?s @ 0 # drop (3 * length ?s) (replicate (unat n - 1) 0)"
  have "replicate (unat n) (0 :: byte) = [] @ 0 # replicate (unat n - 1) 0" using assms(4) by (simp flip: replicate_Suc)
  then have two: "utf8_to_url_component (Some utf) (Some (replicate (unat n) 0)) n = Some (Inr (int (3 * length ?s), Some enc))"
    using utf8_to_url_loop_eq[OF u, of "[]" "replicate (unat n - 1) 0" 0 "unat n"] assms(4,5) acc
    by (simp add: utf8_to_url_component_def enc_def)
  have c: "c_str enc 0 (url_str ?s)" unfolding enc_def by (rule c_strI[OF url_str_no_zero])
  have "url_component_to_utf8 (Some enc) (Some (replicate (unat k) 0)) k = Inr (True, Some utf)"
    using url_component_loop_eq[OF c, of "[]" "unat k" "replicate (unat k) 0"] assms(3,5) c_str_strlen[OF c]
    by (simp add: url_component_to_utf8_def utf_def)
  with one two c show ?thesis by blast
qed

theorem references_to_percent_witness:
  "\<exists>utf enc. url_ncr_to_utf8 (Some [38, 35, 54, 53, 59, 0]) (Some (replicate 4 0)) 4 = Inr (1, Some utf) \<and>
      utf8_to_url_component (Some utf) (Some (replicate 8 0)) 8 = Some (Inr (3, Some enc)) \<and>
      c_str enc 0 [37, 52, 49] \<and>
      url_component_to_utf8 (Some enc) (Some (replicate 4 0)) 4 = Inr (True, Some utf)"
proof -
  have "encode_str [65] = [65]" by (simp add: unicode_bytes_def)
  moreover have "url_str [65] = [37, 52, 49]" by code_simp
  ultimately show ?thesis using references_to_percent[of "[65]" 4 8 "[]"] by (simp add: ncr_of_A int_max_def)
qed

end
